(* ===== verification/C_Prelude.thy ===== *)
theory C_Prelude
  imports Main "HOL-Library.Word" "HOL-Library.Signed_Division"
begin

text \<open>
  Shared vocabulary of the development: the C integer conversions the sources rely on, the C string
  functions they call (\<open>strcmp\<close>, \<open>strncmp\<close>, \<open>strnlen\<close>, \<open>atoi\<close>), the iteration
  lemmas used by several components and the lemma collections.

  Conventions. A C \<open>int\<close>, \<open>pid_t\<close> or \<open>long\<close> is a HOL \<open>int\<close> whose conversions are
  written out with \<open>wrap_s\<close>. An unsigned \<open>ulong\<close> is a \<open>nat\<close> below \<open>256 ^ size\<close>,
  and a byte of memory is an \<open>8 word\<close>. A C string is the list of its characters before the
  terminator.
\<close>

named_theorems log_simps \<open>how an operation extends the log of kernel calls\<close>
named_theorems frame_simps \<open>which parts of the state an operation leaves alone\<close>
named_theorems layout_simps \<open>evaluation of structure layouts\<close>

section \<open>Integer conversions\<close>

text \<open>Conversion to a signed integer of \<open>w\<close> bits, reduced modulo \<open>2 ^ w\<close> as the compilers of
  the kernel and of the test programs do.\<close>

definition wrap_s :: "nat \<Rightarrow> int \<Rightarrow> int" where
  "wrap_s w x = (x + 2 ^ (w - 1)) mod 2 ^ w - 2 ^ (w - 1)"

text \<open>Conversion to an unsigned integer of \<open>n\<close> bytes.\<close>

definition wrap_u :: "nat \<Rightarrow> int \<Rightarrow> nat" where
  "wrap_u n x = nat (x mod 256 ^ n)"

abbreviation c_int :: "int \<Rightarrow> int" where
  "c_int \<equiv> wrap_s 32"

abbreviation EINPROGRESS :: int where
  "EINPROGRESS \<equiv> 115"

abbreviation ENOMEM :: int where
  "ENOMEM \<equiv> 12"

abbreviation EINVAL :: int where
  "EINVAL \<equiv> 22"

lemma wrap_s_id: "0 < w \<Longrightarrow> - (2 ^ (w - 1)) \<le> x \<Longrightarrow> x < 2 ^ (w - 1) \<Longrightarrow> wrap_s w x = x"
proof -
  assume w: "0 < w" and lo: "- (2 ^ (w - 1)) \<le> x" and hi: "x < 2 ^ (w - 1)"
  have "(2::int) ^ w = 2 * 2 ^ (w - 1)"
    using w by (simp add: power_eq_if)
  then have "(x + 2 ^ (w - 1)) mod 2 ^ w = x + 2 ^ (w - 1)"
    using lo hi by (intro mod_pos_pos_trivial) auto
  then show ?thesis by (simp add: wrap_s_def)
qed

lemma wrap_s_range: "0 < w \<Longrightarrow> - (2 ^ (w - 1)) \<le> wrap_s w x \<and> wrap_s w x < 2 ^ (w - 1)"
proof -
  assume w: "0 < w"
  have "(2::int) ^ w = 2 * 2 ^ (w - 1)"
    using w by (simp add: power_eq_if)
  moreover have "0 \<le> (x + 2 ^ (w - 1)) mod 2 ^ w" "(x + 2 ^ (w - 1)) mod 2 ^ w < 2 ^ w"
    by simp_all
  ultimately show ?thesis by (simp add: wrap_s_def)
qed

lemma wrap_s_mod: "wrap_s w (x mod 2 ^ w) = wrap_s w x"
  by (simp add: wrap_s_def mod_add_left_eq)

lemma wrap_s_wrap_s [simp]: "0 < w \<Longrightarrow> wrap_s w (wrap_s w x) = wrap_s w x"
  using wrap_s_id [of w "wrap_s w x"] wrap_s_range [of w x] by blast

lemma c_int_id: "- 2147483648 \<le> x \<Longrightarrow> x < 2147483648 \<Longrightarrow> c_int x = x"
  using wrap_s_id [of 32 x] by simp

lemma c_int_of_small: "n < 2147483648 \<Longrightarrow> c_int (int n) = int n"
  by (rule c_int_id) auto

lemma c_int_add: "c_int (c_int x + y) = c_int (x + y)"
proof -
  have "c_int (c_int x + y) = c_int ((c_int x + y) mod 2 ^ 32)" by (rule wrap_s_mod [symmetric])
  also have "(c_int x + y) mod 2 ^ 32 = (x + y) mod 2 ^ 32"
    using mod_add_left_eq [of "x + 2147483648" "4294967296 :: int" "y - 2147483648"]
    by (simp add: wrap_s_def algebra_simps)
  also have "c_int \<dots> = c_int (x + y)" by (rule wrap_s_mod)
  finally show ?thesis .
qed

lemma c_int_add_left: "c_int (y + c_int x) = c_int (y + x)"
  using c_int_add [of x y] by (simp add: add.commute)

lemma c_int_diff: "c_int (c_int x - y) = c_int (x - y)"
  using c_int_add [of x "- y"] by simp

lemma wrap_u_id: "0 \<le> x \<Longrightarrow> x < 256 ^ n \<Longrightarrow> int (wrap_u n x) = x"
  by (simp add: wrap_u_def)

lemma wrap_u_less: "wrap_u n x < 256 ^ n"
  by (simp add: wrap_u_def nat_less_iff)

lemma wrap_s_int_mod_256: "wrap_s (8 * n) (int (k mod 256 ^ n)) = wrap_s (8 * n) (int k)"
proof -
  have "(2::int) ^ (8 * n) = 256 ^ n" by (simp add: power_mult)
  then show ?thesis
    using wrap_s_mod [of "8 * n" "int k"] by (simp add: of_nat_mod)
qed

lemma wrap_s_wrap_u: "wrap_s (8 * n) (int (wrap_u n x)) = wrap_s (8 * n) x"
proof -
  have "(2::int) ^ (8 * n) = 256 ^ n" by (simp add: power_mult)
  then show ?thesis
    using wrap_s_mod [of "8 * n" x] by (simp add: wrap_u_def)
qed

section \<open>C strings\<close>

definition nl :: string where
  "nl = [CHR 0x0A]"

text \<open>\<open>strcmp\<close> and \<open>strncmp\<close> return a negative, zero or positive value; the standard fixes no
  more than the sign. The end of a list is the terminator, which compares below every character.\<close>

fun strcmp :: "string \<Rightarrow> string \<Rightarrow> int" where
  "strcmp [] [] = 0"
| "strcmp [] (d # ds) = - 1"
| "strcmp (c # cs) [] = 1"
| "strcmp (c # cs) (d # ds) =
     (if c = d then strcmp cs ds
      else if (of_char c :: nat) < of_char d then - 1 else 1)"

fun strncmp :: "string \<Rightarrow> string \<Rightarrow> nat \<Rightarrow> int" where
  "strncmp _ _ 0 = 0"
| "strncmp [] [] (Suc n) = 0"
| "strncmp [] (d # ds) (Suc n) = - 1"
| "strncmp (c # cs) [] (Suc n) = 1"
| "strncmp (c # cs) (d # ds) (Suc n) =
     (if c = d then strncmp cs ds n
      else if (of_char c :: nat) < of_char d then - 1 else 1)"

definition strnlen :: "string \<Rightarrow> nat \<Rightarrow> nat" where
  "strnlen s n = min (length s) n"

lemma strcmp_0 [simp]: "strcmp s t = 0 \<longleftrightarrow> s = t"
  by (induction s t rule: strcmp.induct) auto

lemma strncmp_0 [simp]: "strncmp s t n = 0 \<longleftrightarrow> take n s = take n t"
  by (induction s t n rule: strncmp.induct) auto

text \<open>\<open>atoi\<close>: white space, an optional sign, digits up to the first other character, converted to
  \<open>int\<close> (the standard leaves values outside \<open>int\<close> undefined; the conversion shown is the
  one of \<open>(int) strtol\<close> for values that a 64-bit \<open>long\<close> holds).\<close>

definition is_space :: "char \<Rightarrow> bool" where
  "is_space c \<longleftrightarrow> c \<in> {CHR 0x20, CHR 0x09, CHR 0x0A, CHR 0x0B, CHR 0x0C, CHR 0x0D}"

definition is_digit :: "char \<Rightarrow> bool" where
  "is_digit c \<longleftrightarrow> 48 \<le> (of_char c :: nat) \<and> (of_char c :: nat) \<le> 57"

fun digits_value :: "int \<Rightarrow> string \<Rightarrow> int" where
  "digits_value acc [] = acc"
| "digits_value acc (c # cs) =
     (if is_digit c then digits_value (10 * acc + (of_char c - 48)) cs else acc)"

definition atoi :: "string \<Rightarrow> int" where
  "atoi s =
     (case dropWhile is_space s of
        [] \<Rightarrow> 0
      | c # cs \<Rightarrow>
          c_int (if c = CHR ''-'' then - digits_value 0 cs
                 else if c = CHR ''+'' then digits_value 0 cs
                 else digits_value 0 (c # cs)))"

lemma atoi_examples:
  "atoi ''10'' = 10" "atoi ''  -7x'' = - 7" "atoi ''abc'' = 0" "atoi '''' = 0"
  by (simp_all add: atoi_def is_space_def is_digit_def wrap_s_def)

section \<open>Loops that stop early\<close>

text \<open>
  A \<open>for\<close> loop over the elements of a list whose body may leave the enclosing function: the body
  returns \<open>Some rc\<close> for a \<open>return rc\<close> and \<open>None\<close> to go on.
\<close>

fun each :: "('x \<Rightarrow> 's \<Rightarrow> 'r option \<times> 's) \<Rightarrow> 'x list \<Rightarrow> 's \<Rightarrow> 'r option \<times> 's" where
  "each body [] s = (None, s)"
| "each body (x # xs) s =
     (case body x s of
        (Some rc, s') \<Rightarrow> (Some rc, s')
      | (None, s') \<Rightarrow> each body xs s')"

lemma each_append:
  "each body (xs @ ys) s =
     (case each body xs s of
        (Some rc, s') \<Rightarrow> (Some rc, s')
      | (None, s') \<Rightarrow> each body ys s')"
  by (induction xs arbitrary: s) (auto split: prod.splits option.splits)

lemma each_invariant:
  assumes "\<And>x s rc s'. x \<in> set xs \<Longrightarrow> P s \<Longrightarrow> body x s = (rc, s') \<Longrightarrow> P s'"
    and "P s" and "each body xs s = (rc, s')"
  shows "P s'"
  using assms
proof (induction xs arbitrary: s)
  case Nil
  then show ?case by simp
next
  case (Cons x xs)
  obtain r t where b: "body x s = (r, t)" by fastforce
  then have t: "P t" using Cons.prems(1,2) by (meson list.set_intros(1))
  show ?case
  proof (cases r)
    case None
    with b Cons.prems(3) have "each body xs t = (rc, s')" by simp
    with t show ?thesis
      using Cons.IH Cons.prems(1) by (meson list.set_intros(2))
  next
    case (Some v)
    with b t Cons.prems(3) show ?thesis by simp
  qed
qed

text \<open>When the loop runs to its end, every body did; when it stops early, a prefix did and the
  next element's body returned.\<close>

lemma each_None_all:
  "each body xs s = (None, s') \<Longrightarrow>
   xs = ys @ x # zs \<Longrightarrow> \<exists>t t'. each body ys s = (None, t) \<and> body x t = (None, t')"
  by (auto simp: each_append split: prod.splits option.splits)

lemma each_Some_split:
  "each body xs s = (Some rc, s') \<Longrightarrow>
   \<exists>ys x zs t. xs = ys @ x # zs \<and> each body ys s = (None, t) \<and> body x t = (Some rc, s')"
proof (induction xs arbitrary: s)
  case Nil
  then show ?case by simp
next
  case (Cons x xs)
  obtain r t where b: "body x s = (r, t)" by fastforce
  show ?case
  proof (cases r)
    case None
    with b Cons.prems have "each body xs t = (Some rc, s')" by simp
    from Cons.IH [OF this] obtain ys y zs u
      where "xs = ys @ y # zs" "each body ys t = (None, u)" "body y u = (Some rc, s')"
      by blast
    with b None have "x # xs = (x # ys) @ y # zs" "each body (x # ys) s = (None, u)"
      "body y u = (Some rc, s')" by simp_all
    then show ?thesis by blast
  next
    case (Some v)
    with b Cons.prems have "body x s = (Some rc, s')" by simp
    then have "x # xs = [] @ x # xs \<and> each body [] s = (None, s) \<and> body x s = (Some rc, s')"
      by simp
    then show ?thesis by blast
  qed
qed

text \<open>A loop over an index with an invariant for each stage, and \<open>F\<close> for every early return.\<close>

lemma each_stages:
  assumes step: "\<And>m s rc t. m < n \<Longrightarrow> I m s \<Longrightarrow> body m s = (rc, t) \<Longrightarrow>
      rc = None \<and> I (Suc m) t \<or> (\<exists>v. rc = Some v \<and> F v t)"
    and "I 0 s" and "each body [0..<n] s = (rc, t)"
  shows "rc = None \<and> I n t \<or> (\<exists>v. rc = Some v \<and> F v t)"
proof -
  have "rc = None \<and> I m t \<or> (\<exists>v. rc = Some v \<and> F v t)"
    if "m \<le> n" "each body [0..<m] s = (rc, t)" for m rc t
    using that
  proof (induction m arbitrary: rc t)
    case 0
    then show ?case using assms(2) by simp
  next
    case (Suc m)
    obtain rc' t' where e: "each body [0..<m] s = (rc', t')" by fastforce
    show ?case
    proof (cases rc')
      case None
      then have b: "body m t' = (rc, t)"
        using Suc.prems(2) e by (simp add: each_append split: option.splits prod.splits)
      have "I m t'" using Suc.IH [OF _ e] Suc.prems(1) None by simp
      then show ?thesis using step [OF _ _ b] Suc.prems(1) by simp
    next
      case (Some v)
      then show ?thesis using Suc.IH [OF _ e] Suc.prems e by (auto simp: each_append)
    qed
  qed
  from this [OF order_refl assms(3)] show ?thesis .
qed

end
