(* ===== verification/User_Memory.thy ===== *)
theory User_Memory
  imports C_Prelude
begin

text \<open>
  Byte-addressed memory of a process, little-endian loads and stores of any width, the two data
  models the sources are built for on x86 (32-bit and 64-bit \<open>ulong\<close>), and the layout rule that
  gives a C structure its member offsets. The locale \<open>byte_store\<close> states what the slot accesses of
  the user programs and of the probe handler rely on; the byte memory is its interpretation.
\<close>

section \<open>Bytes\<close>

type_synonym mem = "nat \<Rightarrow> 8 word"

fun load :: "nat \<Rightarrow> nat \<Rightarrow> mem \<Rightarrow> nat" where
  "load 0 a m = 0"
| "load (Suc n) a m = unat (m a) + 256 * load n (Suc a) m"

fun store :: "nat \<Rightarrow> nat \<Rightarrow> nat \<Rightarrow> mem \<Rightarrow> mem" where
  "store 0 a v m = m"
| "store (Suc n) a v m = store n (Suc a) (v div 256) (m(a := word_of_nat v))"

lemma load_less: "load n a m < 256 ^ n"
proof (induction n arbitrary: a)
  case 0
  then show ?case by simp
next
  case (Suc n)
  have "unat (m a) < 256" using unsigned_less [of "m a"] by simp
  moreover have "load n (Suc a) m + 1 \<le> 256 ^ n" using Suc.IH [of "Suc a"] by simp
  ultimately show ?case by simp
qed

lemma store_other: "x < a \<or> a + n \<le> x \<Longrightarrow> store n a v m x = m x"
  by (induction n arbitrary: a v m) auto

lemma load_cong: "(\<And>x. a \<le> x \<Longrightarrow> x < a + n \<Longrightarrow> m x = m' x) \<Longrightarrow> load n a m = load n a m'"
proof (induction n arbitrary: a)
  case 0
  then show ?case by simp
next
  case (Suc n)
  have "load n (Suc a) m = load n (Suc a) m'" by (rule Suc.IH) (use Suc.prems in auto)
  moreover have "m a = m' a" using Suc.prems by simp
  ultimately show ?case by simp
qed

lemma load_store_same: "load n a (store n a v m) = v mod 256 ^ n"
proof (induction n arbitrary: a v m)
  case 0
  then show ?case by simp
next
  case (Suc n)
  have "unat (word_of_nat v :: 8 word) = v mod 256"
    by (simp add: unat_of_nat)
  moreover have "(store n (Suc a) (v div 256) (m(a := word_of_nat v))) a = word_of_nat v"
    by (simp add: store_other)
  ultimately show ?case
    by (simp add: Suc.IH mod_mult2_eq)
qed

lemma load_store_disjoint:
  "b + n \<le> a \<or> a + k \<le> b \<Longrightarrow> load k a (store n b v m) = load k a m"
  by (rule load_cong) (auto simp: store_other)

lemma load_append: "load (j + k) a m = load j a m + 256 ^ j * load k (a + j) m"
  by (induction j arbitrary: a) (auto simp: algebra_simps)

lemma store_append: "store (j + k) a v m = store k (a + j) (v div 256 ^ j) (store j a v m)"
  by (induction j arbitrary: a v m) (auto simp: div_mult2_eq)

section \<open>The interface of the memory\<close>

text \<open>
  What the slot accesses need: reading back a value, stores that leave disjoint ranges alone, and
  wide accesses that are two adjacent narrower ones.
\<close>

locale byte_store =
  fixes ld :: "nat \<Rightarrow> nat \<Rightarrow> 'm \<Rightarrow> nat"
    and st :: "nat \<Rightarrow> nat \<Rightarrow> nat \<Rightarrow> 'm \<Rightarrow> 'm"
  assumes ld_less: "ld n a m < 256 ^ n"
    and ld_st_same: "ld n a (st n a v m) = v mod 256 ^ n"
    and ld_st_disjoint: "b + n \<le> a \<or> a + k \<le> b \<Longrightarrow> ld k a (st n b v m) = ld k a m"
    and ld_append: "ld (j + k) a m = ld j a m + 256 ^ j * ld k (a + j) m"
    and st_append: "st (j + k) a v m = st k (a + j) (v div 256 ^ j) (st j a v m)"
begin

lemma ld_st_below: "a + k \<le> b \<Longrightarrow> ld k a (st n b v m) = ld k a m"
  by (rule ld_st_disjoint) simp

lemma ld_st_above: "b + n \<le> a \<Longrightarrow> ld k a (st n b v m) = ld k a m"
  by (rule ld_st_disjoint) simp

text \<open>A wide store covers the field it starts at with the low part of the value, and replaces the
  low part of the field behind it by the high part of the value.\<close>

lemma ld_st_low: "ld j a (st (j + k) a v m) = v mod 256 ^ j"
  by (simp add: st_append ld_st_below ld_st_same)

lemma ld_st_spill:
  "ld (k + l) (a + j) (st (j + k) a v m) =
     (v div 256 ^ j) mod 256 ^ k + 256 ^ k * ld l (a + j + k) m"
proof -
  have "ld (k + l) (a + j) (st (j + k) a v m) =
      ld k (a + j) (st (j + k) a v m) + 256 ^ k * ld l (a + j + k) (st (j + k) a v m)"
    by (rule ld_append)
  moreover have "ld k (a + j) (st (j + k) a v m) = (v div 256 ^ j) mod 256 ^ k"
    by (simp add: st_append ld_st_same)
  moreover have "ld l (a + j + k) (st (j + k) a v m) = ld l (a + j + k) m"
    by (rule ld_st_above) simp
  ultimately show ?thesis by simp
qed

text \<open>A wide load starts with the field at its address.\<close>

lemma ld_wide_mod: "ld (j + k) a m mod 256 ^ j = ld j a m"
  using ld_less [of j a m] by (simp add: ld_append)

end

interpretation bytes: byte_store load store
  by unfold_locales
    (rule load_less load_store_same load_store_disjoint load_append store_append, assumption?)+

section \<open>Data models and structure layout\<close>

text \<open>Size of \<open>ulong\<close> (and of a pointer) in the two x86 builds; \<open>int\<close> and \<open>pid_t\<close> have four bytes
  in both.\<close>

datatype data_model = ILP32 | LP64

fun ulong_size :: "data_model \<Rightarrow> nat" where
  "ulong_size ILP32 = 4"
| "ulong_size LP64 = 8"

definition ulong_max :: "data_model \<Rightarrow> nat" where
  "ulong_max dm = 256 ^ ulong_size dm - 1"

text \<open>The C layout rule for scalar members that are aligned to their size: a member starts at the
  next multiple of its size, and the structure is padded to its largest member.\<close>

definition align_up :: "nat \<Rightarrow> nat \<Rightarrow> nat" where
  "align_up n k = (n + k - 1) div k * k"

fun member_offsets :: "nat \<Rightarrow> nat list \<Rightarrow> nat list" where
  "member_offsets off [] = []"
| "member_offsets off (sz # szs) = align_up off sz # member_offsets (align_up off sz + sz) szs"

definition struct_size :: "nat list \<Rightarrow> nat" where
  "struct_size szs =
     (let offs = member_offsets 0 szs
      in align_up (last offs + last szs) (foldr max szs 1))"

declare align_up_def [layout_simps] struct_size_def [layout_simps]

lemma ulong_size_pos [simp]: "0 < ulong_size dm"
  by (cases dm) simp_all

lemma ulong_size_ge_4: "4 \<le> ulong_size dm"
  by (cases dm) simp_all

lemma ulong_max_less: "ulong_max dm < 256 ^ ulong_size dm"
  by (simp add: ulong_max_def)

end
