(* ===== verification/Kernel_Interface.thy ===== *)
theory Kernel_Interface
  imports C_Prelude
begin

text \<open>
  The boundary between the modules and the kernel. The kernel is not part of the sources, so it is a
  parameter of the model: a record \<open>kernel\<close> whose \<open>k_api\<close> answers every call from the history of
  the calls made so far and whose \<open>k_vsnprintf\<close> formats a message. The modules see nothing of the
  kernel but these answers, so a theorem with no further hypothesis holds for every kernel. What the
  modules did is read off the log of their calls: the probes that are registered, the debugfs entries
  and the allocations that are live. A result is an \<open>int\<close>: a status, or an address where 0 is
  NULL. \<open>printk\<close> writes to the system log only and is left out.
\<close>

section \<open>Calls and their results\<close>

text \<open>An argument of a \<open>printf\<close>-style call, by the conversion that prints it.\<close>

datatype farg = ArgD int | ArgS string | ArgX int

text \<open>A statically allocated probe object: the name of the variable and an index into it.\<close>

datatype uobj = Uobj string nat

datatype fops = Fops_data | Fops_cleanup

datatype kcall =
    Debugfs_create_dir string
  | Debugfs_create_file string int fops
  | Debugfs_remove int
  | Kmalloc int
  | Kzalloc int
  | Kfree int
  | Copy_from_user int
  | Simple_read_from_buffer int int int int
  | Kallsyms_lookup_name string
  | Kern_path string
  | Igrab string
  | Uprobe_register int int int
  | Uprobe_unregister int int int
  | Register_uprobe uobj int int
  | Unregister_uprobe uobj
  | Register_uretprobe uobj int int
  | Unregister_uretprobe uobj
  | Init_uretprobes int int

record kernel =
  k_api :: "(kcall \<times> int) list \<Rightarrow> kcall \<Rightarrow> int"
  k_vsnprintf :: "nat \<Rightarrow> string \<Rightarrow> farg list \<Rightarrow> char list \<times> int"
  k_sizeof :: "string \<Rightarrow> int"

text \<open>The signal number that handlers pass to \<open>do_exit\<close>.\<close>

abbreviation SIGFPE :: int where
  "SIGFPE \<equiv> 8"

text \<open>The state every module starts from: the log, and whether the code has made an access outside
  every object (a NULL dereference or an index past an array). Once \<open>oopsed\<close> is set, nothing is
  claimed of the rest of the state.\<close>

record kst =
  klog :: "(kcall \<times> int) list"
  oopsed :: bool

definition kapi :: "kernel \<Rightarrow> kcall \<Rightarrow> 'a kst_scheme \<Rightarrow> int \<times> 'a kst_scheme" where
  "kapi K c s = (k_api K (klog s) c, s\<lparr>klog := klog s @ [(c, k_api K (klog s) c)]\<rparr>)"

abbreviation kdo :: "kernel \<Rightarrow> kcall \<Rightarrow> 'a kst_scheme \<Rightarrow> 'a kst_scheme" where
  "kdo K c s \<equiv> snd (kapi K c s)"

lemma kapi_log [log_simps]: "klog (kdo K c s) = klog s @ [(c, fst (kapi K c s))]"
  by (simp add: kapi_def)

lemma kapi_oopsed [frame_simps]: "oopsed (kdo K c s) = oopsed s"
  by (simp add: kapi_def)

section \<open>What is live, from the log\<close>

datatype registration =
    Inode_probe int int int
  | Object_probe uobj
  | Object_retprobe uobj

fun probe_step :: "registration set \<Rightarrow> kcall \<times> int \<Rightarrow> registration set" where
  "probe_step R (Uprobe_register i off u, r) = (if r = 0 then insert (Inode_probe i off u) R else R)"
| "probe_step R (Uprobe_unregister i off u, r) = R - {Inode_probe i off u}"
| "probe_step R (Register_uprobe u p v, r) = (if r = 0 then insert (Object_probe u) R else R)"
| "probe_step R (Unregister_uprobe u, r) = R - {Object_probe u}"
| "probe_step R (Register_uretprobe u p v, r) = (if r = 0 then insert (Object_retprobe u) R else R)"
| "probe_step R (Unregister_uretprobe u, r) = R - {Object_retprobe u}"
| "probe_step R (_, r) = R"

definition live_probes :: "(kcall \<times> int) list \<Rightarrow> registration set" where
  "live_probes l = foldl probe_step {} l"

fun dentry_step :: "int set \<Rightarrow> kcall \<times> int \<Rightarrow> int set" where
  "dentry_step D (Debugfs_create_dir n, r) = (if r \<noteq> 0 then insert r D else D)"
| "dentry_step D (Debugfs_create_file n p f, r) = (if r \<noteq> 0 then insert r D else D)"
| "dentry_step D (Debugfs_remove d, r) = D - {d}"
| "dentry_step D (_, r) = D"

definition live_dentries :: "(kcall \<times> int) list \<Rightarrow> int set" where
  "live_dentries l = foldl dentry_step {} l"

text \<open>Live allocations of \<open>kmalloc\<close>, with the size that was asked for.\<close>

fun alloc_step :: "(int \<rightharpoonup> int) \<Rightarrow> kcall \<times> int \<Rightarrow> (int \<rightharpoonup> int)" where
  "alloc_step A (Kmalloc n, r) = (if r \<noteq> 0 then A(r \<mapsto> n) else A)"
| "alloc_step A (Kzalloc n, r) = (if r \<noteq> 0 then A(r \<mapsto> n) else A)"
| "alloc_step A (Kfree p, r) = A(p := None)"
| "alloc_step A (_, r) = A"

definition live_allocs :: "(kcall \<times> int) list \<Rightarrow> (int \<rightharpoonup> int)" where
  "live_allocs l = foldl alloc_step Map.empty l"

lemma live_probes_simps [simp]:
  "live_probes [] = {}" "live_probes (l @ es) = foldl probe_step (live_probes l) es"
  by (simp_all add: live_probes_def)

lemma live_dentries_simps [simp]:
  "live_dentries [] = {}" "live_dentries (l @ es) = foldl dentry_step (live_dentries l) es"
  by (simp_all add: live_dentries_def)

lemma live_allocs_simps [simp]:
  "live_allocs [] = Map.empty" "live_allocs (l @ es) = foldl alloc_step (live_allocs l) es"
  by (simp_all add: live_allocs_def)

text \<open>Calls that neither register nor unregister a probe.\<close>

fun probe_neutral :: "kcall \<Rightarrow> bool" where
  "probe_neutral (Uprobe_register i off u) = False"
| "probe_neutral (Uprobe_unregister i off u) = False"
| "probe_neutral (Register_uprobe u p v) = False"
| "probe_neutral (Unregister_uprobe u) = False"
| "probe_neutral (Register_uretprobe u p v) = False"
| "probe_neutral (Unregister_uretprobe u) = False"
| "probe_neutral _ = True"

lemma probe_neutral_step: "probe_neutral c \<Longrightarrow> probe_step R (c, r) = R"
  by (cases c) auto

lemma live_probes_kdo:
  "probe_neutral c \<Longrightarrow> live_probes (klog (kdo K c s)) = live_probes (klog s)"
  by (simp add: kapi_log probe_neutral_step)

text \<open>The successful registrations of inode probes, in order.\<close>

fun reg_step :: "kcall \<times> int \<Rightarrow> (int \<times> int \<times> int) list" where
  "reg_step (Uprobe_register i off u, r) = (if r = 0 then [(i, off, u)] else [])"
| "reg_step (_, r) = []"

definition uprobe_regs :: "(kcall \<times> int) list \<Rightarrow> (int \<times> int \<times> int) list" where
  "uprobe_regs l = concat (map reg_step l)"

lemma uprobe_regs_simps [simp]:
  "uprobe_regs [] = []" "uprobe_regs (l @ es) = uprobe_regs l @ concat (map reg_step es)"
  by (simp_all add: uprobe_regs_def)

lemma probe_neutral_reg: "probe_neutral c \<Longrightarrow> reg_step (c, r) = []"
  by (cases c) auto

text \<open>A log that was extended by calls of one kind only.\<close>

definition only :: "(kcall \<Rightarrow> bool) \<Rightarrow> (kcall \<times> int) list \<Rightarrow> (kcall \<times> int) list \<Rightarrow> bool" where
  "only P l l' \<longleftrightarrow> (\<exists>es. l' = l @ es \<and> (\<forall>x \<in> set es. P (fst x)))"

lemma only_refl [simp, intro]: "only P l l"
  by (simp add: only_def)

lemma only_append [simp]: "only P l (l @ es) \<longleftrightarrow> (\<forall>x \<in> set es. P (fst x))"
  by (simp add: only_def)

lemma only_trans [trans]: "only P l l' \<Longrightarrow> only P l' l'' \<Longrightarrow> only P l l''"
  by (fastforce simp: only_def)

lemma only_snoc: "only P l l' \<Longrightarrow> \<forall>x \<in> set es. P (fst x) \<Longrightarrow> only P l (l' @ es)"
  by (auto simp: only_def)

lemma only_cut: "only P (l @ es) l' \<Longrightarrow> \<forall>x \<in> set es. P (fst x) \<Longrightarrow> only P l l'"
  by (auto simp: only_def)

lemma only_kdo: "P c \<Longrightarrow> only P (klog s) (klog (kdo K c s))"
  by (simp add: kapi_log)

lemma only_neutral:
  assumes "only probe_neutral l l'"
  shows "live_probes l' = live_probes l" and "uprobe_regs l' = uprobe_regs l"
proof -
  obtain es where es: "l' = l @ es" "\<forall>x \<in> set es. probe_neutral (fst x)"
    using assms by (auto simp: only_def)
  have "foldl probe_step R es = R" for R
    using es(2) by (induction es) (auto simp: probe_neutral_step)
  then show "live_probes l' = live_probes l" using es(1) by simp
  have "concat (map reg_step es) = []"
    using es(2) by (induction es) (auto simp: probe_neutral_reg)
  then show "uprobe_regs l' = uprobe_regs l" using es(1) by simp
qed

section \<open>Documented behaviour of vsnprintf\<close>

abbreviation INT_MAX :: nat where
  "INT_MAX \<equiv> 2147483647"

text \<open>
  \<open>text\<close> gives the complete expansion of a format. For a size up to \<open>INT_MAX\<close>, \<open>vsnprintf\<close> stores
  at most that many characters including the terminator and returns the length of the complete
  expansion, whether or not it fitted. Nothing is assumed for larger sizes.
\<close>

definition vsnprintf_law :: "kernel \<Rightarrow> (string \<Rightarrow> farg list \<Rightarrow> string) \<Rightarrow> bool" where
  "vsnprintf_law K text \<longleftrightarrow>
     (\<forall>n fmt args. n \<le> INT_MAX \<longrightarrow> length (text fmt args) \<le> INT_MAX \<longrightarrow>
        k_vsnprintf K n fmt args =
          (if n = 0 then [] else take (n - 1) (text fmt args) @ [CHR 0x00],
           int (length (text fmt args))))"

text \<open>A kernel for closed examples: every call answers what \<open>f\<close> says of it and of the number of
  calls before it, and a message expands to its format.\<close>

definition sample_kernel :: "(nat \<Rightarrow> kcall \<Rightarrow> int) \<Rightarrow> kernel" where
  "sample_kernel f =
     \<lparr>k_api = (\<lambda>l c. f (length l) c),
      k_vsnprintf = (\<lambda>n fmt args.
        (if n = 0 then [] else take (n - 1) fmt @ [CHR 0x00], int (length fmt))),
      k_sizeof = (\<lambda>_. 64)\<rparr>"

lemma sample_kernel_law: "vsnprintf_law (sample_kernel f) (\<lambda>fmt args. fmt)"
  by (simp add: vsnprintf_law_def sample_kernel_def)

lemma sample_kernel_api [simp]: "k_api (sample_kernel f) l c = f (length l) c"
  by (simp add: sample_kernel_def)

text \<open>A kernel that grants everything: statuses are 0, and addresses are new and nonzero; and one
  that answers \<open>v\<close> to the calls that satisfy \<open>P\<close>.\<close>

fun granted :: "nat \<Rightarrow> kcall \<Rightarrow> int" where
  "granted n (Debugfs_create_dir d) = int n + 1"
| "granted n (Debugfs_create_file f p ops) = int n + 1"
| "granted n (Kmalloc k) = int n + 1"
| "granted n (Kzalloc k) = int n + 1"
| "granted n (Kallsyms_lookup_name k) = int n + 1"
| "granted n (Igrab p) = int n + 1"
| "granted n (Simple_read_from_buffer c p d k) = k"
| "granted n _ = 0"

definition granting_kernel :: kernel where
  "granting_kernel = sample_kernel granted"

definition refusing_kernel :: "(kcall \<Rightarrow> bool) \<Rightarrow> int \<Rightarrow> kernel" where
  "refusing_kernel P v = sample_kernel (\<lambda>n c. if P c then v else granted n c)"

lemma granting_kernel_law: "vsnprintf_law granting_kernel (\<lambda>fmt args. fmt)"
  by (simp add: granting_kernel_def sample_kernel_law)

lemma granting_kernel_api [simp]: "k_api granting_kernel l c = granted (length l) c"
  by (simp add: granting_kernel_def)

lemma refusing_kernel_api [simp]:
  "k_api (refusing_kernel P v) l c = (if P c then v else granted (length l) c)"
  by (simp add: refusing_kernel_def)

end
