(* ===== verification/Debugfs.thy ===== *)
theory Debugfs
  imports Kernel_Interface User_Memory
begin

text \<open>
  \<open>include/udbgfs.c\<close>: the debugfs directory every test module creates, with a \<open>data\<close> file backed by
  a 1024-byte print buffer and a \<open>cleanup\<close> file whose first write runs the module's
  \<open>child_exit\<close>. State: the three directory entries, the \<open>print_buf\<close> pointer and the structure
  behind it, the bytes of the kernel heap it writes, and the \<open>entry\<close> flag of
  \<open>write_cleanup\<close>. The spin lock makes \<open>test_printk\<close> one atomic step, and is not represented.
\<close>

section \<open>State and operations\<close>

record data_buf_info =
  bytes_in_buf :: "64 word"
  bytes_left :: "64 word"
  cur :: int
  data :: int

record udbg = kst +
  dir :: int
  data_file :: int
  cleanup_file :: int
  print_buf :: int
  buf :: data_buf_info
  heap :: "int \<Rightarrow> char"
  entry :: int

abbreviation DATA_BUF_SIZE :: nat where
  "DATA_BUF_SIZE \<equiv> 1024"

text \<open>\<open>sizeof (print_buf)\<close>: the size of the pointer, not of the structure behind it.\<close>

definition sizeof_print_buf :: int where
  "sizeof_print_buf = 8"

fun write_chars :: "int \<Rightarrow> char list \<Rightarrow> (int \<Rightarrow> char) \<Rightarrow> (int \<Rightarrow> char)" where
  "write_chars a [] h = h"
| "write_chars a (c # cs) h = write_chars (a + 1) cs (h(a := c))"

definition test_printk ::
  "kernel \<Rightarrow> string \<Rightarrow> farg list \<Rightarrow> 'a udbg_scheme \<Rightarrow> int \<times> 'a udbg_scheme" where
  "test_printk K fmt args s =
     (if print_buf s = 0 then (0, s\<lparr>oopsed := True\<rparr>)
      else
        (case k_vsnprintf K (unat (bytes_left (buf s))) fmt args of
           (cs, len) \<Rightarrow>
             (len,
              s\<lparr>heap := write_chars (cur (buf s)) cs (heap s),
                buf := (buf s)\<lparr>cur := cur (buf s) + len,
                               bytes_in_buf := bytes_in_buf (buf s) + of_int len,
                               bytes_left := bytes_left (buf s) - of_int len\<rparr>\<rparr>)))"

abbreviation pr :: "kernel \<Rightarrow> string \<Rightarrow> farg list \<Rightarrow> 'a udbg_scheme \<Rightarrow> 'a udbg_scheme" where
  "pr K fmt args s \<equiv> snd (test_printk K fmt args s)"

definition read_data ::
  "kernel \<Rightarrow> int \<Rightarrow> int \<Rightarrow> 'a udbg_scheme \<Rightarrow> int \<times> 'a udbg_scheme" where
  "read_data K count pos s =
     (if print_buf s = 0 then (0, s\<lparr>oopsed := True\<rparr>)
      else if bytes_in_buf (buf s) = 0 then (0, s)
      else kapi K (Simple_read_from_buffer count pos (data (buf s)) (uint (bytes_in_buf (buf s)))) s)"

text \<open>\<open>child_exit\<close> is defined by each module that includes the file.\<close>

definition write_cleanup ::
  "kernel \<Rightarrow> ('a udbg_scheme \<Rightarrow> 'a udbg_scheme) \<Rightarrow> int \<Rightarrow> 'a udbg_scheme \<Rightarrow>
   int \<times> 'a udbg_scheme" where
  "write_cleanup K child_exit count s =
     (if entry s \<noteq> 0 then (count, s)
      else
        (case kapi K (Copy_from_user (min count (32 - 1))) (s\<lparr>entry := entry s + 1\<rparr>) of
           (r, s) \<Rightarrow> if r \<noteq> 0 then (- EINVAL, s) else (count, child_exit s)))"

definition set_up_print_buffer :: "kernel \<Rightarrow> 'a udbg_scheme \<Rightarrow> int \<times> 'a udbg_scheme" where
  "set_up_print_buffer K s =
     (case kapi K (Kmalloc sizeof_print_buf) s of (p, s) \<Rightarrow>
        let s = s\<lparr>print_buf := p\<rparr> in
        if p = 0 then (- ENOMEM, s)
        else
          let s = s\<lparr>buf := (buf s)\<lparr>data := 0, bytes_in_buf := 0\<rparr>\<rparr> in
          (case kapi K (Kmalloc (int DATA_BUF_SIZE)) s of (d, s) \<Rightarrow>
             let s = s\<lparr>buf := (buf s)\<lparr>data := d\<rparr>\<rparr> in
             if d = 0 then (- ENOMEM, kdo K (Kfree (print_buf s)) s)
             else (0, s\<lparr>buf := (buf s)\<lparr>cur := d, bytes_left := of_nat DATA_BUF_SIZE\<rparr>\<rparr>)))"

definition clean_up_print_buffer :: "kernel \<Rightarrow> 'a udbg_scheme \<Rightarrow> 'a udbg_scheme" where
  "clean_up_print_buffer K s =
     (if print_buf s = 0 then s\<lparr>oopsed := True\<rparr>
      else if data (buf s) \<noteq> 0
      then let s = kdo K (Kfree (data (buf s))) s in kdo K (Kfree (print_buf s)) s
      else s)"

definition u_dbfs_init :: "kernel \<Rightarrow> string \<Rightarrow> 'a udbg_scheme \<Rightarrow> int \<times> 'a udbg_scheme" where
  "u_dbfs_init K path s =
     (case kapi K (Debugfs_create_dir path) s of (d, s) \<Rightarrow>
        let s = s\<lparr>dir := d\<rparr> in
        if d = 0 then (- 1, s)
        else
          (case kapi K (Debugfs_create_file ''data'' (dir s) Fops_data) s of (f, s) \<Rightarrow>
             let s = s\<lparr>data_file := f\<rparr> in
             if f = 0 then (- 1, kdo K (Debugfs_remove (dir s)) s)
             else
               (case set_up_print_buffer K s of (r, s) \<Rightarrow>
                  if r < 0 then (- 1, s)
                  else
                    (case kapi K (Debugfs_create_file ''cleanup'' (dir s) Fops_cleanup) s of (c, s) \<Rightarrow>
                       (0, s\<lparr>cleanup_file := c\<rparr>)))))"

definition u_dbfs_cleanup :: "kernel \<Rightarrow> 'a udbg_scheme \<Rightarrow> 'a udbg_scheme" where
  "u_dbfs_cleanup K s =
     (let s = (if data_file s \<noteq> 0 then kdo K (Debugfs_remove (data_file s)) s else s);
          s = (if cleanup_file s \<noteq> 0 then kdo K (Debugfs_remove (cleanup_file s)) s else s);
          s = (if dir s \<noteq> 0 then kdo K (Debugfs_remove (dir s)) s else s)
      in clean_up_print_buffer K s)"

section \<open>One message\<close>

declare of_nat_unat [simp del] uint_nat [simp]

lemma write_chars_other:
  "x < a \<or> a + int (length cs) \<le> x \<Longrightarrow> write_chars a cs h x = h x"
  by (induction cs arbitrary: a h) auto

lemma write_chars_at: "i < length cs \<Longrightarrow> write_chars a cs h (a + int i) = cs ! i"
proof (induction cs arbitrary: a h i)
  case Nil
  then show ?case by simp
next
  case (Cons c cs)
  show ?case
  proof (cases i)
    case 0
    then show ?thesis by (simp add: write_chars_other)
  next
    case (Suc j)
    with Cons.prems have "write_chars (a + 1) cs (h(a := c)) (a + 1 + int j) = cs ! j"
      by (intro Cons.IH) simp
    with Suc show ?thesis by (simp add: algebra_simps)
  qed
qed

text \<open>The buffer between two messages: \<open>bytes_in_buf\<close> characters stored from \<open>data\<close> on,
  \<open>cur\<close> behind them, and \<open>bytes_left\<close> of the 1024 bytes remaining.\<close>

definition buf_ok :: "'a udbg_scheme \<Rightarrow> bool" where
  "buf_ok s \<longleftrightarrow>
     print_buf s \<noteq> 0
     \<and> unat (bytes_in_buf (buf s)) + unat (bytes_left (buf s)) = DATA_BUF_SIZE
     \<and> cur (buf s) = data (buf s) + uint (bytes_in_buf (buf s))"

definition printed :: "'a udbg_scheme \<Rightarrow> string" where
  "printed s = map (\<lambda>i. heap s (data (buf s) + int i)) [0..<unat (bytes_in_buf (buf s))]"

definition room :: "'a udbg_scheme \<Rightarrow> nat" where
  "room s = unat (bytes_left (buf s))"

lemma test_printk_stores:
  assumes law: "vsnprintf_law K text" and ok: "buf_ok s"
    and len: "length (text fmt args) \<le> INT_MAX" 
  shows "test_printk K fmt args s =
    (int (length (text fmt args)),
     s\<lparr>heap := write_chars (cur (buf s))
          (if room s = 0 then [] else take (room s - 1) (text fmt args) @ [CHR 0x00]) (heap s),
       buf := (buf s)\<lparr>cur := cur (buf s) + int (length (text fmt args)),
         bytes_in_buf := bytes_in_buf (buf s) + of_nat (length (text fmt args)),
         bytes_left := bytes_left (buf s) - of_nat (length (text fmt args))\<rparr>\<rparr>)"
proof -
  have "room s \<le> DATA_BUF_SIZE" using ok by (simp add: buf_ok_def room_def)
  then have "k_vsnprintf K (unat (bytes_left (buf s))) fmt args =
      (if room s = 0 then [] else take (room s - 1) (text fmt args) @ [CHR 0x00],
       int (length (text fmt args)))"
    using law len by (simp add: vsnprintf_law_def room_def)
  then show ?thesis using ok by (simp add: test_printk_def buf_ok_def)
qed

lemma unat_plus_small: "unat (w :: 64 word) + n < 2 ^ 64 \<Longrightarrow> unat (w + of_nat n) = unat w + n"
  by (simp add: unat_word_ariths unat_of_nat)

lemma unat_minus_small: "n \<le> unat (w :: 64 word) \<Longrightarrow> unat (w - of_nat n) = unat w - n"
proof -
  assume n: "n \<le> unat w"
  have "unat w < 2 ^ 64" using unsigned_less [of w] by simp
  with n have "n < 2 ^ 64" by simp
  with n show ?thesis by (simp add: unat_sub_if' unat_of_nat)
qed

lemma unat_minus_wrap:
  "unat (w :: 64 word) < n \<Longrightarrow> n < 2 ^ 64 \<Longrightarrow> unat (w - of_nat n) = 2 ^ 64 - (n - unat w)"
  by (simp add: unat_sub_if' unat_of_nat)

lemma printed_write:
  assumes "cur (buf s) = data (buf s) + int n"
    and "unat (bytes_in_buf b') = n + length t" and "data b' = data (buf s)"
    and "n = unat (bytes_in_buf (buf s))"
  shows "printed (s\<lparr>heap := write_chars (cur (buf s)) (t @ [c]) (heap s), buf := b'\<rparr>) = printed s @ t"
proof -
  let ?h = "write_chars (cur (buf s)) (t @ [c]) (heap s)" and ?d = "data (buf s)"
  have "map (\<lambda>i. ?h (?d + int i)) [0..<n] = map (\<lambda>i. heap s (?d + int i)) [0..<n]"
    using assms by (auto simp: write_chars_other)
  moreover have "map (\<lambda>i. ?h (?d + int i)) [n..<n + length t] = t"
  proof (rule nth_equalityI)
    fix j assume "j < length (map (\<lambda>i. ?h (?d + int i)) [n..<n + length t])"
    then have j: "j < length t" by simp
    then have "?h (cur (buf s) + int j) = t ! j"
      by (simp add: write_chars_at nth_append)
    then show "map (\<lambda>i. ?h (?d + int i)) [n..<n + length t] ! j = t ! j"
      using assms j by (simp add: algebra_simps)
  qed simp
  moreover have "[0..<n + length t] = [0..<n] @ [n..<n + length t]"
    by (rule upt_add_eq_append) simp
  ultimately have "map (\<lambda>i. ?h (?d + int i)) [0..<n + length t] = printed s @ t"
    using assms(4) by (simp add: printed_def)
  then show ?thesis
    using assms(2,3) by (simp add: printed_def)
qed

lemma test_printk_fits:
  assumes law: "vsnprintf_law K text" and ok: "buf_ok s"
    and len: "length (text fmt args) < room s"
  shows "buf_ok (pr K fmt args s)"
    and "printed (pr K fmt args s) = printed s @ text fmt args"
    and "room (pr K fmt args s) = room s - length (text fmt args)"
    and "data (buf (pr K fmt args s)) = data (buf s)"
    and "a < data (buf s) \<or> data (buf s) + int DATA_BUF_SIZE \<le> a \<Longrightarrow>
           heap (pr K fmt args s) a = heap s a"
proof -
  let ?t = "text fmt args" and ?b = "buf s"
  have r: "room s \<le> DATA_BUF_SIZE" "unat (bytes_in_buf ?b) + room s = DATA_BUF_SIZE"
    using ok by (simp_all add: buf_ok_def room_def)
  then have short: "length ?t \<le> INT_MAX" using len by simp
  have P: "pr K fmt args s =
     s\<lparr>heap := write_chars (cur ?b) (?t @ [CHR 0x00]) (heap s),
       buf := ?b\<lparr>cur := cur ?b + int (length ?t),
         bytes_in_buf := bytes_in_buf ?b + of_nat (length ?t),
         bytes_left := bytes_left ?b - of_nat (length ?t)\<rparr>\<rparr>"
    using test_printk_stores [OF law ok short] len by simp
  have inb: "unat (bytes_in_buf ?b + of_nat (length ?t)) = unat (bytes_in_buf ?b) + length ?t"
    using r len by (intro unat_plus_small) simp
  have left: "unat (bytes_left ?b - of_nat (length ?t)) = room s - length ?t"
    using len by (simp add: unat_minus_small room_def)
  have cur: "cur ?b = data ?b + int (unat (bytes_in_buf ?b))"
    using ok by (simp add: buf_ok_def)
  show "buf_ok (pr K fmt args s)"
    using ok len r inb left cur by (simp add: P buf_ok_def room_def)
  show "room (pr K fmt args s) = room s - length ?t"
    using left by (simp add: P room_def)
  show "data (buf (pr K fmt args s)) = data ?b"
    by (simp add: P)
  show "printed (pr K fmt args s) = printed s @ ?t"
    unfolding P by (rule printed_write) (use cur inb in simp_all)
  show "heap (pr K fmt args s) a = heap s a"
    if "a < data ?b \<or> data ?b + int DATA_BUF_SIZE \<le> a"
    using that cur r len by (auto simp: P write_chars_other)
qed

text \<open>A message that needs more than the room that is left: the store is cut off at the end of the
  buffer, but \<open>cur\<close> and \<open>bytes_in_buf\<close> advance by the full length and \<open>bytes_left\<close> wraps.\<close>

lemma test_printk_overflows:
  assumes law: "vsnprintf_law K text" and ok: "buf_ok s"
    and len: "room s < length (text fmt args)" "length (text fmt args) \<le> INT_MAX"
  shows "unat (bytes_in_buf (buf (pr K fmt args s))) =
           unat (bytes_in_buf (buf s)) + length (text fmt args)"
    and "cur (buf (pr K fmt args s)) = cur (buf s) + int (length (text fmt args))"
    and "room (pr K fmt args s) = 2 ^ 64 - (length (text fmt args) - room s)"
    and "data (buf (pr K fmt args s)) = data (buf s)"
    and "print_buf (pr K fmt args s) = print_buf s"
proof -
  let ?t = "text fmt args" and ?b = "buf s"
  have r: "room s \<le> DATA_BUF_SIZE" "unat (bytes_in_buf ?b) + room s = DATA_BUF_SIZE"
    using ok by (simp_all add: buf_ok_def room_def)
  note P = test_printk_stores [OF law ok len(2)]
  show "unat (bytes_in_buf (buf (pr K fmt args s))) = unat (bytes_in_buf ?b) + length ?t"
    using r len by (simp add: P unat_plus_small)
  show "cur (buf (pr K fmt args s)) = cur ?b + int (length ?t)"
    by (simp add: P)
  show "data (buf (pr K fmt args s)) = data ?b" "print_buf (pr K fmt args s) = print_buf s"
    by (simp_all add: P)
  show "room (pr K fmt args s) = 2 ^ 64 - (length ?t - room s)"
    using len by (simp add: P room_def unat_minus_wrap)
qed


section \<open>Frame of a message\<close>

lemma test_printk_frame [frame_simps]:
  "klog (pr K fmt args s) = klog s"
  "dir (pr K fmt args s) = dir s"
  "data_file (pr K fmt args s) = data_file s"
  "cleanup_file (pr K fmt args s) = cleanup_file s"
  "print_buf (pr K fmt args s) = print_buf s"
  "data (buf (pr K fmt args s)) = data (buf s)"
  "entry (pr K fmt args s) = entry s"
  "print_buf s \<noteq> 0 \<Longrightarrow> oopsed (pr K fmt args s) = oopsed s"
  "udbg.more (pr K fmt args s) = udbg.more s"
  by (simp_all add: test_printk_def split: prod.splits)

lemma kdo_frame [frame_simps]:
  "dir (kdo K c s) = dir s"
  "data_file (kdo K c s) = data_file s"
  "cleanup_file (kdo K c s) = cleanup_file s"
  "print_buf (kdo K c s) = print_buf s"
  "buf (kdo K c s) = buf s"
  "heap (kdo K c s) = heap s"
  "entry (kdo K c s) = entry s"
  "udbg.more (kdo K c s) = udbg.more s"
  by (simp_all add: kapi_def)

section \<open>Life cycle of the directory\<close>

text \<open>The two ways \<open>set_up_print_buffer\<close> ends.\<close>

lemma set_up_print_buffer_cases:
  "set_up_print_buffer K s = (r, s') \<Longrightarrow>
   r = - ENOMEM \<and> live_dentries (klog s') = live_dentries (klog s) \<and>
     live_probes (klog s') = live_probes (klog s) \<and>
     dir s' = dir s \<and> data_file s' = data_file s \<and> cleanup_file s' = cleanup_file s
   \<or> r = 0 \<and> buf_ok s' \<and> bytes_in_buf (buf s') = 0 \<and> room s' = DATA_BUF_SIZE \<and>
     data (buf s') \<noteq> 0 \<and> oopsed s' = oopsed s \<and> entry s' = entry s \<and>
     live_dentries (klog s') = live_dentries (klog s) \<and>
     live_probes (klog s') = live_probes (klog s) \<and>
     dir s' = dir s \<and> data_file s' = data_file s \<and> cleanup_file s' = cleanup_file s \<and>
     live_allocs (klog s') =
       (live_allocs (klog s))(print_buf s' \<mapsto> sizeof_print_buf, data (buf s') \<mapsto> int DATA_BUF_SIZE)"
  by (auto simp: set_up_print_buffer_def kapi_def Let_def buf_ok_def room_def split: if_splits)

lemma u_dbfs_init_result: "fst (u_dbfs_init K path s) = 0 \<or> fst (u_dbfs_init K path s) = - 1"
  by (simp add: u_dbfs_init_def kapi_def Let_def split: prod.splits)

text \<open>A successful \<open>u_dbfs_init\<close> went through \<open>set_up_print_buffer\<close> in a state \<open>t\<close> that has the
  directory and the \<open>data\<close> file, and only added the \<open>cleanup\<close> file behind it.\<close>

lemma u_dbfs_init_via_buffer:
  assumes "u_dbfs_init K path s = (0, s')"
  obtains t u where "set_up_print_buffer K t = (0, u)"
    "dir t \<noteq> 0" "data_file t \<noteq> 0" "oopsed t = oopsed s" "entry t = entry s"
    "live_probes (klog t) = live_probes (klog s)"
    "live_allocs (klog t) = live_allocs (klog s)"
    "live_dentries (klog t) = live_dentries (klog s) \<union> {dir t, data_file t}"
    "s' = (kdo K (Debugfs_create_file ''cleanup'' (dir u) Fops_cleanup) u)
        \<lparr>cleanup_file := fst (kapi K (Debugfs_create_file ''cleanup'' (dir u) Fops_cleanup) u)\<rparr>"
proof -
  let ?d = "k_api K (klog s) (Debugfs_create_dir path)"
  let ?s1 = "(kdo K (Debugfs_create_dir path) s)\<lparr>dir := ?d\<rparr>"
  let ?f = "k_api K (klog ?s1) (Debugfs_create_file ''data'' ?d Fops_data)"
  let ?t = "(kdo K (Debugfs_create_file ''data'' ?d Fops_data) ?s1)\<lparr>data_file := ?f\<rparr>"
  obtain r u where u: "set_up_print_buffer K ?t = (r, u)" by fastforce
  have d: "?d \<noteq> 0" and f: "?f \<noteq> 0"
    using assms by (auto simp: u_dbfs_init_def kapi_def Let_def split: if_splits)
  have "r = 0" "s' = (kdo K (Debugfs_create_file ''cleanup'' (dir u) Fops_cleanup) u)
        \<lparr>cleanup_file := fst (kapi K (Debugfs_create_file ''cleanup'' (dir u) Fops_cleanup) u)\<rparr>"
    using assms u d f set_up_print_buffer_cases [OF u]
    by (auto simp: u_dbfs_init_def kapi_def Let_def)
  with u d f show ?thesis
    by (intro that [of ?t u]) (auto simp: kapi_def)
qed

lemma u_dbfs_init_ok:
  assumes "u_dbfs_init K path s = (0, s')"
  shows "buf_ok s'" "bytes_in_buf (buf s') = 0" "room s' = DATA_BUF_SIZE" "data (buf s') \<noteq> 0"
    "live_probes (klog s') = live_probes (klog s)"
    "live_dentries (klog s') = live_dentries (klog s) \<union> ({dir s', data_file s', cleanup_file s'} - {0})"
    "oopsed s' = oopsed s" "entry s' = entry s" "dir s' \<noteq> 0" "data_file s' \<noteq> 0"
    "live_allocs (klog s') =
       (live_allocs (klog s))(print_buf s' \<mapsto> sizeof_print_buf, data (buf s') \<mapsto> int DATA_BUF_SIZE)"
proof -
  obtain t u where tu: "set_up_print_buffer K t = (0, u)"
    "dir t \<noteq> 0" "data_file t \<noteq> 0" "oopsed t = oopsed s" "entry t = entry s"
    "live_probes (klog t) = live_probes (klog s)"
    "live_allocs (klog t) = live_allocs (klog s)"
    "live_dentries (klog t) = live_dentries (klog s) \<union> {dir t, data_file t}"
    "s' = (kdo K (Debugfs_create_file ''cleanup'' (dir u) Fops_cleanup) u)
        \<lparr>cleanup_file := fst (kapi K (Debugfs_create_file ''cleanup'' (dir u) Fops_cleanup) u)\<rparr>"
    by (rule u_dbfs_init_via_buffer [OF assms]) blast
  have u: "buf_ok u" "bytes_in_buf (buf u) = 0" "room u = DATA_BUF_SIZE" "data (buf u) \<noteq> 0"
    "oopsed u = oopsed t" "entry u = entry t" "live_dentries (klog u) = live_dentries (klog t)"
    "live_probes (klog u) = live_probes (klog t)" "dir u = dir t" "data_file u = data_file t"
    "live_allocs (klog u) =
       (live_allocs (klog t))(print_buf u \<mapsto> sizeof_print_buf, data (buf u) \<mapsto> int DATA_BUF_SIZE)"
    using set_up_print_buffer_cases [OF tu(1)] by simp_all
  show "buf_ok s'" "bytes_in_buf (buf s') = 0" "room s' = DATA_BUF_SIZE" "data (buf s') \<noteq> 0"
    "oopsed s' = oopsed s" "entry s' = entry s" "dir s' \<noteq> 0" "data_file s' \<noteq> 0"
    using tu(2-5) u by (simp_all add: tu(9) kapi_def buf_ok_def room_def)
  show "live_probes (klog s') = live_probes (klog s)"
    "live_allocs (klog s') =
       (live_allocs (klog s))(print_buf s' \<mapsto> sizeof_print_buf, data (buf s') \<mapsto> int DATA_BUF_SIZE)"
    using tu(6,7) u by (simp_all add: tu(9) kapi_def)
  show "live_dentries (klog s') =
      live_dentries (klog s) \<union> ({dir s', data_file s', cleanup_file s'} - {0})"
    using tu(2,3,8) u by (auto simp: tu(9) kapi_def)
qed

lemma u_dbfs_init_fails:
  assumes "u_dbfs_init K path s = (r, s')" and "r \<noteq> 0"
  shows "r = - 1" "live_probes (klog s') = live_probes (klog s)"
    "live_dentries (klog s) = {} \<Longrightarrow>
       live_dentries (klog s') =
         (if dir s' = 0 \<or> data_file s' = 0 then {} else {dir s', data_file s'})"
  using assms
  by (auto simp: u_dbfs_init_def kapi_def Let_def split: if_splits prod.splits
      dest!: set_up_print_buffer_cases)

lemma clean_up_print_buffer_log:
  "live_probes (klog (clean_up_print_buffer K s)) = live_probes (klog s)"
  "live_dentries (klog (clean_up_print_buffer K s)) = live_dentries (klog s)"
  "print_buf s \<noteq> 0 \<Longrightarrow> data (buf s) \<noteq> 0 \<Longrightarrow>
     live_allocs (klog (clean_up_print_buffer K s)) =
       (live_allocs (klog s))(data (buf s) := None, print_buf s := None)"
  "print_buf s \<noteq> 0 \<Longrightarrow> oopsed (clean_up_print_buffer K s) = oopsed s"
  by (simp_all add: clean_up_print_buffer_def kapi_def Let_def)

lemma u_dbfs_cleanup_log [log_simps]:
  "live_probes (klog (u_dbfs_cleanup K s)) = live_probes (klog s)"
  "live_dentries (klog (u_dbfs_cleanup K s)) =
     live_dentries (klog s) - ({dir s, data_file s, cleanup_file s} - {0})"
  "print_buf s \<noteq> 0 \<Longrightarrow> data (buf s) \<noteq> 0 \<Longrightarrow>
     live_allocs (klog (u_dbfs_cleanup K s)) =
       (live_allocs (klog s))(data (buf s) := None, print_buf s := None)"
  "print_buf s \<noteq> 0 \<Longrightarrow> oopsed (u_dbfs_cleanup K s) = oopsed s"
  by (auto simp: u_dbfs_cleanup_def clean_up_print_buffer_log kapi_def Let_def split: if_splits)

lemma u_dbfs_cleanup_more [frame_simps]: "udbg.more (u_dbfs_cleanup K s) = udbg.more s"
  by (simp add: u_dbfs_cleanup_def clean_up_print_buffer_def kapi_def Let_def)

lemma u_dbfs_cleanup_only: "only probe_neutral (klog s) (klog (u_dbfs_cleanup K s))"
  by (simp add: u_dbfs_cleanup_def clean_up_print_buffer_def kapi_def Let_def)

lemma set_up_print_buffer_only:
  "set_up_print_buffer K s = (r, s') \<Longrightarrow>
     only probe_neutral (klog s) (klog s') \<and> udbg.more s' = udbg.more s"
  by (auto simp: set_up_print_buffer_def kapi_def Let_def split: if_splits)

lemma u_dbfs_init_only:
  assumes "u_dbfs_init K path s = (r, s')"
  shows "only probe_neutral (klog s) (klog s')" "udbg.more s' = udbg.more s"
proof -
  have "only probe_neutral (klog s) (klog s') \<and> udbg.more s' = udbg.more s"
    using assms
    by (auto simp: u_dbfs_init_def kapi_def Let_def split: if_splits prod.splits
        dest!: set_up_print_buffer_only intro!: only_snoc elim!: only_cut)
  then show "only probe_neutral (klog s) (klog s')" "udbg.more s' = udbg.more s" by simp_all
qed

section \<open>A module that is set up\<close>

text \<open>The debugfs entries that a module holds, and the state between \<open>u_dbfs_init\<close> and
  \<open>u_dbfs_cleanup\<close>.\<close>

definition handles :: "'a udbg_scheme \<Rightarrow> int set" where
  "handles s = {dir s, data_file s, cleanup_file s} - {0}"

definition dbfs_ready :: "'a udbg_scheme \<Rightarrow> bool" where
  "dbfs_ready s \<longleftrightarrow> print_buf s \<noteq> 0 \<and> data (buf s) \<noteq> 0"

lemma handles_frame [frame_simps]:
  "handles (kdo K c s) = handles s" "handles (pr K fmt args s) = handles s"
  by (simp_all add: handles_def frame_simps)

lemma dbfs_ready_frame [frame_simps]:
  "dbfs_ready (kdo K c s) = dbfs_ready s" "dbfs_ready (pr K fmt args s) = dbfs_ready s"
  by (simp_all add: dbfs_ready_def frame_simps)

lemma dbfs_ready_pr [frame_simps]: "dbfs_ready s \<Longrightarrow> oopsed (pr K fmt args s) = oopsed s"
  by (simp add: dbfs_ready_def frame_simps)

lemma u_dbfs_init_ready:
  assumes "u_dbfs_init K path s = (0, s')" and "live_dentries (klog s) = {}"
  shows "dbfs_ready s'" "live_dentries (klog s') = handles s'" "oopsed s' = oopsed s"
    "live_probes (klog s') = live_probes (klog s)"
proof -
  note i = u_dbfs_init_ok [OF assms(1)]
  show "dbfs_ready s'" using i(1,4) unfolding dbfs_ready_def buf_ok_def by blast
  show "live_dentries (klog s') = handles s'" using i(6) assms(2) by (simp add: handles_def)
  show "oopsed s' = oopsed s" "live_probes (klog s') = live_probes (klog s)" using i by simp_all
qed

lemma u_dbfs_cleanup_ready_log [log_simps]:
  "dbfs_ready s \<Longrightarrow> live_dentries (klog (u_dbfs_cleanup K s)) = live_dentries (klog s) - handles s"
  "dbfs_ready s \<Longrightarrow> oopsed (u_dbfs_cleanup K s) = oopsed s"
  by (simp_all add: log_simps dbfs_ready_def handles_def)

section \<open>The contract of the print buffer\<close>

text \<open>
  What the modules rely on when they print: as long as a message fits, it is appended to what a
  reader of the \<open>data\<close> file sees, and the room shrinks by its length. \<open>e\<close> is the environment
  that expands messages.
\<close>

locale message_sink =
  fixes valid :: "'e \<Rightarrow> bool"
    and expand :: "'e \<Rightarrow> 'm \<Rightarrow> string"
    and put :: "'e \<Rightarrow> 'm \<Rightarrow> 's \<Rightarrow> 's"
    and ready :: "'s \<Rightarrow> bool"
    and seen :: "'s \<Rightarrow> string"
    and space :: "'s \<Rightarrow> nat"
    and base :: "'s \<Rightarrow> int"
    and outside :: "'s \<Rightarrow> int \<Rightarrow> char"
  assumes put_ready: "valid e \<Longrightarrow> ready s \<Longrightarrow> length (expand e m) < space s \<Longrightarrow> ready (put e m s)"
    and put_seen: "valid e \<Longrightarrow> ready s \<Longrightarrow> length (expand e m) < space s \<Longrightarrow>
           seen (put e m s) = seen s @ expand e m"
    and put_space: "valid e \<Longrightarrow> ready s \<Longrightarrow> length (expand e m) < space s \<Longrightarrow>
           space (put e m s) = space s - length (expand e m)"
    and put_base: "valid e \<Longrightarrow> ready s \<Longrightarrow> length (expand e m) < space s \<Longrightarrow> base (put e m s) = base s"
    and put_outside: "valid e \<Longrightarrow> ready s \<Longrightarrow> length (expand e m) < space s \<Longrightarrow>
           a < base s \<or> base s + 1024 \<le> a \<Longrightarrow> outside (put e m s) a = outside s a"
begin

lemma puts_fit:
  assumes "valid e" and "ready s" and "length (concat (map (expand e) ms)) < space s"
  shows "ready (fold (put e) ms s)
    \<and> seen (fold (put e) ms s) = seen s @ concat (map (expand e) ms)
    \<and> space (fold (put e) ms s) = space s - length (concat (map (expand e) ms))
    \<and> (\<forall>a. a < base s \<or> base s + 1024 \<le> a \<longrightarrow> outside (fold (put e) ms s) a = outside s a)"
  using assms(2,3)
proof (induction ms arbitrary: s)
  case Nil
  then show ?case by simp
next
  case (Cons m ms)
  have len: "length (expand e m) < space s" using Cons.prems by simp
  note m = put_ready [OF assms(1) Cons.prems(1) len] put_seen [OF assms(1) Cons.prems(1) len]
    put_space [OF assms(1) Cons.prems(1) len] put_base [OF assms(1) Cons.prems(1) len]
    put_outside [OF assms(1) Cons.prems(1) len]
  have "length (concat (map (expand e) ms)) < space (put e m s)"
    using Cons.prems(2) m(3) by simp
  from Cons.IH [OF m(1) this] show ?case
    using m by simp
qed

end

interpretation dbg: message_sink
  "\<lambda>(K, text). vsnprintf_law K text"
  "\<lambda>(K, text) (fmt, args). text fmt args"
  "\<lambda>(K, text) (fmt, args). pr K fmt args"
  buf_ok printed room "\<lambda>s. data (buf s)" heap
  by unfold_locales (auto simp: test_printk_fits)

definition print_all :: "kernel \<Rightarrow> (string \<times> farg list) list \<Rightarrow> 'a udbg_scheme \<Rightarrow> 'a udbg_scheme" where
  "print_all K msgs s = fold (\<lambda>(fmt, args). pr K fmt args) msgs s"

lemma print_all_fits:
  assumes "vsnprintf_law K text" and "buf_ok s"
    and "length (concat (map (\<lambda>(fmt, args). text fmt args) msgs)) < room s"
  shows "buf_ok (print_all K msgs s)"
    and "printed (print_all K msgs s) = printed s @ concat (map (\<lambda>(fmt, args). text fmt args) msgs)"
    and "a < data (buf s) \<or> data (buf s) + 1024 \<le> a \<Longrightarrow> heap (print_all K msgs s) a = heap s a"
  using dbg.puts_fit [of "(K, text)" s msgs] assms by (auto simp: print_all_def)

lemma print_all_frame [frame_simps]:
  "klog (print_all K msgs s) = klog s" "dir (print_all K msgs s) = dir s"
  "data_file (print_all K msgs s) = data_file s"
  "cleanup_file (print_all K msgs s) = cleanup_file s"
  "print_buf (print_all K msgs s) = print_buf s"
  "data (buf (print_all K msgs s)) = data (buf s)"
  by (induction msgs arbitrary: s) (auto simp: print_all_def frame_simps)

section \<open>Properties\<close>

text \<open>After \<open>u_dbfs_init\<close> succeeded, any sequence of \<open>test_printk\<close> calls whose texts take
  fewer than 1024 characters in all leaves exactly those texts, in order, in the \<open>data\<close> file, and
  writes no byte outside the 1024 bytes that were allocated.\<close>

theorem test_printk_appends:
  assumes "vsnprintf_law K text" and "u_dbfs_init K path s0 = (0, s)"
    and "length (concat (map (\<lambda>(fmt, args). text fmt args) msgs)) < DATA_BUF_SIZE"
  shows "printed (print_all K msgs s) = concat (map (\<lambda>(fmt, args). text fmt args) msgs)
    \<and> (\<forall>a. a < data (buf s) \<or> data (buf s) + int DATA_BUF_SIZE \<le> a \<longrightarrow>
           heap (print_all K msgs s) a = heap s a)"
proof -
  note init = u_dbfs_init_ok [OF assms(2)]
  have "length (concat (map (\<lambda>(fmt, args). text fmt args) msgs)) < room s"
    using assms(3) init(3) by simp
  note fits = print_all_fits [OF assms(1) init(1) this]
  have "printed s = []" using init(2) by (simp add: printed_def)
  with fits show ?thesis by simp
qed

text \<open>Statically allocated variables start at zero. \<close>

definition udbg_zero :: udbg where
  "udbg_zero =
     \<lparr>klog = [], oopsed = False, dir = 0, data_file = 0, cleanup_file = 0, print_buf = 0,
      buf = \<lparr>bytes_in_buf = 0, bytes_left = 0, cur = 0, data = 0\<rparr>, heap = (\<lambda>_. CHR 0x00), entry = 0\<rparr>"

lemma granting_kernel_init:
  "u_dbfs_init granting_kernel path udbg_zero = (0, snd (u_dbfs_init granting_kernel path udbg_zero))"
  by (simp add: prod_eq_iff u_dbfs_init_def set_up_print_buffer_def kapi_def Let_def
      udbg_zero_def)

theorem test_printk_appends_witness:
  "printed (print_all granting_kernel [(''ab'', []), (''cde'', [])]
      (snd (u_dbfs_init granting_kernel ''kthread'' udbg_zero))) = ''abcde''"
  using test_printk_appends [OF granting_kernel_law granting_kernel_init,
      of "[(''ab'', []), (''cde'', [])]" "''kthread''"] by simp

text \<open>(C18) A message that does not fit is cut off at the end of the buffer, but \<open>bytes_in_buf\<close>
  grows by its full length: the next \<open>read_data\<close> offers the reader more bytes than the 1024 that
  were allocated, and \<open>bytes_left\<close>, which is unsigned, wraps around to more than \<open>INT_MAX\<close>.\<close>

theorem test_printk_overflow_exposes_heap:
  assumes "vsnprintf_law K text" and "buf_ok s"
    and "room s < length (text fmt args)" and "length (text fmt args) \<le> INT_MAX"
  shows "\<exists>n r. klog (snd (read_data K count pos (pr K fmt args s))) =
      klog s @ [(Simple_read_from_buffer count pos (data (buf s)) n, r)]
      \<and> int DATA_BUF_SIZE < n \<and> INT_MAX < room (pr K fmt args s)"
proof -
  let ?s = "pr K fmt args s"
  note ov = test_printk_overflows [OF assms]
  have pb: "print_buf ?s \<noteq> 0" using assms(2) ov(5) by (simp add: buf_ok_def)
  have "DATA_BUF_SIZE = unat (bytes_in_buf (buf s)) + room s"
    using assms(2) by (simp add: buf_ok_def room_def)
  then have big: "DATA_BUF_SIZE < unat (bytes_in_buf (buf ?s))"
    using ov(1) assms(3) by simp
  then have "bytes_in_buf (buf ?s) \<noteq> 0" by auto
  with pb have "klog (snd (read_data K count pos ?s)) =
      klog s @ [(Simple_read_from_buffer count pos (data (buf s)) (uint (bytes_in_buf (buf ?s))),
        k_api K (klog s) (Simple_read_from_buffer count pos (data (buf s)) (uint (bytes_in_buf (buf ?s)))))]"
    by (simp add: read_data_def kapi_def frame_simps)
  moreover have "INT_MAX < room ?s" using ov(3) assms(3,4) by simp
  ultimately show ?thesis using big by fastforce
qed

theorem test_printk_overflow_witness:
  "\<exists>n r. klog (snd (read_data granting_kernel 4096 0
      (pr granting_kernel (replicate 1025 CHR ''x'') []
        (snd (u_dbfs_init granting_kernel ''probe5'' udbg_zero))))) =
    klog (snd (u_dbfs_init granting_kernel ''probe5'' udbg_zero)) @
      [(Simple_read_from_buffer 4096 0 (data (buf (snd (u_dbfs_init granting_kernel ''probe5'' udbg_zero)))) n, r)]
    \<and> int DATA_BUF_SIZE < n
    \<and> INT_MAX < room (pr granting_kernel (replicate 1025 CHR ''x'') []
        (snd (u_dbfs_init granting_kernel ''probe5'' udbg_zero)))"
  using u_dbfs_init_ok(1,3) [OF granting_kernel_init]
  by (intro test_printk_overflow_exposes_heap [OF granting_kernel_law]) simp_all

text \<open>(C19) The directory's life cycle: when \<open>u_dbfs_init\<close> succeeds and \<open>u_dbfs_cleanup\<close> runs on a
  state with the same handles (whatever was printed in between), nothing \<open>u_dbfs_init\<close> created
  or allocated is left.\<close>

theorem u_dbfs_init_cleanup:
  assumes "u_dbfs_init K path s = (0, s1)"
    and "live_dentries (klog s) = {}" and "live_allocs (klog s) = Map.empty"
  shows "live_dentries (klog (u_dbfs_cleanup K (print_all K msgs s1))) = {}
    \<and> live_allocs (klog (u_dbfs_cleanup K (print_all K msgs s1))) = Map.empty"
proof -
  note init = u_dbfs_init_ok [OF assms(1)]
  have "print_buf s1 \<noteq> 0" using init(1) by (simp add: buf_ok_def)
  with init assms(2,3) show ?thesis
    by (auto simp: log_simps frame_simps fun_eq_iff)
qed

theorem u_dbfs_init_cleanup_witness:
  "live_dentries (klog (u_dbfs_cleanup granting_kernel (print_all granting_kernel [(''ok'', [])]
      (snd (u_dbfs_init granting_kernel ''kdie'' udbg_zero))))) = {}
   \<and> live_allocs (klog (u_dbfs_cleanup granting_kernel (print_all granting_kernel [(''ok'', [])]
      (snd (u_dbfs_init granting_kernel ''kdie'' udbg_zero))))) = Map.empty"
  by (rule u_dbfs_init_cleanup [OF granting_kernel_init]) (simp_all add: udbg_zero_def)

text \<open>(C20) A failed \<open>u_dbfs_init\<close> returns -1 and removes what it made, except when the print buffer
  cannot be allocated: then the directory and its \<open>data\<close> file stay behind.\<close>

theorem u_dbfs_init_failure:
  assumes "u_dbfs_init K path s = (r, s')" and "r \<noteq> 0" and "live_dentries (klog s) = {}"
  shows "r = - 1 \<and> live_dentries (klog s') =
    (if dir s' = 0 \<or> data_file s' = 0 then {} else {dir s', data_file s'})"
  using u_dbfs_init_fails [OF assms(1,2)] assms(3) by blast

theorem u_dbfs_init_failure_witness:
  "live_dentries (klog (snd (u_dbfs_init (refusing_kernel (\<lambda>c. c = Kmalloc 8) 0) ''kunreg'' udbg_zero))) = {1, 2}"
proof -
  let ?r = "u_dbfs_init (refusing_kernel (\<lambda>c. c = Kmalloc 8) 0) ''kunreg'' udbg_zero"
  have eq: "?r = (fst ?r, snd ?r)" by simp
  have rc: "fst ?r \<noteq> 0" and handles: "dir (snd ?r) = 1" "data_file (snd ?r) = 2"
    by (simp_all add: sizeof_print_buf_def u_dbfs_init_def set_up_print_buffer_def kapi_def Let_def
        udbg_zero_def)
  show ?thesis
    using u_dbfs_init_failure [OF eq rc] handles by (simp add: udbg_zero_def)
qed

text \<open>\<open>kmalloc(sizeof(print_buf))\<close> asks for the size of a pointer: the object behind
  \<open>print_buf\<close> is smaller than the two sizes and two pointers the code stores in it.\<close>

theorem print_buf_object_too_small:
  assumes "u_dbfs_init K path s = (0, s')" and "print_buf s' \<noteq> data (buf s')"
  shows "\<exists>n. live_allocs (klog s') (print_buf s') = Some n \<and> n < int (struct_size [8, 8, 8, 8])"
  using u_dbfs_init_ok(11) [OF assms(1)] assms(2)
  by (simp add: sizeof_print_buf_def layout_simps)

theorem print_buf_object_too_small_witness:
  "\<exists>n. live_allocs (klog (snd (u_dbfs_init granting_kernel ''kexec'' udbg_zero))) 3 = Some n
     \<and> n < int (struct_size [8, 8, 8, 8])"
proof -
  let ?s = "snd (u_dbfs_init granting_kernel ''kexec'' udbg_zero)"
  have "print_buf ?s = 3" "data (buf ?s) = 4"
    by (simp_all add: u_dbfs_init_def set_up_print_buffer_def kapi_def Let_def
        udbg_zero_def)
  then show ?thesis
    using print_buf_object_too_small [OF granting_kernel_init, of "''kexec''"] by simp
qed

text \<open>Whatever is written to the \<open>cleanup\<close> file, \<open>child_exit\<close> runs at most once: the first write
  runs it exactly when the user buffer can be read, and every later write returns its count and
  changes nothing.\<close>

theorem write_cleanup_runs_child_exit_once:
  assumes "\<And>t. entry (child_exit t) = entry t" and "entry s = 0"
    and "write_cleanup K child_exit count s = (r, s1)"
  shows "(let (e, t) = kapi K (Copy_from_user (min count 31)) (s\<lparr>entry := 1\<rparr>)
          in if e = 0 then r = count \<and> s1 = child_exit t else r = - EINVAL \<and> s1 = t)
    \<and> write_cleanup K child_exit count' s1 = (count', s1)"
proof -
  obtain e t where k: "kapi K (Copy_from_user (min count 31)) (s\<lparr>entry := 1\<rparr>) = (e, t)"
    by fastforce
  then have "entry t = 1" by (auto simp: kapi_def)
  with k assms show ?thesis
    by (auto simp: write_cleanup_def split: if_splits)
qed

theorem write_cleanup_witness:
  "\<exists>s1. write_cleanup granting_kernel (pr granting_kernel ''num_probes=%ld'' []) 2
        (udbg_zero\<lparr>print_buf := 9\<rparr>) = (2, s1)
     \<and> write_cleanup granting_kernel (pr granting_kernel ''num_probes=%ld'' []) 5 s1 = (5, s1)"
proof -
  let ?ce = "pr granting_kernel ''num_probes=%ld'' [] :: udbg \<Rightarrow> udbg"
  let ?r = "write_cleanup granting_kernel ?ce 2 (udbg_zero\<lparr>print_buf := 9\<rparr>)"
  have rc: "?r = (2, snd ?r)"
    by (simp add: prod_eq_iff write_cleanup_def kapi_def udbg_zero_def)
  have "write_cleanup granting_kernel ?ce 5 (snd ?r) = (5, snd ?r)"
    using write_cleanup_runs_child_exit_once [OF _ _ rc] by (simp add: udbg_zero_def frame_simps)
  with rc show ?thesis by blast
qed

end
