(* ===== verification/Symbols.thy ===== *)
theory Symbols
  imports Kernel_Interface
begin

text \<open>
  \<open>uprobes.w/symbols.h\<close>: looking up the symbols of the probed program. The table
  \<open>user_symbols\<close> is generated from the program at build time, so it is an argument.
  \<open>find_inode\<close> and \<open>find_offset\<close> resolve a name, \<open>glob_names\<close> and the macro
  \<open>for_each_glob\<close> enumerate the names that start with a prefix.
\<close>

section \<open>Operations\<close>

record symbol =
  sym_path :: string
  sym_offset :: int
  sym_name :: string

fun find_inode :: "kernel \<Rightarrow> symbol list \<Rightarrow> string \<Rightarrow> 'a kst_scheme \<Rightarrow> int \<times> 'a kst_scheme" where
  "find_inode K [] name s = (0, s)"
| "find_inode K (y # ys) name s =
     (if strcmp name (sym_name y) = 0
      then (case kapi K (Kern_path (sym_path y)) s of
              (ret, s) \<Rightarrow> if ret \<noteq> 0 then (0, s) else kapi K (Igrab (sym_path y)) s)
      else find_inode K ys name s)"

fun find_offset :: "symbol list \<Rightarrow> string \<Rightarrow> int" where
  "find_offset [] name = 0"
| "find_offset (y # ys) name =
     (if strcmp name (sym_name y) = 0 then sym_offset y else find_offset ys name)"

text \<open>The cursor \<open>*next\<close> is an argument and part of the result: \<open>Some (i, n)\<close> when the function
  returns the name \<open>n\<close> and leaves \<open>i\<close> in \<open>*next\<close>, \<open>None\<close> when it returns NULL.\<close>

function glob_names :: "symbol list \<Rightarrow> string \<Rightarrow> nat \<Rightarrow> nat \<Rightarrow> (nat \<times> string) option" where
  "glob_names syms name i len =
     (if i < length syms
      then if strncmp (sym_name (syms ! i)) name len = 0 then Some (i, sym_name (syms ! i))
           else glob_names syms name (Suc i) len
      else None)"
  by pat_completeness auto
termination
  by (relation "measure (\<lambda>(syms, name, i, len). length syms - i)") auto

declare glob_names.simps [simp del]

lemma glob_names_bounds: "glob_names syms name i len = Some (j, n) \<Longrightarrow> i \<le> j \<and> j < length syms"
proof (induction syms name i len rule: glob_names.induct)
  case (1 syms name i len)
  then show ?case
    by (fastforce simp: glob_names.simps [of syms name i len] split: if_splits)
qed

text \<open>The loop of the macro around a body that may leave the enclosing function.\<close>

function for_each_glob_from ::
  "symbol list \<Rightarrow> string \<Rightarrow> (string \<Rightarrow> 's \<Rightarrow> 'r option \<times> 's) \<Rightarrow> nat \<Rightarrow> 's \<Rightarrow> 'r option \<times> 's" where
  "for_each_glob_from syms glob body i s =
     (case glob_names syms glob i (strnlen glob 20) of
        None \<Rightarrow> (None, s)
      | Some (j, found) \<Rightarrow>
          (case body found s of
             (Some rc, s') \<Rightarrow> (Some rc, s')
           | (None, s') \<Rightarrow> for_each_glob_from syms glob body (Suc j) s'))"
  by pat_completeness auto
termination
  by (relation "measure (\<lambda>(syms, glob, body, i, s). length syms - i)")
    (auto dest!: glob_names_bounds)

declare for_each_glob_from.simps [simp del]

definition for_each_glob ::
  "symbol list \<Rightarrow> string \<Rightarrow> (string \<Rightarrow> 's \<Rightarrow> 'r option \<times> 's) \<Rightarrow> 's \<Rightarrow> 'r option \<times> 's" where
  "for_each_glob syms glob body s = for_each_glob_from syms glob body 0 s"

section \<open>What a glob enumerates\<close>

text \<open>Only the first 20 characters of the glob count, because of \<open>strnlen(glob,20)\<close>.\<close>

definition glob_matches :: "string \<Rightarrow> string \<Rightarrow> bool" where
  "glob_matches glob n \<longleftrightarrow> take (strnlen glob 20) n = take (strnlen glob 20) glob"

definition globbed :: "symbol list \<Rightarrow> string \<Rightarrow> string list" where
  "globbed syms glob = filter (glob_matches glob) (map sym_name syms)"

lemma glob_names_filter:
  "filter (glob_matches glob) (map sym_name (drop i syms)) =
     (case glob_names syms glob i (strnlen glob 20) of
        None \<Rightarrow> []
      | Some (j, n) \<Rightarrow> n # filter (glob_matches glob) (map sym_name (drop (Suc j) syms)))"
proof (induction syms glob i "strnlen glob 20" rule: glob_names.induct)
  case (1 syms glob i)
  show ?case
  proof (cases "i < length syms")
    case False
    then show ?thesis by (simp add: glob_names.simps)
  next
    case True
    then have d: "drop i syms = syms ! i # drop (Suc i) syms" by (simp add: Cons_nth_drop_Suc)
    show ?thesis
    proof (cases "strncmp (sym_name (syms ! i)) glob (strnlen glob 20) = 0")
      case match: True
      with True d show ?thesis
        by (simp add: glob_names.simps [of syms glob i] glob_matches_def)
    next
      case nomatch: False
      with "1" [OF True nomatch] True d show ?thesis
        by (simp add: glob_names.simps [of syms glob i] glob_matches_def)
    qed
  qed
qed

lemma for_each_glob_from_each:
  "for_each_glob_from syms glob body i s =
     each body (filter (glob_matches glob) (map sym_name (drop i syms))) s"
proof (induction syms glob body i s rule: for_each_glob_from.induct)
  case (1 syms glob body i s)
  show ?case
  proof (cases "glob_names syms glob i (strnlen glob 20)")
    case None
    then show ?thesis by (simp add: for_each_glob_from.simps glob_names_filter)
  next
    case (Some p)
    obtain j n where p: "p = (j, n)" by fastforce
    obtain r t where b: "body n s = (r, t)" by fastforce
    show ?thesis
    proof (cases r)
      case None
      have "for_each_glob_from syms glob body (Suc j) t =
          each body (filter (glob_matches glob) (map sym_name (drop (Suc j) syms))) t"
        using "1" [OF Some p [symmetric] b [symmetric] None] by simp
      then show ?thesis
        using Some p b None
        by (simp add: for_each_glob_from.simps [of syms glob body i] glob_names_filter [of glob i])
    next
      case (Some v)
      with \<open>glob_names syms glob i (strnlen glob 20) = Some p\<close> p b show ?thesis
        by (simp add: for_each_glob_from.simps [of syms glob body i] glob_names_filter [of glob i])
    qed
  qed
qed

lemma for_each_glob_globbed:
  "for_each_glob syms glob body s = each body (globbed syms glob) s"
  by (simp add: for_each_glob_def globbed_def for_each_glob_from_each)

lemma globbed_subset: "n \<in> set (globbed syms glob) \<Longrightarrow> \<exists>y \<in> set syms. sym_name y = n"
  by (auto simp: globbed_def)

lemma find_offset_distinct:
  "distinct (map sym_name syms) \<Longrightarrow> y \<in> set syms \<Longrightarrow> find_offset syms (sym_name y) = sym_offset y"
proof (induction syms)
  case Nil
  then show ?case by simp
next
  case (Cons z syms)
  then show ?case by (cases "y = z") (force intro: rev_image_eqI)+
qed

lemma find_inode_log:
  assumes "find_inode K syms name s = (i, s')"
  shows "live_probes (klog s') = live_probes (klog s)" "live_dentries (klog s') = live_dentries (klog s)"
    "live_allocs (klog s') = live_allocs (klog s)" "oopsed s' = oopsed s" "kst.more s' = kst.more s"
  using assms
  by (induction K syms name s rule: find_inode.induct)
    (auto simp: kapi_def split: if_splits)

lemma find_inode_only: "find_inode K syms name s = (i, s') \<Longrightarrow> only probe_neutral (klog s) (klog s')"
  by (induction K syms name s rule: find_inode.induct) (auto simp: kapi_def split: if_splits)

section \<open>Properties\<close>

text \<open>(C21) \<open>for_each_glob\<close> terminates, runs its body on the names that agree with the first 20
  characters of the glob, each occurrence once and in table order, and stops at the first body
  that leaves the function.\<close>

theorem for_each_glob_enumerates:
  "for_each_glob syms glob body s =
     each body (filter (\<lambda>n. take (min (length glob) 20) n = take 20 glob) (map sym_name syms)) s"
  by (simp add: for_each_glob_globbed globbed_def glob_matches_def [abs_def] strnlen_def
      take_all_iff min_def)

text \<open>In a table without duplicate names, the offset of an enumerated name is the offset of its
  own entry; a name that is not in the table has offset 0.\<close>

theorem find_offset_resolves:
  assumes "distinct (map sym_name syms)"
  shows "(\<forall>y \<in> set syms. find_offset syms (sym_name y) = sym_offset y)
    \<and> (\<forall>n. n \<notin> sym_name ` set syms \<longrightarrow> find_offset syms n = 0)"
proof -
  have "n \<notin> sym_name ` set syms \<Longrightarrow> find_offset syms n = 0" for n
    by (induction syms) auto
  then show ?thesis using find_offset_distinct [OF assms] by blast
qed

theorem find_offset_resolves_witness:
  "find_offset [\<lparr>sym_path = ''/t'', sym_offset = 90, sym_name = ''_probe_0''\<rparr>,
      \<lparr>sym_path = ''/t'', sym_offset = 131, sym_name = ''_probe_1''\<rparr>] ''_probe_1'' = 131"
  using find_offset_resolves [of "[\<lparr>sym_path = ''/t'', sym_offset = 90, sym_name = ''_probe_0''\<rparr>,
      \<lparr>sym_path = ''/t'', sym_offset = 131, sym_name = ''_probe_1''\<rparr>]"] by simp

end
