(* ===== verification/Uprobes_Inode.thy ===== *)
theory Uprobes_Inode
  imports Debugfs
begin

text \<open>
  \<open>include/uprobes-inode.c\<close>: the pointers through which a module calls kernel functions that are
  not exported, resolved with \<open>kallsyms_lookup_name\<close> by \<open>_init_uprobe\<close> (here \<open>init_uprobe\<close>).
  The \<open>STAPCONF_*\<close> macros that say what the kernel exports are a configuration record. The file
  refuses to compile without \<open>CONFIG_UPROBES\<close>, so that macro is taken as set.
\<close>

section \<open>State and operations\<close>

record stapconf =
  task_user_regset_view_exported :: bool
  utrace_regset :: bool
  uprobe_register_exported :: bool
  uprobe_unregister_exported :: bool
  uprobe_get_swbp_addr_exported :: bool

record kmod = udbg +
  kallsyms_task_user_regset_view :: int
  kallsyms_uprobe_register :: int
  kallsyms_uprobe_unregister :: int
  kallsyms_uprobe_get_swbp_addr :: int

text \<open>The four lookups of \<open>_init_uprobe\<close>. The last three answer whether the code goes on; their
  \<open>False\<close> is its \<open>goto err0\<close>.\<close>

definition lookup_regset_view :: "stapconf \<Rightarrow> kernel \<Rightarrow> 'a kmod_scheme \<Rightarrow> 'a kmod_scheme" where
  "lookup_regset_view cf K s =
     (if \<not> task_user_regset_view_exported cf \<and> \<not> utrace_regset cf
      then (case kapi K (Kallsyms_lookup_name ''task_user_regset_view'') s of (p, s) \<Rightarrow>
              s\<lparr>kallsyms_task_user_regset_view := p\<rparr>)
      else s)"

definition lookup_register :: "stapconf \<Rightarrow> kernel \<Rightarrow> 'a kmod_scheme \<Rightarrow> bool \<times> 'a kmod_scheme" where
  "lookup_register cf K s =
     (if uprobe_register_exported cf then (True, s)
      else
        (case kapi K (Kallsyms_lookup_name ''uprobe_register'') s of (p, s) \<Rightarrow>
           if p \<noteq> 0 then (True, s\<lparr>kallsyms_uprobe_register := p\<rparr>)
           else
             (case kapi K (Kallsyms_lookup_name ''register_uprobe'') s of (q, s) \<Rightarrow>
                (q \<noteq> 0, s\<lparr>kallsyms_uprobe_register := q\<rparr>))))"

definition lookup_unregister :: "stapconf \<Rightarrow> kernel \<Rightarrow> 'a kmod_scheme \<Rightarrow> bool \<times> 'a kmod_scheme" where
  "lookup_unregister cf K s =
     (if uprobe_unregister_exported cf then (True, s)
      else
        (case kapi K (Kallsyms_lookup_name ''uprobe_unregister'') s of (p, s) \<Rightarrow>
           if p \<noteq> 0 then (True, s\<lparr>kallsyms_uprobe_unregister := p\<rparr>)
           else
             (case kapi K (Kallsyms_lookup_name ''unregister_uprobe'') s of (q, s) \<Rightarrow>
                (q \<noteq> 0, s\<lparr>kallsyms_uprobe_unregister := q\<rparr>))))"

definition lookup_swbp_addr :: "stapconf \<Rightarrow> kernel \<Rightarrow> 'a kmod_scheme \<Rightarrow> bool \<times> 'a kmod_scheme" where
  "lookup_swbp_addr cf K s =
     (if uprobe_get_swbp_addr_exported cf then (True, s)
      else
        (case kapi K (Kallsyms_lookup_name ''uprobe_get_swbp_addr'') s of (p, s) \<Rightarrow>
           (p \<noteq> 0, s\<lparr>kallsyms_uprobe_get_swbp_addr := p\<rparr>)))"

definition init_uprobe :: "stapconf \<Rightarrow> kernel \<Rightarrow> 'a kmod_scheme \<Rightarrow> int \<times> 'a kmod_scheme" where
  "init_uprobe cf K s =
     (case lookup_register cf K (lookup_regset_view cf K s) of (ok, s) \<Rightarrow>
        if \<not> ok then (- 1, s)
        else
          (case lookup_unregister cf K s of (ok, s) \<Rightarrow>
             if \<not> ok then (- 1, s)
             else
               (case lookup_swbp_addr cf K s of (ok, s) \<Rightarrow>
                  if \<not> ok then (- 1, s) else (0, s))))"

text \<open>The macros \<open>uprobe_register\<close> and \<open>uprobe_unregister\<close>: a call through the pointer when the
  function is not exported, and a crash when that pointer is NULL.\<close>

definition uprobe_register ::
  "stapconf \<Rightarrow> kernel \<Rightarrow> int \<Rightarrow> int \<Rightarrow> int \<Rightarrow> 'a kmod_scheme \<Rightarrow> int \<times> 'a kmod_scheme" where
  "uprobe_register cf K inode offset usp s =
     (if \<not> uprobe_register_exported cf \<and> kallsyms_uprobe_register s = 0
      then (0, s\<lparr>oopsed := True\<rparr>)
      else kapi K (Uprobe_register inode offset usp) s)"

definition uprobe_unregister ::
  "stapconf \<Rightarrow> kernel \<Rightarrow> int \<Rightarrow> int \<Rightarrow> int \<Rightarrow> 'a kmod_scheme \<Rightarrow> 'a kmod_scheme" where
  "uprobe_unregister cf K inode offset usp s =
     (if \<not> uprobe_unregister_exported cf \<and> kallsyms_uprobe_unregister s = 0
      then s\<lparr>oopsed := True\<rparr>
      else kdo K (Uprobe_unregister inode offset usp) s)"

section \<open>Lemmas\<close>

lemma lookup_register_sets:
  "lookup_register cf K s = (ok, s') \<Longrightarrow>
     ok \<longleftrightarrow> uprobe_register_exported cf \<or> kallsyms_uprobe_register s' \<noteq> 0"
  by (auto simp: lookup_register_def kapi_def split: if_splits)

lemma lookup_unregister_sets:
  "lookup_unregister cf K s = (ok, s') \<Longrightarrow>
     (ok \<longleftrightarrow> uprobe_unregister_exported cf \<or> kallsyms_uprobe_unregister s' \<noteq> 0)
     \<and> kallsyms_uprobe_register s' = kallsyms_uprobe_register s"
  by (auto simp: lookup_unregister_def kapi_def split: if_splits)

lemma lookup_swbp_addr_sets:
  "lookup_swbp_addr cf K s = (ok, s') \<Longrightarrow>
     (ok \<longleftrightarrow> uprobe_get_swbp_addr_exported cf \<or> kallsyms_uprobe_get_swbp_addr s' \<noteq> 0)
     \<and> kallsyms_uprobe_register s' = kallsyms_uprobe_register s
     \<and> kallsyms_uprobe_unregister s' = kallsyms_uprobe_unregister s"
  by (auto simp: lookup_swbp_addr_def kapi_def split: if_splits)

lemmas lookup_sets = lookup_register_sets lookup_unregister_sets lookup_swbp_addr_sets

text \<open>Every pointer the configuration calls through is set.\<close>

definition pointers_ok :: "stapconf \<Rightarrow> 'a kmod_scheme \<Rightarrow> bool" where
  "pointers_ok cf s \<longleftrightarrow>
     (uprobe_register_exported cf \<or> kallsyms_uprobe_register s \<noteq> 0)
     \<and> (uprobe_unregister_exported cf \<or> kallsyms_uprobe_unregister s \<noteq> 0)
     \<and> (uprobe_get_swbp_addr_exported cf \<or> kallsyms_uprobe_get_swbp_addr s \<noteq> 0)"

lemma init_uprobe_result: "init_uprobe cf K s = (r, s') \<Longrightarrow> r = 0 \<or> r = - 1"
  by (auto simp: init_uprobe_def split: prod.splits if_splits)

lemma init_uprobe_pointers: "init_uprobe cf K s = (0, s') \<Longrightarrow> pointers_ok cf s'"
  by (auto simp: init_uprobe_def pointers_ok_def split: prod.splits if_splits dest!: lookup_sets)

lemma init_uprobe_frame:
  assumes "init_uprobe cf K s = (r, s')"
  shows "only probe_neutral (klog s) (klog s')" and "live_dentries (klog s') = live_dentries (klog s)"
    and "live_allocs (klog s') = live_allocs (klog s)" and "oopsed s' = oopsed s"
    and "kmod.more s' = kmod.more s"
proof -
  define F where "F s s' \<longleftrightarrow> only probe_neutral (klog s) (klog s') \<and> live_dentries (klog s') = live_dentries (klog s)
      \<and> live_allocs (klog s') = live_allocs (klog s) \<and> oopsed s' = oopsed s \<and> kmod.more s' = kmod.more s"
    for s s' :: "'a kmod_scheme"
  have t: "F a b \<Longrightarrow> F b c \<Longrightarrow> F a c" for a b c
    by (auto simp: F_def intro: only_trans)
  have rv: "F s (lookup_regset_view cf K s)" for s
    by (simp add: F_def lookup_regset_view_def kapi_def)
  have rg: "F s (snd (lookup_register cf K s))" and un: "F s (snd (lookup_unregister cf K s))"
    and sw: "F s (snd (lookup_swbp_addr cf K s))" for s
    by (simp_all add: F_def lookup_register_def lookup_unregister_def lookup_swbp_addr_def kapi_def)
  define s1 where "s1 = lookup_regset_view cf K s"
  obtain b2 s2 where s2: "lookup_register cf K s1 = (b2, s2)" by fastforce
  obtain b3 s3 where s3: "lookup_unregister cf K s2 = (b3, s3)" by fastforce
  obtain b4 s4 where s4: "lookup_swbp_addr cf K s3 = (b4, s4)" by fastforce
  have f: "F s s1" "F s1 s2" "F s2 s3" "F s3 s4"
    using rv [of s] rg [of s1] un [of s2] sw [of s3] s2 s3 s4 by (simp_all add: s1_def)
  have "s' = s2 \<or> s' = s3 \<or> s' = s4"
    using assms s2 s3 s4 by (auto simp: init_uprobe_def s1_def split: if_splits)
  then have "F s s'" using f t by metis
  then show "only probe_neutral (klog s) (klog s')" "live_dentries (klog s') = live_dentries (klog s)"
    "live_allocs (klog s') = live_allocs (klog s)" "oopsed s' = oopsed s"
    "kmod.more s' = kmod.more s" by (simp_all add: F_def)
qed

lemma pointers_ok_frame [frame_simps]:
  "pointers_ok cf (kdo K c s) = pointers_ok cf s"
  "pointers_ok cf (pr K fmt args s) = pointers_ok cf s"
  by (simp_all add: pointers_ok_def kapi_def test_printk_def split: prod.splits)

lemma uprobe_register_live:
  "pointers_ok cf s \<Longrightarrow> uprobe_register cf K i off u s = kapi K (Uprobe_register i off u) s"
  by (auto simp: uprobe_register_def pointers_ok_def)

lemma uprobe_unregister_live:
  "pointers_ok cf s \<Longrightarrow> uprobe_unregister cf K i off u s = kdo K (Uprobe_unregister i off u) s"
  by (auto simp: uprobe_unregister_def pointers_ok_def)

section \<open>Properties\<close>


definition kmod_zero :: kmod where
  "kmod_zero =
     \<lparr>klog = [], oopsed = False, dir = 0, data_file = 0, cleanup_file = 0, print_buf = 0,
      buf = \<lparr>bytes_in_buf = 0, bytes_left = 0, cur = 0, data = 0\<rparr>, heap = (\<lambda>_. CHR 0x00), entry = 0,
      kallsyms_task_user_regset_view = 0, kallsyms_uprobe_register = 0,
      kallsyms_uprobe_unregister = 0, kallsyms_uprobe_get_swbp_addr = 0\<rparr>"

text \<open>A kernel that exports nothing, and one that exports all five functions.\<close>

definition nothing_exported :: stapconf where
  "nothing_exported = \<lparr>task_user_regset_view_exported = False, utrace_regset = False,
     uprobe_register_exported = False, uprobe_unregister_exported = False,
     uprobe_get_swbp_addr_exported = False\<rparr>"

definition all_exported :: stapconf where
  "all_exported = \<lparr>task_user_regset_view_exported = True, utrace_regset = True,
     uprobe_register_exported = True, uprobe_unregister_exported = True,
     uprobe_get_swbp_addr_exported = True\<rparr>"


text \<open>Against a kernel whose symbol table is a function \<open>ksym\<close> of the name, \<open>_init_uprobe\<close>
  succeeds exactly when each function it needs is exported or found, with
  \<open>register_uprobe\<close> and \<open>unregister_uprobe\<close> as the older names of the first two.\<close>

theorem init_uprobe_decides:
  assumes "\<And>l n. k_api K l (Kallsyms_lookup_name n) = ksym n"
  shows "fst (init_uprobe cf K s) =
    (if (uprobe_register_exported cf \<or> ksym ''uprobe_register'' \<noteq> 0 \<or> ksym ''register_uprobe'' \<noteq> 0)
        \<and> (uprobe_unregister_exported cf \<or> ksym ''uprobe_unregister'' \<noteq> 0 \<or> ksym ''unregister_uprobe'' \<noteq> 0)
        \<and> (uprobe_get_swbp_addr_exported cf \<or> ksym ''uprobe_get_swbp_addr'' \<noteq> 0)
     then 0 else - 1)"
proof -
  have look: "fst (kapi K (Kallsyms_lookup_name n) s) = ksym n"
    for n and s :: "'b kst_scheme" using assms by (simp add: kapi_def)
  have rg: "fst (lookup_register cf K t) \<longleftrightarrow>
      uprobe_register_exported cf \<or> ksym ''uprobe_register'' \<noteq> 0 \<or> ksym ''register_uprobe'' \<noteq> 0"
    and un: "fst (lookup_unregister cf K t) \<longleftrightarrow>
      uprobe_unregister_exported cf \<or> ksym ''uprobe_unregister'' \<noteq> 0 \<or> ksym ''unregister_uprobe'' \<noteq> 0"
    and sw: "fst (lookup_swbp_addr cf K t) \<longleftrightarrow>
      uprobe_get_swbp_addr_exported cf \<or> ksym ''uprobe_get_swbp_addr'' \<noteq> 0" for t :: "'a kmod_scheme"
    by (simp_all add: lookup_register_def lookup_unregister_def lookup_swbp_addr_def look case_prod_unfold)
  show ?thesis
    using rg un sw by (simp add: init_uprobe_def case_prod_unfold)
qed

theorem init_uprobe_decides_witness:
  "fst (init_uprobe nothing_exported
      (sample_kernel (\<lambda>l c. case c of Kallsyms_lookup_name n \<Rightarrow> if n = ''uprobe_unregister'' then 0 else 5 | _ \<Rightarrow> 0))
      kmod_zero) = 0"
  using init_uprobe_decides [of "sample_kernel (\<lambda>l c. case c of Kallsyms_lookup_name n \<Rightarrow>
      if n = ''uprobe_unregister'' then 0 else 5 | _ \<Rightarrow> 0)" "\<lambda>n. if n = ''uprobe_unregister'' then 0 else 5"
      nothing_exported kmod_zero]
  by simp

end
