(* ===== verification/Probe_Slot.thy ===== *)
theory Probe_Slot
  imports User_Memory
begin

text \<open>
  \<open>include/u_test_common.h\<close>: the counter slot \<open>struct uinfo\<close> as bytes of the process, the functions
  \<open>_probe_N\<close> and \<open>probe_N\<close> of the macro \<open>PROBE_FUN\<close>, the macro \<open>BUILD_PROBE_TABLE\<close> and the
  functions that report a verdict. A probe function runs with a \<open>hook\<close>: what the kernel does when
  the breakpoint on the entry of \<open>_probe_N\<close> is hit. Debug output is compiled out (\<open>debug\<close> is 0).
\<close>

section \<open>The slot\<close>

datatype uinfo_field = Utid | Ktid | Ucount | Kcount | Results

fun field_index :: "uinfo_field \<Rightarrow> nat" where
  "field_index Utid = 0"
| "field_index Ktid = 1"
| "field_index Ucount = 2"
| "field_index Kcount = 3"
| "field_index Results = 4"

fun field_size :: "data_model \<Rightarrow> uinfo_field \<Rightarrow> nat" where
  "field_size dm Utid = 4"
| "field_size dm Ktid = 4"
| "field_size dm Ucount = ulong_size dm"
| "field_size dm Kcount = ulong_size dm"
| "field_size dm Results = 4"

definition uinfo_sizes :: "data_model \<Rightarrow> nat list" where
  "uinfo_sizes dm = map (field_size dm) [Utid, Ktid, Ucount, Kcount, Results]"

definition offset_of :: "data_model \<Rightarrow> uinfo_field \<Rightarrow> nat" where
  "offset_of dm f = member_offsets 0 (uinfo_sizes dm) ! field_index f"

definition sizeof_uinfo :: "data_model \<Rightarrow> nat" where
  "sizeof_uinfo dm = struct_size (uinfo_sizes dm)"

definition rd :: "data_model \<Rightarrow> uinfo_field \<Rightarrow> nat \<Rightarrow> mem \<Rightarrow> nat" where
  "rd dm f p m = load (field_size dm f) (p + offset_of dm f) m"

definition wr :: "data_model \<Rightarrow> uinfo_field \<Rightarrow> nat \<Rightarrow> nat \<Rightarrow> mem \<Rightarrow> mem" where
  "wr dm f v p m = store (field_size dm f) (p + offset_of dm f) v m"

definition rd_pid :: "data_model \<Rightarrow> uinfo_field \<Rightarrow> nat \<Rightarrow> mem \<Rightarrow> int" where
  "rd_pid dm f p m = c_int (int (rd dm f p m))"

lemma offset_of_simps [simp]:
  "offset_of dm Utid = 0" "offset_of dm Ktid = 4" "offset_of dm Ucount = 8"
  "offset_of dm Kcount = 8 + ulong_size dm" "offset_of dm Results = 8 + 2 * ulong_size dm"
  by (cases dm; simp add: offset_of_def uinfo_sizes_def layout_simps)+

lemma sizeof_uinfo_simps [simp]: "sizeof_uinfo ILP32 = 20" "sizeof_uinfo LP64 = 32"
  by (simp_all add: sizeof_uinfo_def uinfo_sizes_def layout_simps)

lemma field_in_slot: "offset_of dm f + field_size dm f \<le> sizeof_uinfo dm"
  by (cases dm; cases f) simp_all

lemma rd_less: "rd dm f p m < 256 ^ field_size dm f"
  by (simp add: rd_def bytes.ld_less)

lemma rd_wr_same [simp]: "rd dm f p (wr dm f v p m) = v mod 256 ^ field_size dm f"
  by (simp add: rd_def wr_def bytes.ld_st_same)

lemma fields_disjoint:
  "f \<noteq> g \<Longrightarrow> offset_of dm f + field_size dm f \<le> offset_of dm g
     \<or> offset_of dm g + field_size dm g \<le> offset_of dm f"
  by (cases f; cases g; cases dm) simp_all

lemma rd_wr_other [simp]: "f \<noteq> g \<Longrightarrow> rd dm g p (wr dm f v p m) = rd dm g p m"
  using fields_disjoint [of f g dm] by (auto simp: rd_def wr_def intro: bytes.ld_st_disjoint)

lemma wr_outside: "x < p \<or> p + sizeof_uinfo dm \<le> x \<Longrightarrow> wr dm f v p m x = m x"
  using field_in_slot [of dm f] by (auto simp: wr_def intro!: store_other)

lemma rd_cong: "(\<And>x. p \<le> x \<Longrightarrow> x < p + sizeof_uinfo dm \<Longrightarrow> m x = m' x) \<Longrightarrow> rd dm f p m = rd dm f p m'"
  using field_in_slot [of dm f] unfolding rd_def by (intro load_cong) auto

section \<open>Verdicts\<close>

text \<open>How a function of a test program ends: it returns, the process exits with a status and a last
  line of output, the task is killed by a signal, its image is replaced by another program, or the code
  goes outside its objects.\<close>

datatype outcome = Returned int | Exited int string | Killed int | Replaced string | Undefined

definition report_pass :: outcome where
  "report_pass = Exited 0 (''***PASSED***'' @ nl @ nl)"

definition report_fail :: outcome where
  "report_fail = Exited 1 (''!!!FAILED!!!'' @ nl @ nl)"

definition report_test_fail :: "string \<Rightarrow> outcome" where
  "report_test_fail msg = Exited 1 (''!!!FAILED!!! - Internal test failure - '' @ msg @ nl @ nl)"

section \<open>The probe functions\<close>

text \<open>\<open>_probe_N\<close>: the count of the user, compared with the count of the kernel.\<close>

definition probe_fun :: "data_model \<Rightarrow> nat \<Rightarrow> mem \<Rightarrow> int \<times> mem" where
  "probe_fun dm slot m =
     (let m = wr dm Ucount ((rd dm Ucount slot m + 1) mod 256 ^ ulong_size dm) slot m;
          ucount = rd dm Ucount slot m;
          kcount = rd dm Kcount slot m
      in (if kcount = ulong_max dm \<or> kcount = ucount then c_int (int kcount) else - 2, m))"

text \<open>What happens at the breakpoint: the handlers may change the kernel's state and the memory of the
  process, and may end the task with a signal.\<close>

type_synonym 'k hook = "nat \<Rightarrow> 'k \<times> mem \<Rightarrow> int option \<times> 'k \<times> mem"

definition hit_probe_fun :: "data_model \<Rightarrow> 'k hook \<Rightarrow> nat \<Rightarrow> 'k \<times> mem \<Rightarrow> outcome \<times> 'k \<times> mem" where
  "hit_probe_fun dm hook slot w =
     (case hook slot w of
        (Some sig, k, m) \<Rightarrow> (Killed sig, k, m)
      | (None, k, m) \<Rightarrow> (case probe_fun dm slot m of (r, m) \<Rightarrow> (Returned r, k, m)))"

text \<open>\<open>probe_N\<close>, run by the thread \<open>tid\<close>.\<close>

definition probe :: "data_model \<Rightarrow> 'k hook \<Rightarrow> int \<Rightarrow> nat \<Rightarrow> 'k \<times> mem \<Rightarrow> outcome \<times> 'k \<times> mem" where
  "probe dm hook tid slot w =
     (case w of (k, m) \<Rightarrow>
        if rd_pid dm Utid slot m \<noteq> 0
        then if rd_pid dm Utid slot m \<noteq> tid
             then (report_test_fail ''found wrong tid'', k, m)
             else hit_probe_fun dm hook slot (k, m)
        else hit_probe_fun dm hook slot (k, wr dm Utid (wrap_u 4 tid) slot m))"

text \<open>A probe point without a breakpoint.\<close>

definition no_hook :: "'k hook" where
  "no_hook slot w = (None, w)"

section \<open>The probe table\<close>

definition slot_addr :: "data_model \<Rightarrow> nat \<Rightarrow> nat \<Rightarrow> nat" where
  "slot_addr dm tbl j = tbl + j * sizeof_uinfo dm"

definition zero_bytes :: "nat \<Rightarrow> nat \<Rightarrow> mem \<Rightarrow> mem" where
  "zero_bytes a n m = (\<lambda>x. if a \<le> x \<and> x < a + n then 0 else m x)"

definition init_slot :: "data_model \<Rightarrow> nat \<Rightarrow> mem \<Rightarrow> mem" where
  "init_slot dm p m =
     wr dm Ktid 0 p (wr dm Utid 0 p (wr dm Ucount (ulong_max dm) p (wr dm Kcount (ulong_max dm) p m)))"

text \<open>\<open>BUILD_PROBE_TABLE\<close>, for the address \<open>tbl\<close> that \<open>calloc\<close> returned.\<close>

definition build_probe_table :: "data_model \<Rightarrow> nat \<Rightarrow> nat \<Rightarrow> mem \<Rightarrow> mem" where
  "build_probe_table dm tbl n m =
     fold (\<lambda>j. init_slot dm (slot_addr dm tbl j)) [0..<n] (zero_bytes tbl (n * sizeof_uinfo dm) m)"

lemma slot_addr_disjoint:
  "i < j \<Longrightarrow> slot_addr dm tbl i + sizeof_uinfo dm \<le> slot_addr dm tbl j"
proof -
  assume "i < j"
  then have "Suc i * sizeof_uinfo dm \<le> j * sizeof_uinfo dm" by (intro mult_le_mono1) simp
  then show ?thesis by (simp add: slot_addr_def algebra_simps)
qed

text \<open>A slot nobody has hit.\<close>

definition fresh_slot :: "data_model \<Rightarrow> nat \<Rightarrow> mem \<Rightarrow> bool" where
  "fresh_slot dm p m \<longleftrightarrow>
     rd dm Utid p m = 0 \<and> rd dm Ktid p m = 0
     \<and> rd dm Ucount p m = ulong_max dm \<and> rd dm Kcount p m = ulong_max dm"

lemma init_slot_fresh: "fresh_slot dm p (init_slot dm p m)"
  using ulong_max_less [of dm] by (simp add: fresh_slot_def init_slot_def)

lemma init_slot_outside: "x < p \<or> p + sizeof_uinfo dm \<le> x \<Longrightarrow> init_slot dm p m x = m x"
  by (simp add: init_slot_def wr_outside)

lemma fresh_slot_cong:
  "(\<And>x. p \<le> x \<Longrightarrow> x < p + sizeof_uinfo dm \<Longrightarrow> m x = m' x) \<Longrightarrow>
     fresh_slot dm p m = fresh_slot dm p m'"
  unfolding fresh_slot_def by (simp add: rd_cong [of p dm m m'])

lemma init_slots_fresh:
  "j < n \<Longrightarrow> fresh_slot dm (slot_addr dm tbl j)
     (fold (\<lambda>j. init_slot dm (slot_addr dm tbl j)) [0..<n] m)"
proof (induction n)
  case 0
  then show ?case by simp
next
  case (Suc n)
  let ?m = "fold (\<lambda>j. init_slot dm (slot_addr dm tbl j)) [0..<n] m"
  show ?case
  proof (cases "j = n")
    case True
    then show ?thesis by (simp add: init_slot_fresh)
  next
    case False
    with Suc.prems have j: "j < n" by simp
    have "fresh_slot dm (slot_addr dm tbl j) (init_slot dm (slot_addr dm tbl n) ?m)
        = fresh_slot dm (slot_addr dm tbl j) ?m"
      using slot_addr_disjoint [OF j, of dm tbl]
      by (intro fresh_slot_cong init_slot_outside) auto
    then show ?thesis using Suc.IH [OF j] by simp
  qed
qed

lemma build_probe_table_fresh:
  "j < n \<Longrightarrow> fresh_slot dm (slot_addr dm tbl j) (build_probe_table dm tbl n m)"
  unfolding build_probe_table_def by (rule init_slots_fresh)

lemma build_probe_table_outside:
  assumes "x < tbl \<or> tbl + n * sizeof_uinfo dm \<le> x"
  shows "build_probe_table dm tbl n m x = m x"
proof -
  have "x < tbl \<or> tbl + n * sizeof_uinfo dm \<le> x \<Longrightarrow>
     fold (\<lambda>j. init_slot dm (slot_addr dm tbl j)) [0..<n] m x = m x" for m
  proof (induction n)
    case 0
    then show ?case by simp
  next
    case (Suc n)
    then have "x < slot_addr dm tbl n \<or> slot_addr dm tbl n + sizeof_uinfo dm \<le> x"
      by (auto simp: slot_addr_def)
    then show ?case using Suc by (auto simp: init_slot_outside)
  qed
  then show ?thesis using assms by (auto simp: build_probe_table_def zero_bytes_def)
qed

lemma probe_fun_outside:
  "probe_fun dm p m = (r, m') \<Longrightarrow> x < p \<or> p + sizeof_uinfo dm \<le> x \<Longrightarrow> m' x = m x"
  by (auto simp: probe_fun_def Let_def wr_outside)

section \<open>Counting in step\<close>

text \<open>The value of both counters after \<open>c\<close> hits: they start at -1.\<close>

definition count_val :: "data_model \<Rightarrow> nat \<Rightarrow> nat" where
  "count_val dm c = (c + ulong_max dm) mod 256 ^ ulong_size dm"

definition slot_at :: "data_model \<Rightarrow> nat \<Rightarrow> int \<Rightarrow> nat \<Rightarrow> mem \<Rightarrow> bool" where
  "slot_at dm p tid c m \<longleftrightarrow>
     rd dm Ucount p m = count_val dm c \<and> rd dm Kcount p m = count_val dm c
     \<and> rd_pid dm Utid p m = (if c = 0 then 0 else tid)"

lemma count_val_0 [simp]: "count_val dm 0 = ulong_max dm"
  using ulong_max_less [of dm] by (simp add: count_val_def)

lemma count_val_Suc: "count_val dm (Suc c) = c mod 256 ^ ulong_size dm"
proof -
  have "Suc c + ulong_max dm = c + 256 ^ ulong_size dm"
    by (simp add: ulong_max_def)
  then show ?thesis unfolding count_val_def by (simp only: mod_add_self2)
qed

lemma count_val_less: "count_val dm c < 256 ^ ulong_size dm"
  by (simp add: count_val_def)

lemma count_val_mod [simp]: "count_val dm c mod 256 ^ ulong_size dm = count_val dm c"
  by (simp add: count_val_def)

lemma count_val_step: "(count_val dm c + 1) mod 256 ^ ulong_size dm = count_val dm (Suc c)"
  by (simp add: count_val_def mod_Suc_eq)

lemma int_bound_ulong: "2147483648 \<le> ulong_max dm"
  by (cases dm) (simp_all add: ulong_max_def)

lemma count_val_small: "c < 2147483648 \<Longrightarrow> count_val dm (Suc c) = c"
  using int_bound_ulong [of dm] ulong_max_less [of dm] by (simp add: count_val_Suc)

lemma count_val_max: "c \<le> 2147483648 \<Longrightarrow> count_val dm c = ulong_max dm \<longleftrightarrow> c = 0"
proof (cases c)
  case (Suc d)
  assume "c \<le> 2147483648"
  with Suc have "d < 2147483648" by simp
  with Suc show ?thesis using int_bound_ulong [of dm] by (simp add: count_val_small)
qed simp

lemma slot_at_cong:
  "(\<And>x. p \<le> x \<Longrightarrow> x < p + sizeof_uinfo dm \<Longrightarrow> m x = m' x) \<Longrightarrow>
     slot_at dm p tid c m = slot_at dm p tid c m'"
  unfolding slot_at_def rd_pid_def by (simp add: rd_cong [of p dm m m'])

lemma fresh_slot_at: "fresh_slot dm p m \<Longrightarrow> slot_at dm p tid 0 m"
  by (simp add: fresh_slot_def slot_at_def rd_pid_def c_int_id)

lemma pid_roundtrip: "0 < tid \<Longrightarrow> tid < 2147483648 \<Longrightarrow> c_int (int (wrap_u 4 tid mod 256 ^ 4)) = tid"
  using wrap_s_int_mod_256 [of 4 "wrap_u 4 tid"] wrap_s_wrap_u [of 4 tid] by (simp add: c_int_id)

text \<open>A schedule: the calls of \<open>probe_N\<close> that the threads of a process make, in the order in which
  they happen, each with its environment, the caller's thread id and the slot.\<close>

fun run_calls ::
  "data_model \<Rightarrow> ('e \<Rightarrow> 'k hook) \<Rightarrow> ('e \<times> int \<times> nat) list \<Rightarrow> 'k \<times> mem \<Rightarrow> outcome list \<times> 'k \<times> mem" where
  "run_calls dm hook [] w = ([], w)"
| "run_calls dm hook ((e, tid, p) # calls) w =
     (case probe dm (hook e) tid p w of
        (r, w) \<Rightarrow> (case run_calls dm hook calls w of (rs, w) \<Rightarrow> (r # rs, w)))"

text \<open>What the calls return when a slot's call number \<open>n\<close> returns \<open>ret n\<close>, from the counts \<open>c\<close> on.\<close>

fun expected :: "(nat \<Rightarrow> int) \<Rightarrow> (nat \<Rightarrow> nat) \<Rightarrow> ('e \<times> int \<times> nat) list \<Rightarrow> outcome list" where
  "expected ret c [] = []"
| "expected ret c ((e, tid, p) # calls) = Returned (ret (c p)) # expected ret (c(p := Suc (c p))) calls"

definition calls_of :: "nat \<Rightarrow> ('e \<times> int \<times> nat) list \<Rightarrow> nat" where
  "calls_of p calls = length (filter (\<lambda>(e, tid, q). q = p) calls)"

lemma expected_nth:
  "i < length calls \<Longrightarrow> calls ! i = (e, tid, p) \<Longrightarrow>
     expected ret c calls ! i = Returned (ret (c p + calls_of p (take i calls)))"
proof (induction calls arbitrary: c i)
  case Nil
  then show ?case by simp
next
  case (Cons x calls)
  obtain e' t' q where x: "x = (e', t', q)" by (cases x)
  show ?case
  proof (cases i)
    case 0
    with Cons.prems x show ?thesis by (simp add: calls_of_def)
  next
    case (Suc j)
    with Cons.prems x have "j < length calls" "calls ! j = (e, tid, p)" by simp_all
    from Cons.IH [OF this] Suc x show ?thesis
      by (simp add: calls_of_def)
  qed
qed

lemma expected_length [simp]: "length (expected ret c calls) = length calls"
  by (induction calls arbitrary: c) auto

lemma expected_counts:
  "expected int (\<lambda>_. 0) calls =
    map (\<lambda>i. Returned (int (calls_of (snd (snd (calls ! i))) (take i calls)))) [0..<length calls]"
proof (rule nth_equalityI)
  fix i assume "i < length (expected int (\<lambda>_. 0) calls)"
  then show "expected int (\<lambda>_. 0) calls ! i =
      map (\<lambda>i. Returned (int (calls_of (snd (snd (calls ! i))) (take i calls)))) [0..<length calls] ! i"
    using expected_nth [of i calls _ _ _ int "\<lambda>_. 0"] by (cases "calls ! i") auto
qed simp

text \<open>
  What a thread relies on when it calls \<open>probe_N\<close>, for one build and one kind of kernel support.
  \<open>good e p\<close> says that the environment \<open>e\<close> (the kernel, the thread's registers and stack)
  serves the slot at \<open>p\<close>; \<open>frame e\<close> are the addresses of the call frame, which the call itself
  writes; \<open>st p tid c m\<close> describes the slot after \<open>c\<close> calls and \<open>ret c\<close> is what the next
  call returns; \<open>ticks\<close> is a total of the kernel that grows by \<open>inc\<close> with each call.
\<close>

locale slot_protocol =
  fixes dm :: data_model
    and good :: "'e \<Rightarrow> nat \<Rightarrow> bool"
    and hook :: "'e \<Rightarrow> 'k hook"
    and frame :: "'e \<Rightarrow> nat \<Rightarrow> bool"
    and st :: "nat \<Rightarrow> int \<Rightarrow> nat \<Rightarrow> mem \<Rightarrow> bool"
    and ret :: "nat \<Rightarrow> int"
    and ticks :: "'k \<Rightarrow> nat"
    and inc :: nat
  assumes st_cong: "(\<And>x. p \<le> x \<Longrightarrow> x < p + sizeof_uinfo dm \<Longrightarrow> m x = m' x) \<Longrightarrow>
           st p tid c m = st p tid c m'"
    and st_fresh: "fresh_slot dm p m \<Longrightarrow> st p tid 0 m"
    and call_law: "good e p \<Longrightarrow> c < 2147483648 \<Longrightarrow> 0 < tid \<Longrightarrow> tid < 2147483648 \<Longrightarrow> st p tid c m \<Longrightarrow>
           \<exists>k' m'. probe dm (hook e) tid p (k, m) = (Returned (ret c), k', m')
             \<and> st p tid (Suc c) m'
             \<and> (\<forall>x. (x < p \<or> p + sizeof_uinfo dm \<le> x) \<longrightarrow> \<not> frame e x \<longrightarrow> m' x = m x)
             \<and> ticks k' = (ticks k + inc) mod 256 ^ ulong_size dm"
begin

text \<open>Every slot of \<open>S\<close> has counted \<open>c\<close> of its calls; the slots are apart.\<close>

definition slots_at :: "nat set \<Rightarrow> (nat \<Rightarrow> int) \<Rightarrow> (nat \<Rightarrow> nat) \<Rightarrow> mem \<Rightarrow> bool" where
  "slots_at S owner c m \<longleftrightarrow> (\<forall>p \<in> S. st p (owner p) (c p) m)"

definition apart :: "nat set \<Rightarrow> bool" where
  "apart S \<longleftrightarrow> (\<forall>p \<in> S. \<forall>q \<in> S. p \<noteq> q \<longrightarrow> p + sizeof_uinfo dm \<le> q \<or> q + sizeof_uinfo dm \<le> p)"

definition call_ok :: "nat set \<Rightarrow> (nat \<Rightarrow> int) \<Rightarrow> 'e \<times> int \<times> nat \<Rightarrow> bool" where
  "call_ok S owner = (\<lambda>(e, tid, p).
     p \<in> S \<and> good e p \<and> tid = owner p \<and> 0 < tid \<and> tid < 2147483648
     \<and> (\<forall>q \<in> S. \<forall>x. frame e x \<longrightarrow> x < q \<or> q + sizeof_uinfo dm \<le> x))"

lemma call_step:
  assumes "apart S" and "call_ok S owner (e, tid, p)" and "c p < 2147483648"
    and "slots_at S owner c m"
  shows "\<exists>k' m'. probe dm (hook e) tid p (k, m) = (Returned (ret (c p)), k', m')
    \<and> slots_at S owner (c(p := Suc (c p))) m' \<and> ticks k' = (ticks k + inc) mod 256 ^ ulong_size dm"
proof -
  have e: "p \<in> S" "good e p" "tid = owner p" "0 < tid" "tid < 2147483648"
    "\<forall>q \<in> S. \<forall>x. frame e x \<longrightarrow> x < q \<or> q + sizeof_uinfo dm \<le> x"
    using assms(2) by (auto simp: call_ok_def)
  have "st p tid (c p) m" using assms(4) e(1,3) by (simp add: slots_at_def)
  from call_law [OF e(2) assms(3) e(4,5) this, of k] obtain k' m' where
    h: "probe dm (hook e) tid p (k, m) = (Returned (ret (c p)), k', m')"
      "st p tid (Suc (c p)) m'"
      "\<forall>x. (x < p \<or> p + sizeof_uinfo dm \<le> x) \<longrightarrow> \<not> frame e x \<longrightarrow> m' x = m x"
      "ticks k' = (ticks k + inc) mod 256 ^ ulong_size dm" by blast
  have "st q (owner q) (c q) m'" if q: "q \<in> S" "q \<noteq> p" for q
  proof -
    have "p + sizeof_uinfo dm \<le> q \<or> q + sizeof_uinfo dm \<le> p"
      using assms(1) e(1) q unfolding apart_def by blast
    then have "m' x = m x" if x: "q \<le> x" "x < q + sizeof_uinfo dm" for x
    proof -
      have "\<not> frame e x" using e(6) q(1) x by fastforce
      moreover have "x < p \<or> p + sizeof_uinfo dm \<le> x"
        using x \<open>p + sizeof_uinfo dm \<le> q \<or> q + sizeof_uinfo dm \<le> p\<close> by auto
      ultimately show ?thesis using h(3) by blast
    qed
    then have "st q (owner q) (c q) m' = st q (owner q) (c q) m"
      by (rule st_cong)
    then show ?thesis using assms(4) q(1) by (simp add: slots_at_def)
  qed
  with h(2) e(3) have "slots_at S owner (c(p := Suc (c p))) m'"
    unfolding slots_at_def by simp
  with h(1,4) show ?thesis by blast
qed

lemma run_calls_count:
  assumes "apart S" and "\<forall>x \<in> set calls. call_ok S owner x"
    and "\<forall>p \<in> S. c p + length calls \<le> 2147483648" and "slots_at S owner c m"
  shows "\<exists>k' m'. run_calls dm hook calls (k, m) = (expected ret c calls, k', m')
    \<and> (ticks k < 256 ^ ulong_size dm \<longrightarrow>
         ticks k' = (ticks k + length calls * inc) mod 256 ^ ulong_size dm)"
  using assms(2-4)
proof (induction calls arbitrary: c k m)
  case Nil
  then show ?case by simp
next
  case (Cons x calls)
  obtain e tid p where x: "x = (e, tid, p)" by (cases x)
  have ok: "call_ok S owner (e, tid, p)" and p: "p \<in> S"
    using Cons.prems(1) x by (auto simp: call_ok_def)
  have "c p < 2147483648" using Cons.prems(2) p by fastforce
  from call_step [OF assms(1) ok this Cons.prems(3), of k] obtain k1 m1 where
    s: "probe dm (hook e) tid p (k, m) = (Returned (ret (c p)), k1, m1)"
      "slots_at S owner (c(p := Suc (c p))) m1" "ticks k1 = (ticks k + inc) mod 256 ^ ulong_size dm"
    by blast
  have "\<forall>q \<in> S. (c(p := Suc (c p))) q + length calls \<le> 2147483648"
    using Cons.prems(2) by auto
  moreover have "\<forall>x \<in> set calls. call_ok S owner x" using Cons.prems(1) by simp
  ultimately obtain k' m' where
    "run_calls dm hook calls (k1, m1) = (expected ret (c(p := Suc (c p))) calls, k', m')"
    "ticks k1 < 256 ^ ulong_size dm \<longrightarrow> ticks k' = (ticks k1 + length calls * inc) mod 256 ^ ulong_size dm"
    using Cons.IH [OF _ _ s(2), of k1] by metis
  with s x show ?case by (simp add: mod_add_left_eq mod_add_right_eq algebra_simps)
qed

end

text \<open>
  A kernel that keeps \<open>kcount\<close> in step: what a handler must do to the slot at a breakpoint. It gives
  the protocol in which every call returns the number of earlier ones.
\<close>

locale counting_hook =
  fixes dm :: data_model
    and good :: "'e \<Rightarrow> nat \<Rightarrow> bool"
    and hook :: "'e \<Rightarrow> 'k hook"
    and frame :: "'e \<Rightarrow> nat \<Rightarrow> bool"
    and ticks :: "'k \<Rightarrow> nat"
  assumes frame_apart: "good e p \<Longrightarrow> frame e x \<Longrightarrow> x < p \<or> p + sizeof_uinfo dm \<le> x"
    and hook_continues: "good e p \<Longrightarrow> hook e p (k, m) = (d, k', m') \<Longrightarrow> d = None"
    and hook_utid: "good e p \<Longrightarrow> hook e p (k, m) = (d, k', m') \<Longrightarrow> rd dm Utid p m' = rd dm Utid p m"
    and hook_kcount: "good e p \<Longrightarrow> hook e p (k, m) = (d, k', m') \<Longrightarrow>
           rd dm Kcount p m' = (rd dm Kcount p m + 1) mod 256 ^ ulong_size dm"
    and hook_ucount: "good e p \<Longrightarrow> hook e p (k, m) = (d, k', m') \<Longrightarrow>
           rd dm Ucount p m' =
             (if rd dm Kcount p m = ulong_max dm then ulong_max dm else rd dm Ucount p m)"
    and hook_outside: "good e p \<Longrightarrow> hook e p (k, m) = (d, k', m') \<Longrightarrow>
           x < p \<or> p + sizeof_uinfo dm \<le> x \<Longrightarrow> \<not> frame e x \<Longrightarrow> m' x = m x"
    and hook_ticks: "good e p \<Longrightarrow> hook e p (k, m) = (d, k', m') \<Longrightarrow>
           ticks k' = (ticks k + 1) mod 256 ^ ulong_size dm"
begin

lemma hit_counts:
  assumes "good e p" and "c < 2147483648"
    and "rd dm Ucount p m = count_val dm c" "rd dm Kcount p m = count_val dm c"
  shows "\<exists>k' m'. hit_probe_fun dm (hook e) p (k, m) = (Returned (int c), k', m')
    \<and> rd dm Ucount p m' = count_val dm (Suc c) \<and> rd dm Kcount p m' = count_val dm (Suc c)
    \<and> rd dm Utid p m' = rd dm Utid p m
    \<and> (\<forall>x. (x < p \<or> p + sizeof_uinfo dm \<le> x) \<longrightarrow> \<not> frame e x \<longrightarrow> m' x = m x)
    \<and> ticks k' = (ticks k + 1) mod 256 ^ ulong_size dm"
proof -
  obtain d k' m' where h: "hook e p (k, m) = (d, k', m')" by (cases "hook e p (k, m)") auto
  have d: "d = None" by (rule hook_continues [OF assms(1) h])
  have kc: "rd dm Kcount p m' = count_val dm (Suc c)"
    using hook_kcount [OF assms(1) h] assms(4) count_val_step [of dm c] by simp
  have uc: "rd dm Ucount p m' = count_val dm c"
    using hook_ucount [OF assms(1) h] assms(2-4) count_val_max [of c dm] by auto
  let ?m = "wr dm Ucount ((rd dm Ucount p m' + 1) mod 256 ^ ulong_size dm) p m'"
  have "rd dm Ucount p ?m = c" "rd dm Kcount p ?m = c"
    using kc uc count_val_step [of dm c] count_val_small [OF assms(2), of dm]
      count_val_less [of dm "Suc c"] by simp_all
  then have pf: "probe_fun dm p m' = (int c, ?m)"
    using assms(2) rd_less [of dm Kcount p m'] by (auto simp: probe_fun_def Let_def c_int_of_small)
  have "hit_probe_fun dm (hook e) p (k, m) = (Returned (int c), k', ?m)"
    using h d pf by (simp add: hit_probe_fun_def)
  moreover have "rd dm Ucount p ?m = count_val dm (Suc c)"
    using uc count_val_step [of dm c] count_val_less [of dm "Suc c"] by simp
  ultimately show ?thesis
    using kc hook_utid [OF assms(1) h] hook_outside [OF assms(1) h] hook_ticks [OF assms(1) h]
    by (simp add: wr_outside)
qed

lemma probe_counts:
  assumes "good e p" and "c < 2147483648" and "0 < tid" "tid < 2147483648"
    and "slot_at dm p tid c m"
  shows "\<exists>k' m'. probe dm (hook e) tid p (k, m) = (Returned (int c), k', m')
    \<and> slot_at dm p tid (Suc c) m'
    \<and> (\<forall>x. (x < p \<or> p + sizeof_uinfo dm \<le> x) \<longrightarrow> \<not> frame e x \<longrightarrow> m' x = m x)
    \<and> ticks k' = (ticks k + 1) mod 256 ^ ulong_size dm"
proof -
  let ?m = "if c = 0 then wr dm Utid (wrap_u 4 tid) p m else m"
  have u: "rd_pid dm Utid p ?m = tid"
    using assms(3-5) pid_roundtrip [of tid] by (auto simp: slot_at_def rd_pid_def)
  have p: "probe dm (hook e) tid p (k, m) = hit_probe_fun dm (hook e) p (k, ?m)"
    using assms(3,5) by (auto simp: probe_def slot_at_def)
  have "rd dm Ucount p ?m = count_val dm c" "rd dm Kcount p ?m = count_val dm c"
    using assms(5) by (auto simp: slot_at_def)
  from hit_counts [OF assms(1,2) this, of k]
  obtain k' m' where h: "hit_probe_fun dm (hook e) p (k, ?m) = (Returned (int c), k', m')"
    "rd dm Ucount p m' = count_val dm (Suc c)" "rd dm Kcount p m' = count_val dm (Suc c)"
    "rd dm Utid p m' = rd dm Utid p ?m"
    "\<forall>x. (x < p \<or> p + sizeof_uinfo dm \<le> x) \<longrightarrow> \<not> frame e x \<longrightarrow> m' x = ?m x"
    "ticks k' = (ticks k + 1) mod 256 ^ ulong_size dm"
    by blast
  have "slot_at dm p tid (Suc c) m'" using u h by (simp add: slot_at_def rd_pid_def)
  moreover have "\<forall>x. (x < p \<or> p + sizeof_uinfo dm \<le> x) \<longrightarrow> \<not> frame e x \<longrightarrow> m' x = m x"
    using h(5) by (simp add: wr_outside)
  ultimately show ?thesis using h(1,6) p by metis
qed

end

sublocale counting_hook \<subseteq> slot_protocol dm good hook frame "slot_at dm" int ticks 1
  by unfold_locales (rule slot_at_cong fresh_slot_at probe_counts, assumption?)+

end
