(* ===== verification/Probe_Handler.thy ===== *)
theory Probe_Handler
  imports Uprobes_Inode Probe_Slot
begin

text \<open>
  \<open>include/u_mod_common.h\<close>: the handler that a module attaches to every \<open>_probe_N\<close>. It finds the
  slot through the probed function's first argument and advances \<open>kcount\<close> in the memory of the
  process with \<open>put_user\<close> and \<open>get_user\<close>. Those two are services of the kernel: arguments of the
  model, with their documented behaviour on mapped memory as the hypothesis \<open>user_range\<close>. Code
  under \<open>#ifdef DEBUG\<close> is not compiled.
\<close>

section \<open>State\<close>

datatype arch = X86_64 | I386 | IA64 | PPC64 | S390 | S390X

fun arch_model :: "arch \<Rightarrow> data_model" where
  "arch_model X86_64 = LP64"
| "arch_model I386 = ILP32"
| "arch_model IA64 = LP64"
| "arch_model PPC64 = LP64"
| "arch_model S390 = ILP32"
| "arch_model S390X = LP64"

record pt_regs =
  reg_ip :: nat
  reg_sp :: nat
  reg_ax :: nat
  reg_bx :: nat
  reg_cx :: nat
  reg_dx :: nat
  reg_si :: nat
  reg_di :: nat
  reg_bp :: nat

text \<open>\<open>put_user\<close> and \<open>get_user\<close> for an object of the given size: their status, and the new memory or
  the value read.\<close>

record uaccess =
  ua_put :: "nat \<Rightarrow> nat \<Rightarrow> nat \<Rightarrow> mem \<Rightarrow> int \<times> mem"
  ua_get :: "nat \<Rightarrow> nat \<Rightarrow> mem \<Rightarrow> int \<times> nat"

text \<open>What the handlers of a consumer do: count, end the task, or write through a NULL pointer.\<close>

datatype consumer_handler = Counts | Exits_task | Faults

record pmod = kmod +
  num_probes :: nat
  consumers :: "int \<Rightarrow> consumer_handler option"

section \<open>Operations\<close>

fun get_first_arg :: "arch \<Rightarrow> pt_regs \<Rightarrow> mem \<Rightarrow> nat" where
  "get_first_arg X86_64 regs m = reg_di regs"
| "get_first_arg I386 regs m = load 4 ((reg_sp regs + 4) mod 256 ^ 4) m"
| "get_first_arg IA64 regs m = 0"
| "get_first_arg PPC64 regs m = 0"
| "get_first_arg S390 regs m = 0"
| "get_first_arg S390X regs m = 0"

definition printk_regs :: "kernel \<Rightarrow> pt_regs \<Rightarrow> 'a udbg_scheme \<Rightarrow> 'a udbg_scheme" where
  "printk_regs K regs s =
     (let s = pr K (''EIP: %08lx'' @ nl) [ArgX (int (reg_ip regs))] s;
          s = pr K (''ESP: %08lx'' @ nl) [ArgX (int (reg_sp regs))] s;
          s = pr K (''EAX: %08lx EBX: %08lx ECX: %08lx EDX: %08lx'' @ nl)
                [ArgX (int (reg_ax regs)), ArgX (int (reg_bx regs)),
                 ArgX (int (reg_cx regs)), ArgX (int (reg_dx regs))] s
      in pr K (''ESI: %08lx EDI: %08lx EBP: %08lx'' @ nl)
           [ArgX (int (reg_si regs)), ArgX (int (reg_di regs)), ArgX (int (reg_bp regs))] s)"

text \<open>\<open>EA = offsetof(struct uinfo, f) + (ulong) slot\<close>.\<close>

definition ea :: "data_model \<Rightarrow> uinfo_field \<Rightarrow> nat \<Rightarrow> nat" where
  "ea dm f slot = (offset_of dm f + slot) mod 256 ^ ulong_size dm"

text \<open>The three parts of \<open>probe_handler\<close>. Every access goes through a \<open>ulong *\<close>, so it transfers
  \<open>sizeof (ulong)\<close> bytes, whatever the type of the member.\<close>

definition save_ktid ::
  "data_model \<Rightarrow> kernel \<Rightarrow> uaccess \<Rightarrow> int \<Rightarrow> nat \<Rightarrow> 'a pmod_scheme \<times> mem \<Rightarrow> 'a pmod_scheme \<times> mem" where
  "save_ktid dm K ua pid slot w =
     (case w of (s, m) \<Rightarrow>
        (case ua_put ua (ulong_size dm) (ea dm Ktid slot) (wrap_u (ulong_size dm) pid) m of (e, m) \<Rightarrow>
           (if e \<noteq> 0 then pr K ('' put_user returned an error!'' @ nl) [] s else s, m)))"

definition check_utid ::
  "data_model \<Rightarrow> kernel \<Rightarrow> uaccess \<Rightarrow> int \<Rightarrow> nat \<Rightarrow> 'a pmod_scheme \<times> mem \<Rightarrow> 'a pmod_scheme \<times> mem" where
  "check_utid dm K ua pid slot w =
     (case w of (s, m) \<Rightarrow>
        (case ua_get ua (ulong_size dm) (ea dm Utid slot) m of (e, v) \<Rightarrow>
           let s = (if e \<noteq> 0 then pr K ('' get_user returned an error!'' @ nl) [] s else s);
               utid = c_int (int v);
               s = (if pid \<noteq> utid
                    then pr K (''kthread: utid=%d ktid=%d'' @ nl) [ArgD utid, ArgD pid]
                           (pr K ''kthread: ERROR ktid and utid don't match!! '' [] s)
                    else s)
           in (s, m)))"

definition bump_kcount ::
  "data_model \<Rightarrow> kernel \<Rightarrow> uaccess \<Rightarrow> nat \<Rightarrow> 'a pmod_scheme \<times> mem \<Rightarrow> 'a pmod_scheme \<times> mem" where
  "bump_kcount dm K ua slot w =
     (case w of (s, m) \<Rightarrow>
        (case ua_get ua (ulong_size dm) (ea dm Kcount slot) m of (e, kcount) \<Rightarrow>
           let s = (if e \<noteq> 0 then pr K ('' get_user returned an error!'' @ nl) [] s else s) in
           (case (if kcount = ulong_max dm
                  then (case ua_put ua (ulong_size dm) (ea dm Ucount slot) kcount m of (e, m) \<Rightarrow>
                          (if e \<noteq> 0 then pr K ('' put_user returned an error!'' @ nl) [] s else s, m))
                  else (s, m)) of (s, m) \<Rightarrow>
              let kcount = (kcount + 1) mod 256 ^ ulong_size dm in
              (case ua_put ua (ulong_size dm) (ea dm Kcount slot) kcount m of (e, m) \<Rightarrow>
                 (if e \<noteq> 0 then pr K ('' put_user returned an error!'' @ nl) [] s else s, m)))))"

definition probe_handler ::
  "arch \<Rightarrow> kernel \<Rightarrow> uaccess \<Rightarrow> int \<Rightarrow> pt_regs \<Rightarrow> 'a pmod_scheme \<times> mem \<Rightarrow> int \<times> 'a pmod_scheme \<times> mem" where
  "probe_handler a K ua pid regs w =
     (let dm = arch_model a;
          slot = get_first_arg a regs (snd w);
          w = save_ktid dm K ua pid slot w;
          w = check_utid dm K ua pid slot w;
          w = bump_kcount dm K ua slot w
      in (case w of (s, m) \<Rightarrow>
            (0, s\<lparr>num_probes := (num_probes s + 1) mod 256 ^ ulong_size dm\<rparr>, m)))"

text \<open>What one consumer does to the task that hit the probe: \<open>do_exit(SIGFPE)\<close> ends it, and so does
  the write to address 1, which the kernel answers with an oops.\<close>

abbreviation SIGKILL :: int where
  "SIGKILL \<equiv> 9"

definition run_consumer ::
  "arch \<Rightarrow> kernel \<Rightarrow> uaccess \<Rightarrow> int \<Rightarrow> pt_regs \<Rightarrow> consumer_handler \<Rightarrow> 'a pmod_scheme \<times> mem \<Rightarrow>
   int option \<times> 'a pmod_scheme \<times> mem" where
  "run_consumer a K ua pid regs h w =
     (case h of
        Counts \<Rightarrow> (None, snd (probe_handler a K ua pid regs w))
      | Exits_task \<Rightarrow> (Some SIGFPE, w)
      | Faults \<Rightarrow> (case w of (s, m) \<Rightarrow> (Some SIGKILL, s\<lparr>oopsed := True\<rparr>, m)))"

section \<open>The environment of a call\<close>

text \<open>The calling thread: its kernel, its user-access functions, its id, the address of the return
  address that the call of \<open>_probe_N\<close> pushes, that return address, and its other registers.\<close>

record thread_env =
  env_kernel :: kernel
  env_ua :: uaccess
  env_pid :: int
  env_sp :: nat
  env_ret :: nat
  env_regs :: pt_regs

text \<open>The call pushes the argument on the stack on i386, and passes it in \<open>%rdi\<close> on x86-64.\<close>

fun enter_call :: "arch \<Rightarrow> thread_env \<Rightarrow> nat \<Rightarrow> mem \<Rightarrow> pt_regs \<times> mem" where
  "enter_call I386 e p m =
     ((env_regs e)\<lparr>reg_sp := env_sp e\<rparr>,
      store 4 (env_sp e) (env_ret e) (store 4 (env_sp e + 4) p m))"
| "enter_call a e p m =
     ((env_regs e)\<lparr>reg_sp := env_sp e, reg_di := p\<rparr>, store 8 (env_sp e) (env_ret e) m)"

definition probe_hook :: "arch \<Rightarrow> consumer_handler \<Rightarrow> thread_env \<Rightarrow> 'a pmod_scheme hook" where
  "probe_hook a h e p w =
     (case w of (s, m) \<Rightarrow>
        (case enter_call a e p m of (regs, m) \<Rightarrow>
           run_consumer a (env_kernel e) (env_ua e) (env_pid e) regs h (s, m)))"

definition call_frame :: "thread_env \<Rightarrow> nat \<Rightarrow> bool" where
  "call_frame e x \<longleftrightarrow> env_sp e \<le> x \<and> x < env_sp e + 8"

text \<open>The \<open>n\<close> bytes at \<open>a\<close> are mapped and writable: the user-access functions succeed on them.\<close>

definition user_range :: "uaccess \<Rightarrow> nat \<Rightarrow> nat \<Rightarrow> bool" where
  "user_range ua a n \<longleftrightarrow>
     (\<forall>b k v m. a \<le> b \<longrightarrow> b + k \<le> a + n \<longrightarrow>
        ua_put ua k b v m = (0, store k b v m) \<and> ua_get ua k b m = (0, load k b m))"

definition flat_uaccess :: uaccess where
  "flat_uaccess = \<lparr>ua_put = (\<lambda>n a v m. (0, store n a v m)), ua_get = (\<lambda>n a m. (0, load n a m))\<rparr>"

lemma flat_uaccess_range: "user_range flat_uaccess a n"
  by (simp add: user_range_def flat_uaccess_def)

definition good_env :: "arch \<Rightarrow> thread_env \<Rightarrow> nat \<Rightarrow> bool" where
  "good_env a e p \<longleftrightarrow>
     user_range (env_ua e) p (sizeof_uinfo (arch_model a))
     \<and> p + sizeof_uinfo (arch_model a) \<le> 256 ^ ulong_size (arch_model a)
     \<and> env_sp e + 8 \<le> 256 ^ ulong_size (arch_model a)
     \<and> (env_sp e + 8 \<le> p \<or> p + sizeof_uinfo (arch_model a) \<le> env_sp e)
     \<and> 0 < env_pid e \<and> env_pid e < 2147483648"

section \<open>What the handler does to a mapped slot\<close>

lemma ea_mapped:
  "p + sizeof_uinfo dm \<le> 256 ^ ulong_size dm \<Longrightarrow> ea dm f p = p + offset_of dm f"
proof -
  assume p: "p + sizeof_uinfo dm \<le> 256 ^ ulong_size dm"
  have "0 < field_size dm f" by (cases dm; cases f) simp_all
  then have "p + offset_of dm f < 256 ^ ulong_size dm"
    using p field_in_slot [of dm f] by linarith
  then show ?thesis by (simp add: ea_def add.commute)
qed

lemma num_probes_pr [frame_simps]: "num_probes (pr K fmt args s) = num_probes (s :: 'a pmod_scheme)"
  by (simp add: test_printk_def split: prod.splits)

lemma user_range_put: "user_range ua a n \<Longrightarrow> a \<le> b \<Longrightarrow> b + k \<le> a + n \<Longrightarrow>
    ua_put ua k b v m = (0, store k b v m)"
  by (simp add: user_range_def)

lemma user_range_get: "user_range ua a n \<Longrightarrow> a \<le> b \<Longrightarrow> b + k \<le> a + n \<Longrightarrow>
    ua_get ua k b m = (0, load k b m)"
  by (simp add: user_range_def)

lemma check_utid_frame:
  "snd (check_utid dm K ua pid slot (s, m)) = m"
  "num_probes (fst (check_utid dm K ua pid slot (s, m))) = num_probes s"
  by (auto simp: check_utid_def Let_def frame_simps split: prod.splits)

lemma bump_kcount_mapped:
  assumes "user_range ua p (sizeof_uinfo dm)" and "p + sizeof_uinfo dm \<le> 256 ^ ulong_size dm"
  shows "bump_kcount dm K ua p (s, m) =
    (s, wr dm Kcount ((rd dm Kcount p m + 1) mod 256 ^ ulong_size dm) p
          (if rd dm Kcount p m = ulong_max dm then wr dm Ucount (ulong_max dm) p m else m))"
proof -
  have k: "8 + ulong_size dm + ulong_size dm \<le> sizeof_uinfo dm"
    using field_in_slot [of dm Kcount] by simp
  note put = user_range_put [OF assms(1), where k = "ulong_size dm"]
  note get = user_range_get [OF assms(1), where k = "ulong_size dm"]
  show ?thesis
    using k by (simp add: bump_kcount_def ea_mapped [OF assms(2)] put get rd_def wr_def Let_def)
qed

lemma save_ktid_mapped:
  assumes "user_range ua p (sizeof_uinfo dm)" and "p + sizeof_uinfo dm \<le> 256 ^ ulong_size dm"
  shows "save_ktid dm K ua pid p (s, m) =
    (s, store (ulong_size dm) (p + 4) (wrap_u (ulong_size dm) pid) m)"
proof -
  have k: "4 + ulong_size dm \<le> sizeof_uinfo dm"
    by (cases dm) simp_all
  show ?thesis
    using k by (simp add: save_ktid_def ea_mapped [OF assms(2)] user_range_put [OF assms(1)])
qed

text \<open>The memory after the handler.\<close>

definition handled :: "data_model \<Rightarrow> int \<Rightarrow> nat \<Rightarrow> mem \<Rightarrow> mem" where
  "handled dm pid p m =
     (let m = store (ulong_size dm) (p + 4) (wrap_u (ulong_size dm) pid) m
      in wr dm Kcount ((rd dm Kcount p m + 1) mod 256 ^ ulong_size dm) p
           (if rd dm Kcount p m = ulong_max dm then wr dm Ucount (ulong_max dm) p m else m))"

lemma probe_handler_mapped:
  assumes "user_range ua p (sizeof_uinfo (arch_model a))"
    and "p + sizeof_uinfo (arch_model a) \<le> 256 ^ ulong_size (arch_model a)"
    and "get_first_arg a regs m = p"
  shows "\<exists>s'. probe_handler a K ua pid regs (s, m) = (0, s', handled (arch_model a) pid p m)
    \<and> num_probes s' = (num_probes s + 1) mod 256 ^ ulong_size (arch_model a)"
proof -
  let ?dm = "arch_model a" and ?m = "store (ulong_size (arch_model a)) (p + 4)
    (wrap_u (ulong_size (arch_model a)) pid) m"
  obtain s1 where "check_utid ?dm K ua pid p (s, ?m) = (s1, ?m)" "num_probes s1 = num_probes s"
    using check_utid_frame [of ?dm K ua pid p s ?m] by (metis prod.collapse)
  then show ?thesis
    using assms(3)
    by (simp add: probe_handler_def save_ktid_mapped [OF assms(1,2)]
        bump_kcount_mapped [OF assms(1,2)] handled_def Let_def)
qed

lemma handled_outside: "x < p \<or> p + sizeof_uinfo dm \<le> x \<Longrightarrow> handled dm pid p m x = m x"
proof -
  assume x: "x < p \<or> p + sizeof_uinfo dm \<le> x"
  have "4 + ulong_size dm \<le> sizeof_uinfo dm" by (cases dm) simp_all
  then show ?thesis using x by (auto simp: handled_def Let_def wr_outside store_other)
qed

lemma handled_utid: "rd dm Utid p (handled dm pid p m) = rd dm Utid p m"
  by (simp add: handled_def Let_def) (simp add: rd_def load_store_disjoint)

lemma handled_kcount:
  "rd dm Kcount p (handled dm pid p m) = (rd dm Kcount p m + 1) mod 256 ^ ulong_size dm"
proof -
  have "rd dm Kcount p (store (ulong_size dm) (p + 4) v m) = rd dm Kcount p m" for v
    by (simp add: rd_def load_store_disjoint)
  then show ?thesis by (simp add: handled_def Let_def)
qed

lemma handled_ucount_ILP32:
  "rd ILP32 Ucount p (handled ILP32 pid p m) =
     (if rd ILP32 Kcount p m = ulong_max ILP32 then ulong_max ILP32 else rd ILP32 Ucount p m)"
proof -
  have "rd ILP32 f p (store 4 (p + 4) v m) = rd ILP32 f p m" if "f = Ucount \<or> f = Kcount" for f v
    using that by (auto simp: rd_def load_store_disjoint)
  then show ?thesis using ulong_max_less [of ILP32] by (simp add: handled_def Let_def)
qed

text \<open>In the 64-bit build the store of \<open>ktid\<close> also clears the low half of \<open>ucount\<close>.\<close>

lemma handled_ucount_LP64:
  assumes "0 < pid" "pid < 2147483648"
  shows "rd LP64 Ucount p (handled LP64 pid p m) =
     (if rd LP64 Kcount p m = ulong_max LP64 then ulong_max LP64
      else rd LP64 Ucount p m div 4294967296 * 4294967296)"
proof -
  have v: "wrap_u 8 pid div 4294967296 = 0"
    using assms by (simp add: wrap_u_def nat_less_iff)
  have "load 8 (p + 8) (store 8 (p + 4) (wrap_u 8 pid) m) = 4294967296 * load 4 (p + 12) m"
    using bytes.ld_st_spill [of 4 4 "p + 4" 4 "wrap_u 8 pid" m] v by (simp add: add.assoc)
  moreover have "load 8 (p + 8) m = load 4 (p + 8) m + 4294967296 * load 4 (p + 12) m"
    using bytes.ld_append [of 4 4 "p + 8" m] by (simp add: add.assoc)
  moreover have "load 4 (p + 8) m < 4294967296"
    using bytes.ld_less [of 4 "p + 8" m] by simp
  ultimately have "rd LP64 Ucount p (store 8 (p + 4) (wrap_u 8 pid) m) =
      rd LP64 Ucount p m div 4294967296 * 4294967296"
    by (simp add: rd_def)
  moreover have "rd LP64 Kcount p (store 8 (p + 4) (wrap_u 8 pid) m) = rd LP64 Kcount p m"
    by (simp add: rd_def load_store_disjoint)
  ultimately show ?thesis
    using ulong_max_less [of LP64] by (simp add: handled_def Let_def)
qed

lemma enter_call_frame:
  assumes "a = I386 \<or> a = X86_64" and "enter_call a e p m = (regs, m')" and "\<not> call_frame e x"
  shows "m' x = m x"
  using assms by (auto simp: call_frame_def store_other)

lemma enter_call_arg:
  assumes "a = I386 \<or> a = X86_64" and "good_env a e p" and "enter_call a e p m = (regs, m')"
  shows "get_first_arg a regs m' = p"
  using assms by (auto simp: good_env_def load_store_disjoint bytes.ld_st_same)

lemma probe_hook_counts:
  assumes "a = I386 \<or> a = X86_64" and "good_env a e p"
    and "probe_hook a Counts e p (s, m) = (d, s', m')"
  shows "d = None"
    and "\<exists>m0. (\<forall>x. \<not> call_frame e x \<longrightarrow> m0 x = m x) \<and> m' = handled (arch_model a) (env_pid e) p m0"
    and "num_probes s' = (num_probes s + 1) mod 256 ^ ulong_size (arch_model a)"
proof -
  obtain regs m0 where c: "enter_call a e p m = (regs, m0)" by fastforce
  have "user_range (env_ua e) p (sizeof_uinfo (arch_model a))"
    "p + sizeof_uinfo (arch_model a) \<le> 256 ^ ulong_size (arch_model a)"
    using assms(2) by (auto simp: good_env_def)
  from probe_handler_mapped [OF this enter_call_arg [OF assms(1,2) c], of "env_kernel e" "env_pid e" s]
  obtain s1 where h: "probe_handler a (env_kernel e) (env_ua e) (env_pid e) regs (s, m0) =
      (0, s1, handled (arch_model a) (env_pid e) p m0)"
    "num_probes s1 = (num_probes s + 1) mod 256 ^ ulong_size (arch_model a)" by blast
  then have r: "(d, s', m') = (None, s1, handled (arch_model a) (env_pid e) p m0)"
    using assms(3) c by (simp add: probe_hook_def run_consumer_def)
  show "d = None" using r by simp
  show "num_probes s' = (num_probes s + 1) mod 256 ^ ulong_size (arch_model a)"
    using r h(2) by simp
  show "\<exists>m0. (\<forall>x. \<not> call_frame e x \<longrightarrow> m0 x = m x) \<and> m' = handled (arch_model a) (env_pid e) p m0"
    using r enter_call_frame [OF assms(1) c] by blast
qed

lemma good_env_frame:
  "good_env a e p \<Longrightarrow> call_frame e x \<Longrightarrow> x < p \<or> p + sizeof_uinfo (arch_model a) \<le> x"
  by (auto simp: good_env_def call_frame_def)

section \<open>Properties\<close>

interpretation i386: counting_hook ILP32 "good_env I386" "probe_hook I386 Counts" call_frame num_probes
proof (unfold_locales, goal_cases)
  case (1 e p x)
  then show ?case using good_env_frame [of I386 e p x] by simp
next
  case (2 e p k m d k' m')
  then show ?case using probe_hook_counts(1) [of I386 e p k m] by blast
next
  case (3 e p k m d k' m')
  then obtain m0 where m0: "\<forall>x. \<not> call_frame e x \<longrightarrow> m0 x = m x" "m' = handled ILP32 (env_pid e) p m0"
    using probe_hook_counts(2) [of I386 e p k m] by auto
  have "rd ILP32 Utid p m0 = rd ILP32 Utid p m"
    using m0(1) good_env_frame [OF 3(1)] by (intro rd_cong) force
  then show ?case using m0(2) by (simp add: handled_utid)
next
  case (4 e p k m d k' m')
  then obtain m0 where m0: "\<forall>x. \<not> call_frame e x \<longrightarrow> m0 x = m x" "m' = handled ILP32 (env_pid e) p m0"
    using probe_hook_counts(2) [of I386 e p k m] by auto
  have "rd ILP32 Kcount p m0 = rd ILP32 Kcount p m"
    using m0(1) good_env_frame [OF 4(1)] by (intro rd_cong) force
  then show ?case using m0(2) by (simp add: handled_kcount)
next
  case (5 e p k m d k' m')
  then obtain m0 where m0: "\<forall>x. \<not> call_frame e x \<longrightarrow> m0 x = m x" "m' = handled ILP32 (env_pid e) p m0"
    using probe_hook_counts(2) [of I386 e p k m] by auto
  have "rd ILP32 f p m0 = rd ILP32 f p m" for f
    using m0(1) good_env_frame [OF 5(1)] by (intro rd_cong) force
  then show ?case using m0(2) by (simp add: handled_ucount_ILP32)
next
  case (6 e p k m d k' m' x)
  then obtain m0 where "\<forall>x. \<not> call_frame e x \<longrightarrow> m0 x = m x" "m' = handled ILP32 (env_pid e) p m0"
    using probe_hook_counts(2) [of I386 e p k m] by auto
  then show ?case using 6(3,4) by (simp add: handled_outside)
next
  case (7 e p k m d k' m')
  then show ?case using probe_hook_counts(3) [of I386 e p k m] by simp
qed

text \<open>The slots of \<open>S\<close> do not overlap; and a call that a schedule may contain.\<close>

definition slots_apart :: "data_model \<Rightarrow> nat set \<Rightarrow> bool" where
  "slots_apart dm S \<longleftrightarrow>
     (\<forall>p \<in> S. \<forall>q \<in> S. p \<noteq> q \<longrightarrow> p + sizeof_uinfo dm \<le> q \<or> q + sizeof_uinfo dm \<le> p)"

definition call_allowed ::
  "arch \<Rightarrow> nat set \<Rightarrow> (nat \<Rightarrow> int) \<Rightarrow> thread_env \<times> int \<times> nat \<Rightarrow> bool" where
  "call_allowed a S owner = (\<lambda>(e, tid, p).
     p \<in> S \<and> good_env a e p \<and> tid = owner p \<and> 0 < tid \<and> tid < 2147483648
     \<and> (\<forall>q \<in> S. \<forall>x. call_frame e x \<longrightarrow> x < q \<or> q + sizeof_uinfo (arch_model a) \<le> x))"

lemma i386_schedule:
  assumes "slots_apart ILP32 S" and "\<forall>x \<in> set calls. call_allowed I386 S owner x"
    and "length calls \<le> 2147483648" and "\<forall>p \<in> S. fresh_slot ILP32 p m" and "num_probes s < 2 ^ 32"
  shows "\<exists>s' m'. run_calls ILP32 (probe_hook I386 Counts) calls (s, m) = (expected int (\<lambda>_. 0) calls, s', m')
    \<and> num_probes s' = (num_probes s + length calls) mod 2 ^ 32"
proof -
  have "i386.apart S" using assms(1) by (simp add: i386.apart_def slots_apart_def)
  moreover have "\<forall>x \<in> set calls. i386.call_ok S owner x"
    using assms(2) by (simp add: i386.call_ok_def call_allowed_def)
  moreover have "i386.slots_at S owner (\<lambda>_. 0) m"
    using assms(4) by (simp add: i386.slots_at_def fresh_slot_at)
  ultimately show ?thesis
    using i386.run_calls_count [of S calls owner "\<lambda>_. 0" m s] assms(3,5) by auto
qed

text \<open>(C2) In the 32-bit build, whatever the order in which the threads run, every call of
  \<open>probe_N\<close> on a thread's own slot returns the number of earlier calls on that slot, so user and
  kernel agree on every call, and \<open>num_probes\<close> counts all of them.\<close>

theorem i386_every_interleaving_counts:
  assumes "slots_apart ILP32 S" and "\<forall>x \<in> set calls. call_allowed I386 S owner x"
    and "length calls \<le> 2147483648" and "\<forall>p \<in> S. fresh_slot ILP32 p m" and "num_probes s < 2 ^ 32"
    and "run_calls ILP32 (probe_hook I386 Counts) calls (s, m) = (rs, s', m')"
  shows "rs = map (\<lambda>i. Returned (int (calls_of (snd (snd (calls ! i))) (take i calls)))) [0..<length calls]
    \<and> num_probes s' = (num_probes s + length calls) mod 2 ^ 32"
  using i386_schedule [OF assms(1-5)] assms(6) by (auto simp: expected_counts)

text \<open>A sample thread and module state for closed examples.\<close>

definition sample_env :: "int \<Rightarrow> nat \<Rightarrow> thread_env" where
  "sample_env tid sp =
     \<lparr>env_kernel = granting_kernel, env_ua = flat_uaccess, env_pid = tid, env_sp = sp, env_ret = 77,
      env_regs = \<lparr>reg_ip = 0, reg_sp = 0, reg_ax = 0, reg_bx = 0, reg_cx = 0, reg_dx = 0, reg_si = 0,
                  reg_di = 0, reg_bp = 0\<rparr>\<rparr>"

definition pmod_zero :: pmod where
  "pmod_zero =
     \<lparr>klog = [], oopsed = False, dir = 0, data_file = 0, cleanup_file = 0, print_buf = 0,
      buf = \<lparr>bytes_in_buf = 0, bytes_left = 0, cur = 0, data = 0\<rparr>, heap = (\<lambda>_. CHR 0x00), entry = 0,
      kallsyms_task_user_regset_view = 0, kallsyms_uprobe_register = 0,
      kallsyms_uprobe_unregister = 0, kallsyms_uprobe_get_swbp_addr = 0,
      num_probes = 0, consumers = Map.empty\<rparr>"

lemma sample_env_good:
  "0 < tid \<Longrightarrow> tid < 2147483648 \<Longrightarrow> p + sizeof_uinfo (arch_model a) \<le> 256 ^ 4 \<Longrightarrow> sp + 8 \<le> 256 ^ 4 \<Longrightarrow>
   sp + 8 \<le> p \<or> p + sizeof_uinfo (arch_model a) \<le> sp \<Longrightarrow> good_env a (sample_env tid sp) p"
  by (cases "arch_model a") (simp_all add: good_env_def sample_env_def flat_uaccess_range)

theorem i386_every_interleaving_counts_witness:
  "fst (run_calls ILP32 (probe_hook I386 Counts)
      [(sample_env 501 4096, 501, 1000), (sample_env 502 8192, 502, 1020), (sample_env 501 4096, 501, 1000)]
      (pmod_zero, build_probe_table ILP32 1000 2 (\<lambda>_. 7)))
   = [Returned 0, Returned 0, Returned 1]"
proof -
  let ?calls = "[(sample_env 501 4096, 501, 1000), (sample_env 502 8192, 502, 1020),
    (sample_env 501 4096, 501, 1000)]"
  let ?m = "build_probe_table ILP32 1000 2 (\<lambda>_. 7)"
  let ?owner = "\<lambda>p. if p = 1000 then 501 else 502 :: int"
  have fresh: "\<forall>p \<in> {1000, 1020}. fresh_slot ILP32 p ?m"
    using build_probe_table_fresh [of 0 2 ILP32 1000] build_probe_table_fresh [of 1 2 ILP32 1000]
    by (simp add: slot_addr_def)
  have allowed: "\<forall>x \<in> set ?calls. call_allowed I386 {1000, 1020} ?owner x"
    by (auto simp: call_allowed_def intro!: sample_env_good)
      (auto simp: call_frame_def sample_env_def)
  obtain rs s' m' where r: "run_calls ILP32 (probe_hook I386 Counts) ?calls (pmod_zero, ?m) = (rs, s', m')"
    by (metis prod_cases3)
  have "rs = map (\<lambda>i. Returned (int (calls_of (snd (snd (?calls ! i))) (take i ?calls)))) [0..<length ?calls]"
    using i386_every_interleaving_counts [OF _ allowed _ fresh _ r]
    by (simp add: slots_apart_def pmod_zero_def)
  moreover have "[0..<length ?calls] = [0, 1, 2]" by (simp add: upt_rec)
  ultimately show ?thesis using r by (simp add: calls_of_def)
qed


section \<open>The 64-bit build\<close>

text \<open>The slot after \<open>c\<close> calls: every hit clears the low half of \<open>ucount\<close> before the user increments it.\<close>

definition lp64_slot :: "nat \<Rightarrow> int \<Rightarrow> nat \<Rightarrow> mem \<Rightarrow> bool" where
  "lp64_slot p tid c m \<longleftrightarrow>
     rd LP64 Kcount p m = count_val LP64 c
     \<and> rd LP64 Ucount p m = (if c = 0 then ulong_max LP64 else if c = 1 then 0 else 1)
     \<and> rd_pid LP64 Utid p m = (if c = 0 then 0 else tid)"

lemma lp64_hook:
  assumes "good_env X86_64 e p"
    and "probe_hook X86_64 Counts e p (s, m) = (d, s', m')"
  shows "d = None" "rd LP64 Utid p m' = rd LP64 Utid p m"
    "rd LP64 Kcount p m' = (rd LP64 Kcount p m + 1) mod 256 ^ 8"
    "rd LP64 Ucount p m' = (if rd LP64 Kcount p m = ulong_max LP64 then ulong_max LP64
      else rd LP64 Ucount p m div 4294967296 * 4294967296)"
    "x < p \<or> p + sizeof_uinfo LP64 \<le> x \<Longrightarrow> \<not> call_frame e x \<Longrightarrow> m' x = m x"
    "num_probes s' = (num_probes s + 1) mod 256 ^ 8"
proof -
  obtain m0 where m0: "\<forall>x. \<not> call_frame e x \<longrightarrow> m0 x = m x" "m' = handled LP64 (env_pid e) p m0"
    using probe_hook_counts(2) [OF _ assms] by auto
  show "x < p \<or> p + sizeof_uinfo LP64 \<le> x \<Longrightarrow> \<not> call_frame e x \<Longrightarrow> m' x = m x"
    using m0 handled_outside [of x p LP64] by simp
  show "num_probes s' = (num_probes s + 1) mod 256 ^ 8"
    using probe_hook_counts(3) [OF _ assms] by simp
  have pid: "0 < env_pid e" "env_pid e < 2147483648"
    using assms(1) by (auto simp: good_env_def)
  have same: "rd LP64 f p m0 = rd LP64 f p m" for f
    using m0(1) good_env_frame [OF assms(1)] by (intro rd_cong) force
  show "d = None" using probe_hook_counts(1) [OF _ assms] by simp
  show "rd LP64 Utid p m' = rd LP64 Utid p m" using m0(2) same by (simp add: handled_utid)
  show "rd LP64 Kcount p m' = (rd LP64 Kcount p m + 1) mod 256 ^ 8"
    using m0(2) same by (simp add: handled_kcount)
  show "rd LP64 Ucount p m' = (if rd LP64 Kcount p m = ulong_max LP64 then ulong_max LP64
      else rd LP64 Ucount p m div 4294967296 * 4294967296)"
    using m0(2) same handled_ucount_LP64 [OF pid, of p m0] by simp
qed

text \<open>What the call after \<open>c\<close> earlier ones returns.\<close>

definition lp64_ret :: "nat \<Rightarrow> int" where
  "lp64_ret c = (if c < 2 then int c else - 2)"

lemma lp64_call:
  assumes "good_env X86_64 e p" and "c < 2147483648" and "0 < tid" "tid < 2147483648"
    and "lp64_slot p tid c m"
  shows "\<exists>s' m'. probe LP64 (probe_hook X86_64 Counts e) tid p (s, m) = (Returned (lp64_ret c), s', m')
    \<and> lp64_slot p tid (Suc c) m'
    \<and> (\<forall>x. (x < p \<or> p + sizeof_uinfo LP64 \<le> x) \<longrightarrow> \<not> call_frame e x \<longrightarrow> m' x = m x)
    \<and> num_probes s' = (num_probes s + 1) mod 256 ^ ulong_size LP64"
proof -
  let ?m = "if c = 0 then wr LP64 Utid (wrap_u 4 tid) p m else m"
  have u: "rd_pid LP64 Utid p ?m = tid"
    using assms(3-5) pid_roundtrip [of tid] by (auto simp: lp64_slot_def rd_pid_def)
  have p: "probe LP64 (probe_hook X86_64 Counts e) tid p (s, m) =
      hit_probe_fun LP64 (probe_hook X86_64 Counts e) p (s, ?m)"
    using assms(3,5) by (auto simp: probe_def lp64_slot_def)
  have old: "rd LP64 Kcount p ?m = count_val LP64 c"
    "rd LP64 Ucount p ?m = (if c = 0 then ulong_max LP64 else if c = 1 then 0 else 1)"
    using assms(5) by (auto simp: lp64_slot_def)
  obtain d s' m' where h: "probe_hook X86_64 Counts e p (s, ?m) = (d, s', m')"
    by (metis prod_cases3)
  note hk = lp64_hook [OF assms(1) h]
  have kc: "rd LP64 Kcount p m' = c"
    using hk(3) old(1) count_val_step [of LP64 c] count_val_small [OF assms(2), of LP64] by simp
  have uc: "rd LP64 Ucount p m' = (if c = 0 then ulong_max LP64 else 0)"
    using hk(4) old count_val_max [of c LP64] assms(2) by (auto split: if_splits)
  let ?m' = "wr LP64 Ucount (if c = 0 then 0 else 1) p m'"
  have "(rd LP64 Ucount p m' + 1) mod 256 ^ 8 = (if c = 0 then 0 else 1)"
    using uc by (simp add: ulong_max_def)
  then have "probe_fun LP64 p m' = (lp64_ret c, ?m')"
    using kc assms(2) by (auto simp: probe_fun_def Let_def c_int_of_small ulong_max_def lp64_ret_def)
  then have r: "probe LP64 (probe_hook X86_64 Counts e) tid p (s, m) = (Returned (lp64_ret c), s', ?m')"
    using p h hk(1) by (simp add: hit_probe_fun_def)
  have "lp64_slot p tid (Suc c) ?m'"
    using kc u hk(2) count_val_small [OF assms(2), of LP64] by (simp add: lp64_slot_def rd_pid_def)
  moreover have "?m' x = m x" if "x < p \<or> p + sizeof_uinfo LP64 \<le> x" "\<not> call_frame e x" for x
  proof -
    have "?m' x = m' x" using that(1) by (rule wr_outside)
    also have "\<dots> = ?m x" using hk(5) that by blast
    also have "\<dots> = m x" using that(1) by (simp add: wr_outside)
    finally show ?thesis .
  qed
  moreover have "num_probes s' = (num_probes s + 1) mod 256 ^ ulong_size LP64" using hk(6) by simp
  ultimately show ?thesis using r by blast
qed

lemma lp64_slot_cong:
  "(\<And>x. p \<le> x \<Longrightarrow> x < p + sizeof_uinfo LP64 \<Longrightarrow> m x = m' x) \<Longrightarrow>
     lp64_slot p tid c m = lp64_slot p tid c m'"
proof -
  assume "\<And>x. p \<le> x \<Longrightarrow> x < p + sizeof_uinfo LP64 \<Longrightarrow> m x = m' x"
  then have "rd LP64 f p m = rd LP64 f p m'" for f by (rule rd_cong)
  then show ?thesis by (simp add: lp64_slot_def rd_pid_def)
qed

lemma lp64_slot_fresh: "fresh_slot LP64 p m \<Longrightarrow> lp64_slot p tid 0 m"
  by (simp add: fresh_slot_def lp64_slot_def rd_pid_def c_int_id)

interpretation x86_64: slot_protocol LP64 "good_env X86_64" "probe_hook X86_64 Counts" call_frame
  lp64_slot lp64_ret num_probes 1
  by unfold_locales (rule lp64_slot_cong lp64_slot_fresh lp64_call, assumption?)+

lemma x86_64_schedule:
  assumes "slots_apart LP64 S" and "\<forall>x \<in> set calls. call_allowed X86_64 S owner x"
    and "length calls \<le> 2147483648" and "\<forall>p \<in> S. fresh_slot LP64 p m"
  shows "\<exists>s' m'. run_calls LP64 (probe_hook X86_64 Counts) calls (s, m) =
    (expected lp64_ret (\<lambda>_. 0) calls, s', m')"
proof -
  have "x86_64.apart S" using assms(1) by (simp add: x86_64.apart_def slots_apart_def)
  moreover have "\<forall>x \<in> set calls. x86_64.call_ok S owner x"
    using assms(2) by (simp add: x86_64.call_ok_def call_allowed_def)
  moreover have "x86_64.slots_at S owner (\<lambda>_. 0) m"
    using assms(4) by (simp add: x86_64.slots_at_def lp64_slot_fresh)
  ultimately show ?thesis
    using x86_64.run_calls_count [of S calls owner "\<lambda>_. 0" m s] assms(3) by auto
qed

text \<open>(C9) In the 64-bit build \<open>put_user(ktid,(ulong *)EA)\<close> stores eight bytes at a four-byte
  member. Whatever the order in which the threads run, the first call of \<open>probe_N\<close> on a slot returns 0,
  the second 1, and every later one returns -2, "counts do not match", although the kernel counted
  every hit.\<close>

theorem x86_64_third_call_mismatches:
  assumes "slots_apart LP64 S" and "\<forall>x \<in> set calls. call_allowed X86_64 S owner x"
    and "length calls \<le> 2147483648" and "\<forall>p \<in> S. fresh_slot LP64 p m"
    and "run_calls LP64 (probe_hook X86_64 Counts) calls (s, m) = (rs, s', m')"
    and "i < length calls"
  shows "rs ! i = Returned (let c = calls_of (snd (snd (calls ! i))) (take i calls)
    in if c = 0 then 0 else if c = 1 then 1 else - 2)"
proof -
  have "rs = expected lp64_ret (\<lambda>_. 0) calls"
    using x86_64_schedule [OF assms(1-4), of s] assms(5) by auto
  then show ?thesis
    using expected_nth [OF assms(6), of _ _ _ lp64_ret "\<lambda>_. 0"]
    by (cases "calls ! i") (auto simp: lp64_ret_def Let_def)
qed

theorem x86_64_third_call_mismatches_witness:
  "fst (run_calls LP64 (probe_hook X86_64 Counts) (replicate 3 (sample_env 501 4096, 501, 1000))
      (pmod_zero, build_probe_table LP64 1000 1 (\<lambda>_. 7))) ! 2 = Returned (- 2)"
proof -
  let ?calls = "replicate 3 (sample_env 501 4096, 501 :: int, 1000 :: nat)"
  have fresh: "\<forall>p \<in> {1000}. fresh_slot LP64 p (build_probe_table LP64 1000 1 (\<lambda>_. 7))"
    using build_probe_table_fresh [of 0 1 LP64 1000] by (simp add: slot_addr_def)
  have allowed: "\<forall>x \<in> set ?calls. call_allowed X86_64 {1000} (\<lambda>_. 501) x"
    by (auto simp: call_allowed_def intro!: sample_env_good) (auto simp: call_frame_def sample_env_def)
  obtain rs s' m' where r: "run_calls LP64 (probe_hook X86_64 Counts) ?calls
      (pmod_zero, build_probe_table LP64 1000 1 (\<lambda>_. 7)) = (rs, s', m')"
    by (metis prod_cases3)
  have "rs ! 2 = Returned (let c = calls_of (snd (snd (?calls ! 2))) (take 2 ?calls)
      in if c = 0 then 0 else if c = 1 then 1 else - 2)"
    by (rule x86_64_third_call_mismatches [OF _ allowed _ fresh r]) (simp_all add: slots_apart_def)
  with r show ?thesis by (simp add: calls_of_def Let_def numeral_eq_Suc)
qed

text \<open>An unmapped page at NULL.\<close>

definition unmapped :: "uaccess \<Rightarrow> nat \<Rightarrow> bool" where
  "unmapped ua n \<longleftrightarrow>
     (\<forall>b k v m. b < n \<longrightarrow> fst (ua_put ua k b v m) \<noteq> 0 \<and> snd (ua_put ua k b v m) = m
        \<and> fst (ua_get ua k b m) \<noteq> 0 \<and> snd (ua_get ua k b m) = 0)"

definition null_page_uaccess :: uaccess where
  "null_page_uaccess =
     \<lparr>ua_put = (\<lambda>n a v m. if a < 4096 then (- 14, m) else (0, store n a v m)),
      ua_get = (\<lambda>n a m. if a < 4096 then (- 14, 0) else (0, load n a m))\<rparr>"

text \<open>On the architectures whose \<open>get_first_arg\<close> is a place holder, the handler counts the hit in
  \<open>num_probes\<close>, but no byte of the process changes: \<open>kcount\<close> is never advanced.\<close>

theorem place_holder_archs_never_count:
  assumes "a \<in> {IA64, PPC64, S390, S390X}" and "unmapped ua 4096"
    and "probe_handler a K ua pid regs (s, m) = (r, s', m')"
  shows "r = 0 \<and> m' = m
    \<and> num_probes s' = (num_probes s + 1) mod 256 ^ ulong_size (arch_model a)"
proof -
  have ea: "ea (arch_model a) f 0 < 4096" for f
  proof -
    have "offset_of (arch_model a) f \<le> 32"
      using field_in_slot [of "arch_model a" f] by (cases "arch_model a") auto
    moreover have "ea (arch_model a) f 0 \<le> offset_of (arch_model a) f" by (simp add: ea_def)
    ultimately show ?thesis by simp
  qed
  have arg: "get_first_arg a regs m = 0" for m using assms(1) by auto
  have un: "snd (ua_put ua k (ea (arch_model a) f 0) v m) = m"
    "snd (ua_get ua k (ea (arch_model a) f 0) m) = 0" for k f v m
    using assms(2) ea by (auto simp: unmapped_def)
  have save: "snd (save_ktid (arch_model a) K ua pid 0 (s, m)) = m"
    "num_probes (fst (save_ktid (arch_model a) K ua pid 0 (s, m))) = num_probes s" for s
    using un by (simp_all add: save_ktid_def frame_simps case_prod_unfold)
  have bump: "snd (bump_kcount (arch_model a) K ua 0 (s, m)) = m"
    "num_probes (fst (bump_kcount (arch_model a) K ua 0 (s, m))) = num_probes s" for s
    using un ulong_max_less [of "arch_model a"]
    by (simp_all add: bump_kcount_def frame_simps Let_def case_prod_unfold ulong_max_def)
  obtain s1 where s1: "save_ktid (arch_model a) K ua pid 0 (s, m) = (s1, m)"
    "num_probes s1 = num_probes s" using save [of s] by (metis prod.collapse)
  obtain s2 where s2: "check_utid (arch_model a) K ua pid 0 (s1, m) = (s2, m)"
    "num_probes s2 = num_probes s" using check_utid_frame [of "arch_model a" K ua pid 0 s1 m] s1(2)
    by (metis prod.collapse)
  obtain s3 where "bump_kcount (arch_model a) K ua 0 (s2, m) = (s3, m)"
    "num_probes s3 = num_probes s" using bump [of s2] s2(2) by (metis prod.collapse)
  with s1 s2 show ?thesis
    using assms(3) arg by (auto simp: probe_handler_def Let_def)
qed

theorem place_holder_archs_witness:
  "snd (snd (probe_handler PPC64 granting_kernel null_page_uaccess 501 (env_regs (sample_env 501 0))
      (pmod_zero, (\<lambda>_. 255)))) = (\<lambda>_. 255)"
proof -
  have "unmapped null_page_uaccess 4096" by (simp add: unmapped_def null_page_uaccess_def)
  moreover obtain r s' m' where "probe_handler PPC64 granting_kernel null_page_uaccess 501
      (env_regs (sample_env 501 0)) (pmod_zero, (\<lambda>_. 255)) = (r, s', m')"
    by (metis prod_cases3)
  ultimately show ?thesis
    using place_holder_archs_never_count [of PPC64] by fastforce
qed

end
