(* ===== verification/Probe_Module.thy ===== *)
theory Probe_Module
  imports Probe_Handler Symbols
begin

text \<open>
  The modules of \<open>uprobes.w\<close> that attach \<open>probe_handler\<close> to every symbol whose name starts with
  \<open>_probe\<close>: \<open>kthread.c\<close>, \<open>kfork_thread.c\<close>, \<open>kdie.c\<close>, \<open>kexec.c\<close>, \<open>kfork_and_defunc.c\<close>,
  \<open>ksuicide.c\<close>, \<open>ksuicide2.c\<close>. Each is its own pair \<open>init_module\<close>, \<open>cleanup_module\<close>
  and its \<open>child_exit\<close>, over the same state. The symbol table is generated from the probed
  program. \<open>printk\<close> goes to the system log only and is left out.
\<close>

section \<open>Loading\<close>

text \<open>The body of the \<open>for_each_glob\<close> loop: one consumer for the symbol \<open>found\<close>. The handler \<open>h\<close> is
  \<open>None\<close> where the module leaves the zeroed \<open>usp->handler\<close> as it is.\<close>

definition register_found ::
  "stapconf \<Rightarrow> kernel \<Rightarrow> symbol list \<Rightarrow> consumer_handler option \<Rightarrow> string \<Rightarrow> 'a pmod_scheme \<Rightarrow>
   int option \<times> 'a pmod_scheme" where
  "register_found cf K syms h found s =
     (case kapi K (Kzalloc (k_sizeof K ''uprobe_consumer'')) s of (usp, s) \<Rightarrow>
        if usp = 0 then (Some (- ENOMEM), u_dbfs_cleanup K s)
        else
          (case find_inode K syms found s of (inode, s) \<Rightarrow>
             let off = find_offset syms found;
                 s = s\<lparr>consumers := (consumers s)(usp := h)\<rparr>;
                 s = pr K (''Registering uprobe on inode %d, offset %#lx[%s]'' @ nl)
                       [ArgD (c_int inode), ArgX off, ArgS found] s
             in (case uprobe_register cf K inode off usp s of (ret, s) \<Rightarrow>
                   if ret \<noteq> 0 then (Some (- 1), u_dbfs_cleanup K s) else (None, s))))"

text \<open>What the seven \<open>init_module\<close> functions share: the two set-up calls and the loop, for the name of
  the debugfs directory. \<open>Some rc\<close> means that the function returned \<open>rc\<close>.\<close>

definition init_common ::
  "stapconf \<Rightarrow> kernel \<Rightarrow> symbol list \<Rightarrow> string \<Rightarrow> consumer_handler option \<Rightarrow> 'a pmod_scheme \<Rightarrow>
   int option \<times> 'a pmod_scheme" where
  "init_common cf K syms name h s =
     (case init_uprobe cf K (s\<lparr>num_probes := 0\<rparr>) of (r, s) \<Rightarrow>
        if r < 0 then (Some (- 1), s)
        else
          (case u_dbfs_init K name s of (r, s) \<Rightarrow>
             if r < 0 then (Some (- 1), s)
             else for_each_glob syms ''_probe'' (register_found cf K syms h) s))"

definition return_0 :: "int option \<times> 's \<Rightarrow> int \<times> 's" where
  "return_0 p = (case p of (Some rc, s) \<Rightarrow> (rc, s) | (None, s) \<Rightarrow> (0, s))"

definition kthread_init_module where
  "kthread_init_module cf K syms s = return_0 (init_common cf K syms ''kthread'' (Some Counts) s)"

definition kfork_thread_init_module where
  "kfork_thread_init_module cf K syms s =
     return_0 (init_common cf K syms ''kfork_thread'' (Some Counts) s)"

definition kdie_init_module where
  "kdie_init_module cf K syms s = return_0 (init_common cf K syms ''kdie'' (Some Counts) s)"

definition kexec_init_module where
  "kexec_init_module cf K syms s = return_0 (init_common cf K syms ''kexec'' (Some Counts) s)"

text \<open>\<open>kfork_and_defunc\<close> never sets \<open>usp->handler\<close>.\<close>

definition kfork_and_defunc_init_module where
  "kfork_and_defunc_init_module cf K syms s =
     return_0 (init_common cf K syms ''kfork_and_defunc'' None s)"

text \<open>The two suicide modules register a second consumer for \<open>_probe_9\<close>. The steps after the loop are
  those of its body.\<close>

definition register_suicide ::
  "stapconf \<Rightarrow> kernel \<Rightarrow> symbol list \<Rightarrow> consumer_handler \<Rightarrow> int option \<times> 'a pmod_scheme \<Rightarrow>
   int option \<times> 'a pmod_scheme" where
  "register_suicide cf K syms h p =
     (case p of
        (Some rc, s) \<Rightarrow> (Some rc, s)
      | (None, s) \<Rightarrow> register_found cf K syms (Some h) ''_probe_9'' s)"

definition ksuicide_init_module where
  "ksuicide_init_module cf K syms s =
     return_0 (register_suicide cf K syms Exits_task
       (init_common cf K syms ''ksuicide'' (Some Counts) s))"

definition ksuicide2_init_module where
  "ksuicide2_init_module cf K syms s =
     return_0 (register_suicide cf K syms Faults
       (init_common cf K syms ''ksuicide2'' (Some Counts) s))"

section \<open>Unloading, and the write to the cleanup file\<close>

text \<open>The seven \<open>cleanup_module\<close> functions differ in their \<open>printk\<close> only.\<close>

definition cleanup_module :: "kernel \<Rightarrow> 'a pmod_scheme \<Rightarrow> 'a pmod_scheme" where
  "cleanup_module K s = u_dbfs_cleanup K s"

definition kthread_child_exit :: "kernel \<Rightarrow> 'a pmod_scheme \<Rightarrow> 'a pmod_scheme" where
  "kthread_child_exit K s = pr K (''num_probes = %ld'' @ nl) [ArgD (wrap_s 64 (int (num_probes s)))] s"

text \<open>\<open>child_exit\<close> of the other five modules; \<open>kfork_thread\<close> prints like \<open>kthread\<close>.\<close>

definition child_exit :: "kernel \<Rightarrow> 'a pmod_scheme \<Rightarrow> 'a pmod_scheme" where
  "child_exit K s = pr K (''num_probes=%ld'' @ nl) [ArgD (wrap_s 64 (int (num_probes s)))] s"

section \<open>One registration\<close>

text \<open>A module that got through its two set-up calls.\<close>

definition ready :: "stapconf \<Rightarrow> 'a pmod_scheme \<Rightarrow> bool" where
  "ready cf s \<longleftrightarrow> pointers_ok cf s \<and> print_buf s \<noteq> 0 \<and> data (buf s) \<noteq> 0"

lemma pmod_frame [frame_simps]:
  "num_probes (kdo K c s) = num_probes s" "consumers (kdo K c s) = consumers s"
  "num_probes (pr K fmt args s) = num_probes s" "consumers (pr K fmt args s) = consumers s"
  by (simp_all add: kapi_def test_printk_def split: prod.splits)

lemma klog_update_frame:
  "ready cf (s\<lparr>klog := l\<rparr>) = ready cf s" "handles (s\<lparr>klog := l\<rparr>) = handles s"
  "oopsed (s\<lparr>klog := l\<rparr>) = oopsed s" "num_probes (s\<lparr>klog := l\<rparr>) = num_probes s"
  "consumers (s\<lparr>klog := l\<rparr>) = consumers s"
  by (simp_all add: ready_def pointers_ok_def handles_def)

lemma ready_frame [frame_simps]:
  "ready cf (kdo K c s) = ready cf s" "ready cf (pr K fmt args s) = ready cf s"
  "ready cf (s\<lparr>consumers := f\<rparr>) = ready cf s"
  by (simp_all add: ready_def frame_simps) (simp add: pointers_ok_def)

lemma handles_consumers [frame_simps]: "handles (t\<lparr>consumers := f\<rparr>) = handles t"
  by (simp add: handles_def)

lemma u_dbfs_cleanup_ready:
  "consumers (u_dbfs_cleanup K t) = consumers t"
  "ready cf t \<Longrightarrow> live_dentries (klog (u_dbfs_cleanup K t)) = live_dentries (klog t) - handles t"
  "ready cf t \<Longrightarrow> oopsed (u_dbfs_cleanup K t) = oopsed t"
  "live_probes (klog (u_dbfs_cleanup K t)) = live_probes (klog t)"
  "uprobe_regs (klog (u_dbfs_cleanup K t)) = uprobe_regs (klog t)"
  using only_neutral [OF u_dbfs_cleanup_only [of t K]]
  by (simp_all add: log_simps ready_def handles_def)
    (simp add: u_dbfs_cleanup_def clean_up_print_buffer_def kapi_def Let_def)

lemma ready_print_buf: "ready cf s \<Longrightarrow> print_buf s \<noteq> 0"
  by (simp add: ready_def)

lemma find_inode_same: "find_inode K syms name s = (i, s') \<Longrightarrow> s' = s\<lparr>klog := klog s'\<rparr>"
  by (induction K syms name s rule: find_inode.induct) (auto simp: kapi_def split: if_splits)

text \<open>What registering one symbol does when it works.\<close>

definition registered_one :: "symbol list \<Rightarrow> consumer_handler option \<Rightarrow> string \<Rightarrow>
    'a pmod_scheme \<Rightarrow> 'a pmod_scheme \<Rightarrow> bool" where
  "registered_one syms h n s s' \<longleftrightarrow>
     (\<exists>i u. u \<noteq> 0 \<and> uprobe_regs (klog s') = uprobe_regs (klog s) @ [(i, find_offset syms n, u)]
        \<and> live_probes (klog s') = insert (Inode_probe i (find_offset syms n) u) (live_probes (klog s))
        \<and> consumers s' = (consumers s)(u := h))
     \<and> num_probes s' = num_probes s \<and> oopsed s' = oopsed s \<and> handles s' = handles s
     \<and> live_dentries (klog s') = live_dentries (klog s)"


lemma register_found_cases:
  assumes "ready cf s" and "register_found cf K syms h n s = (rc, s')"
  shows "rc = None \<and> registered_one syms h n s s' \<and> ready cf s'
    \<or> (rc = Some (- ENOMEM) \<or> rc = Some (- 1))
      \<and> live_probes (klog s') = live_probes (klog s) \<and> uprobe_regs (klog s') = uprobe_regs (klog s)
      \<and> live_dentries (klog s') = live_dentries (klog s) - handles s \<and> oopsed s' = oopsed s
      \<and> (\<forall>v. consumers s v = h \<longrightarrow> consumers s' v = h)"
proof -
  obtain u s1 where k: "kapi K (Kzalloc (k_sizeof K ''uprobe_consumer'')) s = (u, s1)" by fastforce
  have s1_eq: "s1 = kdo K (Kzalloc (k_sizeof K ''uprobe_consumer'')) s" using k by simp
  have s1: "ready cf s1" "live_probes (klog s1) = live_probes (klog s)"
    "uprobe_regs (klog s1) = uprobe_regs (klog s)" "live_dentries (klog s1) = live_dentries (klog s)"
    "oopsed s1 = oopsed s" "handles s1 = handles s" "num_probes s1 = num_probes s"
    "consumers s1 = consumers s"
    using assms(1) by (simp_all add: s1_eq frame_simps kapi_log)
  show ?thesis
  proof (cases "u = 0")
    case True
    then have "rc = Some (- ENOMEM)" "s' = u_dbfs_cleanup K s1"
      using assms(2) k by (auto simp: register_found_def)
    then show ?thesis
      using s1 by (simp add: u_dbfs_cleanup_ready)
  next
    case u: False
    obtain i s2 where f: "find_inode K syms n s1 = (i, s2)" by fastforce
    note f' = only_neutral [OF find_inode_only [OF f]] find_inode_log [OF f]
    have more: "s2 = s1\<lparr>klog := klog s2\<rparr>" by (rule find_inode_same [OF f])
    define s3 where "s3 = pr K (''Registering uprobe on inode %d, offset %#lx[%s]'' @ nl)
      [ArgD (c_int i), ArgX (find_offset syms n), ArgS n] (s2\<lparr>consumers := (consumers s2)(u := h)\<rparr>)"
    have eq: "ready cf s2 = ready cf s1" "oopsed s2 = oopsed s1" "handles s2 = handles s1"
      "num_probes s2 = num_probes s1" "consumers s2 = consumers s1"
      using arg_cong [OF more, of "ready cf"] arg_cong [OF more, of oopsed]
        arg_cong [OF more, of handles] arg_cong [OF more, of num_probes]
        arg_cong [OF more, of consumers] by (simp_all add: klog_update_frame)
    have s3: "ready cf s3" "live_probes (klog s3) = live_probes (klog s)"
      "uprobe_regs (klog s3) = uprobe_regs (klog s)" "live_dentries (klog s3) = live_dentries (klog s)"
      "oopsed s3 = oopsed s" "handles s3 = handles s" "num_probes s3 = num_probes s"
      "consumers s3 = (consumers s)(u := h)"
      using s1 f'(1-5) eq ready_print_buf [of cf s2] by (simp_all add: s3_def frame_simps)
    obtain ret s4 where r: "kapi K (Uprobe_register i (find_offset syms n) u) s3 = (ret, s4)"
      by fastforce
    have reg: "uprobe_register cf K i (find_offset syms n) u s3 = (ret, s4)"
      using s3(1) r by (simp add: uprobe_register_live ready_def)
    have s4_eq: "s4 = kdo K (Uprobe_register i (find_offset syms n) u) s3"
      "ret = fst (kapi K (Uprobe_register i (find_offset syms n) u) s3)" using r by simp_all
    have s4: "ready cf s4" "live_dentries (klog s4) = live_dentries (klog s)"
      "oopsed s4 = oopsed s" "handles s4 = handles s" "num_probes s4 = num_probes s"
      "consumers s4 = (consumers s)(u := h)"
      "uprobe_regs (klog s4) = uprobe_regs (klog s) @ (if ret = 0 then [(i, find_offset syms n, u)] else [])"
      "live_probes (klog s4) = (if ret = 0 then insert (Inode_probe i (find_offset syms n) u)
         (live_probes (klog s)) else live_probes (klog s))"
      using s3 by (simp_all add: s4_eq frame_simps kapi_log)
    have res: "(rc, s') = (if ret \<noteq> 0 then (Some (- 1), u_dbfs_cleanup K s4) else (None, s4))"
      using assms(2) k u f reg by (simp add: register_found_def s3_def Let_def)
    show ?thesis
    proof (cases "ret = 0")
      case True
      with res s4 u show ?thesis by (auto simp: registered_one_def)
    next
      case False
      with res s4 show ?thesis by (auto simp: u_dbfs_cleanup_ready)
    qed
  qed
qed


section \<open>The loop, and loading\<close>

text \<open>Between two logs, exactly the probes at the offsets \<open>offs\<close> were registered, in that order; all are
  still live; their consumers have the handler \<open>h\<close>.\<close>

definition probes_added ::
  "consumer_handler option \<Rightarrow> (int \<Rightarrow> consumer_handler option) \<Rightarrow> int list \<Rightarrow>
   (kcall \<times> int) list \<Rightarrow> (kcall \<times> int) list \<Rightarrow> bool" where
  "probes_added h f offs l l' \<longleftrightarrow>
     (\<exists>xs. map (\<lambda>(i, off, u). off) xs = offs \<and> uprobe_regs l' = uprobe_regs l @ xs
        \<and> live_probes l' = live_probes l \<union> (\<lambda>(i, off, u). Inode_probe i off u) ` set xs
        \<and> (\<forall>(i, off, u) \<in> set xs. f u = h))"

lemma probes_added_Nil:
  "uprobe_regs l' = uprobe_regs l \<Longrightarrow> live_probes l' = live_probes l \<Longrightarrow> probes_added h f [] l l'"
  by (simp add: probes_added_def)

lemma probes_added_neutral:
  "only probe_neutral l0 l \<Longrightarrow> probes_added h f offs l l' \<Longrightarrow> probes_added h f offs l0 l'"
  by (simp add: probes_added_def only_neutral)

lemma probes_added_Cons:
  assumes "registered_one syms h n s t" and "probes_added h f offs (klog t) l'"
    and "\<And>u. consumers t u = h \<Longrightarrow> f u = h"
  shows "probes_added h f (find_offset syms n # offs) (klog s) l'"
proof -
  obtain i u where iu: "uprobe_regs (klog t) = uprobe_regs (klog s) @ [(i, find_offset syms n, u)]"
    "live_probes (klog t) = insert (Inode_probe i (find_offset syms n) u) (live_probes (klog s))"
    "consumers t u = h" using assms(1) by (auto simp: registered_one_def)
  obtain xs where "map (\<lambda>(i, off, u). off) xs = offs" "uprobe_regs l' = uprobe_regs (klog t) @ xs"
    "live_probes l' = live_probes (klog t) \<union> (\<lambda>(i, off, u). Inode_probe i off u) ` set xs"
    "\<forall>(i, off, u) \<in> set xs. f u = h" using assms(2) by (auto simp: probes_added_def)
  with iu assms(3) [of u] show ?thesis
    unfolding probes_added_def by (intro exI [of _ "(i, find_offset syms n, u) # xs"]) auto
qed

lemma each_register_found:
  assumes "ready cf s" and "each (register_found cf K syms h) ns s = (rc, s')"
  shows "\<exists>k \<le> length ns. probes_added h (consumers s') (map (find_offset syms) (take k ns)) (klog s) (klog s')
    \<and> oopsed s' = oopsed s \<and> (\<forall>v. consumers s v = h \<longrightarrow> consumers s' v = h)
    \<and> (if rc = None
        then k = length ns \<and> ready cf s' \<and> handles s' = handles s \<and> num_probes s' = num_probes s
          \<and> live_dentries (klog s') = live_dentries (klog s)
        else k < length ns \<and> (rc = Some (- ENOMEM) \<or> rc = Some (- 1))
          \<and> live_dentries (klog s') = live_dentries (klog s) - handles s)"
  using assms
proof (induction ns arbitrary: s)
  case Nil
  then show ?case by (auto intro: probes_added_Nil)
next
  case (Cons n ns)
  obtain rc1 t where t: "register_found cf K syms h n s = (rc1, t)" by fastforce
  show ?case
  proof (cases rc1)
    case (Some v)
    with Cons.prems t have "rc = rc1" "s' = t" by simp_all
    with register_found_cases [OF Cons.prems(1) t] Some show ?thesis
      by (intro exI [of _ 0]) (auto intro: probes_added_Nil)
  next
    case None
    with Cons.prems t have e: "each (register_found cf K syms h) ns t = (rc, s')" by simp
    have one: "registered_one syms h n s t" "ready cf t"
      using register_found_cases [OF Cons.prems(1) t] None by auto
    from Cons.IH [OF one(2) e] obtain k where k: "k \<le> length ns"
      "probes_added h (consumers s') (map (find_offset syms) (take k ns)) (klog t) (klog s')"
      "oopsed s' = oopsed t" "\<forall>v. consumers t v = h \<longrightarrow> consumers s' v = h"
      "if rc = None
        then k = length ns \<and> ready cf s' \<and> handles s' = handles t \<and> num_probes s' = num_probes t
          \<and> live_dentries (klog s') = live_dentries (klog t)
        else k < length ns \<and> (rc = Some (- ENOMEM) \<or> rc = Some (- 1))
          \<and> live_dentries (klog s') = live_dentries (klog t) - handles t" by blast
    have "probes_added h (consumers s') (map (find_offset syms) (take (Suc k) (n # ns))) (klog s) (klog s')"
      using probes_added_Cons [OF one(1) k(2)] k(4) by simp
    moreover have "\<forall>v. consumers s v = h \<longrightarrow> consumers s' v = h"
      using one(1) k(4) by (auto simp: registered_one_def)
    ultimately show ?thesis
      using one(1) k(1,3,5) by (intro exI [of _ "Suc k"]) (simp add: registered_one_def split: if_splits)
  qed
qed

lemma pmod_same_more:
  fixes s t :: "'a pmod_scheme"
  shows "kmod.more t = kmod.more s \<Longrightarrow> num_probes t = num_probes s"
    and "udbg.more t = udbg.more s \<Longrightarrow> num_probes t = num_probes s"
    and "udbg.more t = udbg.more s \<Longrightarrow> pointers_ok cf t = pointers_ok cf s"
  by (cases s, cases t, simp add: pointers_ok_def)+

lemma init_common_cases:
  assumes "init_common cf K syms name h s = (rc, s')" and "live_dentries (klog s) = {}"
  shows "\<exists>k \<le> length (globbed syms ''_probe'').
      probes_added h (consumers s') (map (find_offset syms) (take k (globbed syms ''_probe''))) (klog s) (klog s')
      \<and> (if rc = None
          then k = length (globbed syms ''_probe'') \<and> ready cf s' \<and> oopsed s' = oopsed s
            \<and> num_probes s' = 0 \<and> live_dentries (klog s') = handles s'
          else (rc = Some (- ENOMEM) \<or> rc = Some (- 1)) \<and> (0 < k \<longrightarrow> live_dentries (klog s') = {}))"
proof -
  obtain r1 s1 where s1: "init_uprobe cf K (s\<lparr>num_probes := 0\<rparr>) = (r1, s1)" by fastforce
  note f1 = init_uprobe_frame [OF s1]
  have n1: "num_probes s1 = 0" using pmod_same_more(1) [OF f1(5)] by simp
  show ?thesis
  proof (cases "r1 < 0")
    case True
    with assms(1) s1 have "rc = Some (- 1)" "s' = s1" by (auto simp: init_common_def)
    with f1(1) show ?thesis
      by (intro exI [of _ 0]) (auto simp: only_neutral intro: probes_added_Nil)
  next
    case False
    with init_uprobe_result [OF s1] have r1: "r1 = 0" by simp
    obtain r2 s2 where s2: "u_dbfs_init K name s1 = (r2, s2)" by fastforce
    note f2 = u_dbfs_init_only [OF s2]
    have r2: "r2 = 0 \<or> r2 = - 1" using u_dbfs_init_result [of K name s1] s2 by simp
    show ?thesis
    proof (cases "r2 < 0")
      case True
      with assms(1) s1 s2 r1 have "rc = Some (- 1)" "s' = s2" by (auto simp: init_common_def)
      with f1(1) f2(1) show ?thesis
        by (intro exI [of _ 0]) (auto simp: only_neutral intro: probes_added_Nil)
    next
      case False
      with r2 s2 have ok: "u_dbfs_init K name s1 = (0, s2)" by simp
      note i = u_dbfs_init_ok [OF ok]
      have more: "num_probes s2 = 0" "pointers_ok cf s2"
        using pmod_same_more(2,3) [OF f2(2)] n1 init_uprobe_pointers [of cf K "s\<lparr>num_probes := 0\<rparr>" s1] s1 r1
        by simp_all
      have rdy: "ready cf s2" using more(2) i(1,4) unfolding ready_def buf_ok_def by blast
      have h: "live_dentries (klog s2) = handles s2"
        using i(6) f1(2) assms(2) by (simp add: handles_def)
      have e: "each (register_found cf K syms h) (globbed syms ''_probe'') s2 = (rc, s')"
        using assms(1) s1 s2 r1 False by (simp add: init_common_def for_each_glob_globbed)
      have "only probe_neutral (klog s) (klog s2)"
        using f1(1) f2(1) by (auto intro: only_trans)
      moreover obtain k where k: "k \<le> length (globbed syms ''_probe'')"
        "probes_added h (consumers s') (map (find_offset syms) (take k (globbed syms ''_probe'')))
          (klog s2) (klog s')" "oopsed s' = oopsed s2"
        "if rc = None
          then k = length (globbed syms ''_probe'') \<and> ready cf s' \<and> handles s' = handles s2
            \<and> num_probes s' = num_probes s2 \<and> live_dentries (klog s') = live_dentries (klog s2)
          else k < length (globbed syms ''_probe'') \<and> (rc = Some (- ENOMEM) \<or> rc = Some (- 1))
            \<and> live_dentries (klog s') = live_dentries (klog s2) - handles s2"
        using each_register_found [OF rdy e] by blast
      ultimately have "probes_added h (consumers s')
          (map (find_offset syms) (take k (globbed syms ''_probe''))) (klog s) (klog s')"
        using probes_added_neutral by blast
      moreover have "oopsed s' = oopsed s" using k(3) i(7) f1(4) by simp
      ultimately show ?thesis
        using k(1,4) h more(1) by (intro exI [of _ k]) (simp split: if_splits)
    qed
  qed
qed

lemma init_common_success:
  assumes "return_0 (init_common cf K syms name h s) = (0, s')" and "live_dentries (klog s) = {}"
  shows "probes_added h (consumers s') (map (find_offset syms) (globbed syms ''_probe'')) (klog s) (klog s')"
    "ready cf s'" "oopsed s' = oopsed s" "num_probes s' = 0" "live_dentries (klog s') = handles s'"
proof -
  obtain rc t where i: "init_common cf K syms name h s = (rc, t)" by fastforce
  note c = init_common_cases [OF i assms(2)]
  have "rc = None" "t = s'"
    using c assms(1) i by (auto simp: return_0_def split: option.splits if_splits)
  with c show "probes_added h (consumers s') (map (find_offset syms) (globbed syms ''_probe'')) (klog s) (klog s')"
    "ready cf s'" "oopsed s' = oopsed s" "num_probes s' = 0" "live_dentries (klog s') = handles s'"
    by auto
qed

lemma init_common_failure:
  assumes "return_0 (init_common cf K syms name h s) = (r, s')" and "r \<noteq> 0"
    and "live_dentries (klog s) = {}"
  shows "r = - 1 \<or> r = - ENOMEM"
    and "\<exists>k \<le> length (globbed syms ''_probe'').
      probes_added h (consumers s') (map (find_offset syms) (take k (globbed syms ''_probe''))) (klog s) (klog s')
      \<and> (0 < k \<longrightarrow> live_dentries (klog s') = {})"
proof -
  obtain rc t where i: "init_common cf K syms name h s = (rc, t)" by fastforce
  note c = init_common_cases [OF i assms(3)]
  obtain e where e: "rc = Some e" "t = s'" "r = e"
    using assms(1,2) i by (auto simp: return_0_def split: option.splits)
  show "r = - 1 \<or> r = - ENOMEM" using c e by auto
  show "\<exists>k \<le> length (globbed syms ''_probe'').
      probes_added h (consumers s') (map (find_offset syms) (take k (globbed syms ''_probe''))) (klog s) (klog s')
      \<and> (0 < k \<longrightarrow> live_dentries (klog s') = {})" using c e by auto
qed

text \<open>A kernel that grants the calls of the set-up.\<close>

definition obliging :: "kernel \<Rightarrow> bool" where
  "obliging K \<longleftrightarrow>
     (\<forall>l. (\<forall>d. k_api K l (Debugfs_create_dir d) \<noteq> 0) \<and> (\<forall>n p f. k_api K l (Debugfs_create_file n p f) \<noteq> 0)
        \<and> (\<forall>n. k_api K l (Kmalloc n) \<noteq> 0) \<and> (\<forall>n. k_api K l (Kzalloc n) \<noteq> 0)
        \<and> (\<forall>n. k_api K l (Kallsyms_lookup_name n) \<noteq> 0))"

definition grants_registration :: "kernel \<Rightarrow> bool" where
  "grants_registration K \<longleftrightarrow> (\<forall>l i off u. k_api K l (Uprobe_register i off u) = 0)"

lemma granting_kernel_obliging: "obliging granting_kernel" "grants_registration granting_kernel"
  by (simp_all add: obliging_def grants_registration_def)

lemma register_found_rc:
  assumes "ready cf s" and "\<And>l n. k_api K l (Kzalloc n) \<noteq> 0"
    and "\<And>l i u. k_api K l (Uprobe_register i (find_offset syms n) u) = ret"
  shows "fst (register_found cf K syms h n s) = (if ret = 0 then None else Some (- 1))"
proof -
  obtain u s1 where k: "kapi K (Kzalloc (k_sizeof K ''uprobe_consumer'')) s = (u, s1)" by fastforce
  then have u: "u \<noteq> 0" and s1: "s1 = kdo K (Kzalloc (k_sizeof K ''uprobe_consumer'')) s"
    using assms(2) by (auto simp: kapi_def)
  obtain i s2 where f: "find_inode K syms n s1 = (i, s2)" by fastforce
  have "ready cf s2 = ready cf (s1\<lparr>klog := klog s2\<rparr>)"
    using arg_cong [OF find_inode_same [OF f], of "ready cf"] .
  then have "ready cf s2" using assms(1) s1 by (simp add: klog_update_frame frame_simps)
  then have reg: "uprobe_register cf K i off v (pr K fmt args (s2\<lparr>consumers := c\<rparr>)) =
      kapi K (Uprobe_register i off v) (pr K fmt args (s2\<lparr>consumers := c\<rparr>))" for off v fmt args c
    by (intro uprobe_register_live) (simp add: ready_def [symmetric] frame_simps, simp add: ready_def pointers_ok_def)
  have "fst (kapi K (Uprobe_register i (find_offset syms n) u) t) = ret" for t :: "'a pmod_scheme"
    using assms(3) by (simp add: kapi_def)
  then show ?thesis
    using u by (simp add: register_found_def k f reg Let_def case_prod_unfold)
qed

lemma each_register_found_grants:
  assumes "ready cf s" and "obliging K" and "grants_registration K"
  shows "fst (each (register_found cf K syms h) ns s) = None"
  using assms(1)
proof (induction ns arbitrary: s)
  case Nil
  then show ?case by simp
next
  case (Cons n ns)
  obtain rc t where t: "register_found cf K syms h n s = (rc, t)" by fastforce
  have "rc = None"
    using register_found_rc [OF Cons.prems, of K syms n 0 h] assms(2,3) t
    by (simp add: obliging_def grants_registration_def)
  moreover from this have "ready cf t" using register_found_cases [OF Cons.prems t] by auto
  ultimately show ?case using Cons.IH t by simp
qed

lemma setup_grants:
  assumes "obliging K"
  shows "fst (init_uprobe cf K s) = 0" and "fst (u_dbfs_init K name t) = 0"
proof -
  have k: "fst (kapi K (Kallsyms_lookup_name n) s) \<noteq> 0" for n and s :: "'c kst_scheme"
    using assms by (simp add: obliging_def kapi_def)
  have "fst (lookup_register cf K t)" "fst (lookup_unregister cf K t)" "fst (lookup_swbp_addr cf K t)"
    for t :: "'a kmod_scheme"
    by (simp_all add: lookup_register_def lookup_unregister_def lookup_swbp_addr_def case_prod_unfold k)
  then show "fst (init_uprobe cf K s) = 0" by (simp add: init_uprobe_def case_prod_unfold)
  have "fst (set_up_print_buffer K t) = 0" for t :: "'b udbg_scheme"
    using assms by (simp add: obliging_def set_up_print_buffer_def kapi_def Let_def)
  then show "fst (u_dbfs_init K name t) = 0"
    using assms by (simp add: obliging_def u_dbfs_init_def kapi_def Let_def case_prod_unfold)
qed

text \<open>What \<open>init_common\<close> is once the set-up worked.\<close>

lemma init_common_set_up:
  assumes "obliging K"
  obtains t where "ready cf t" "live_probes (klog t) = live_probes (klog s)"
    "init_common cf K syms name h s = each (register_found cf K syms h) (globbed syms ''_probe'') t"
proof -
  obtain s1 where s1: "init_uprobe cf K (s\<lparr>num_probes := 0\<rparr>) = (0, s1)"
    using setup_grants(1) [OF assms] by (metis prod.collapse)
  obtain s2 where s2: "u_dbfs_init K name s1 = (0, s2)"
    using setup_grants(2) [OF assms] by (metis prod.collapse)
  have "pointers_ok cf s2"
    using pmod_same_more(3) [OF u_dbfs_init_only(2) [OF s2]] init_uprobe_pointers [OF s1] by simp
  then have "ready cf s2"
    using u_dbfs_init_ok(1,4) [OF s2] unfolding ready_def buf_ok_def by blast
  moreover have "live_probes (klog s2) = live_probes (klog s)"
    using only_neutral(1) [OF init_uprobe_frame(1) [OF s1]] u_dbfs_init_ok(5) [OF s2] by simp
  moreover have "init_common cf K syms name h s =
      each (register_found cf K syms h) (globbed syms ''_probe'') s2"
    using s1 s2 by (simp add: init_common_def for_each_glob_globbed)
  ultimately show ?thesis by (rule that)
qed

lemma init_common_grants:
  assumes "obliging K" and "grants_registration K"
  shows "fst (init_common cf K syms name h s) = None"
  using init_common_set_up [OF assms(1)] each_register_found_grants [OF _ assms] by metis

lemma return_0_fst: "fst (return_0 p) = (case fst p of None \<Rightarrow> 0 | Some rc \<Rightarrow> rc)"
  by (simp add: return_0_def case_prod_unfold split: option.splits)

lemmas init_module_defs = kthread_init_module_def kfork_thread_init_module_def
  kdie_init_module_def kexec_init_module_def

section \<open>The life cycle of a module\<close>

text \<open>
  What an administrator relies on when modules are loaded and unloaded: a successful load, later
  unloaded, leaves no debugfs entry and no crash. The locale also counts the registrations a load makes
  and an unload leaves behind. \<open>insmod\<close> loads in the environment \<open>e\<close>.
\<close>

fun load_cycles :: "('e \<Rightarrow> 's \<Rightarrow> int \<times> 's) \<Rightarrow> ('e \<Rightarrow> 's \<Rightarrow> 's) \<Rightarrow> 'e list \<Rightarrow> 's \<Rightarrow> 's option" where
  "load_cycles insmod rmmod [] s = Some s"
| "load_cycles insmod rmmod (e # es) s =
     (case insmod e s of (r, t) \<Rightarrow> if r = 0 then load_cycles insmod rmmod es (rmmod e t) else None)"

locale debugfs_module =
  fixes insmod :: "'e \<Rightarrow> 's \<Rightarrow> int \<times> 's"
    and rmmod :: "'e \<Rightarrow> 's \<Rightarrow> 's"
    and entries :: "'s \<Rightarrow> int set"
    and crashed :: "'s \<Rightarrow> bool"
    and left :: "'s \<Rightarrow> nat"
    and leak :: "'e \<Rightarrow> nat"
  assumes cycle_entries: "insmod e s = (0, t) \<Longrightarrow> entries s = {} \<Longrightarrow> entries (rmmod e t) = {}"
    and cycle_crashed: "insmod e s = (0, t) \<Longrightarrow> entries s = {} \<Longrightarrow> \<not> crashed s \<Longrightarrow> \<not> crashed (rmmod e t)"
    and cycle_left: "insmod e s = (0, t) \<Longrightarrow> entries s = {} \<Longrightarrow> left (rmmod e t) = left s + leak e"
begin

lemma cycles_clean:
  "load_cycles insmod rmmod es s = Some s' \<Longrightarrow> entries s = {} \<Longrightarrow> \<not> crashed s \<Longrightarrow>
     entries s' = {} \<and> \<not> crashed s' \<and> left s' = left s + sum_list (map leak es)"
proof (induction es arbitrary: s)
  case Nil
  then show ?case by simp
next
  case (Cons e es)
  obtain t where t: "insmod e s = (0, t)" "load_cycles insmod rmmod es (rmmod e t) = Some s'"
    using Cons.prems(1) by (auto split: prod.splits if_splits)
  note law = cycle_entries [OF t(1) Cons.prems(2)] cycle_crashed [OF t(1) Cons.prems(2,3)]
    cycle_left [OF t(1) Cons.prems(2)]
  from Cons.IH [OF t(2) law(1,2)] law(3) show ?case by simp
qed

end

text \<open>Loading gives a module fresh static variables; the log and the crash flag belong to the machine.\<close>

definition fresh_pmod :: "pmod \<Rightarrow> pmod" where
  "fresh_pmod s = pmod_zero\<lparr>klog := klog s, oopsed := oopsed s\<rparr>"

text \<open>The modules that share \<open>init_common\<close>, by the name of their directory and their handler.\<close>

record load_env =
  le_cf :: stapconf
  le_kernel :: kernel
  le_syms :: "symbol list"
  le_name :: string
  le_handler :: "consumer_handler option"

definition insmod_common :: "load_env \<Rightarrow> pmod \<Rightarrow> int \<times> pmod" where
  "insmod_common e s =
     return_0 (init_common (le_cf e) (le_kernel e) (le_syms e) (le_name e) (le_handler e) (fresh_pmod s))"

lemma fresh_pmod_simps [simp]:
  "klog (fresh_pmod s) = klog s" "oopsed (fresh_pmod s) = oopsed s"
  by (simp_all add: fresh_pmod_def)

lemma probes_added_length:
  "probes_added h f offs l l' \<Longrightarrow> length (uprobe_regs l') = length (uprobe_regs l) + length offs"
  by (auto simp: probes_added_def)

interpretation uprobes_w: debugfs_module insmod_common "\<lambda>e. cleanup_module (le_kernel e)"
  "\<lambda>s. live_dentries (klog s)" oopsed "\<lambda>s. length (uprobe_regs (klog s))"
  "\<lambda>e. length (globbed (le_syms e) ''_probe'')"
proof (unfold_locales, goal_cases)
  case (1 e s t)
  then have "return_0 (init_common (le_cf e) (le_kernel e) (le_syms e) (le_name e) (le_handler e)
      (fresh_pmod s)) = (0, t)" "live_dentries (klog (fresh_pmod s)) = {}"
    by (simp_all add: insmod_common_def)
  from init_common_success [OF this] show ?case
    by (simp add: cleanup_module_def u_dbfs_cleanup_ready)
next
  case (2 e s t)
  then have "return_0 (init_common (le_cf e) (le_kernel e) (le_syms e) (le_name e) (le_handler e)
      (fresh_pmod s)) = (0, t)" "live_dentries (klog (fresh_pmod s)) = {}"
    by (simp_all add: insmod_common_def)
  from init_common_success [OF this] 2(3) show ?case
    by (simp add: cleanup_module_def u_dbfs_cleanup_ready)
next
  case (3 e s t)
  then have "return_0 (init_common (le_cf e) (le_kernel e) (le_syms e) (le_name e) (le_handler e)
      (fresh_pmod s)) = (0, t)" "live_dentries (klog (fresh_pmod s)) = {}"
    by (simp_all add: insmod_common_def)
  from probes_added_length [OF init_common_success(1) [OF this]] show ?case
    by (simp add: cleanup_module_def u_dbfs_cleanup_ready)
qed

section \<open>Properties\<close>

text \<open>(C10) A successful load of \<open>kthread\<close>, \<open>kfork_thread\<close>, \<open>kdie\<close> or \<open>kexec\<close> registers one
  probe for each symbol that starts with \<open>_probe\<close>, in table order and at the offset of that symbol,
  each with \<open>probe_handler\<close>; all of them are live, the count starts at 0 and nothing crashed.\<close>

theorem init_module_registers_all:
  assumes "init \<in> {kthread_init_module, kfork_thread_init_module, kdie_init_module, kexec_init_module}"
    and "init cf K syms s = (0, s')" and "live_dentries (klog s) = {}"
  shows "probes_added (Some Counts) (consumers s') (map (find_offset syms) (globbed syms ''_probe''))
      (klog s) (klog s') \<and> num_probes s' = 0 \<and> oopsed s' = oopsed s"
proof -
  obtain name where "return_0 (init_common cf K syms name (Some Counts) s) = (0, s')"
    using assms(1,2) by (auto simp: init_module_defs)
  from init_common_success [OF this assms(3)] show ?thesis by simp
qed

definition sample_syms :: "symbol list" where
  "sample_syms =
     [\<lparr>sym_path = ''/t'', sym_offset = 90, sym_name = ''_probe_0''\<rparr>,
      \<lparr>sym_path = ''/t'', sym_offset = 70, sym_name = ''main''\<rparr>,
      \<lparr>sym_path = ''/t'', sym_offset = 131, sym_name = ''_probe_9''\<rparr>]"

lemma globbed_sample: "globbed sample_syms ''_probe'' = [''_probe_0'', ''_probe_9'']"
  by (simp add: globbed_def glob_matches_def sample_syms_def strnlen_def)

lemma kthread_sample_loads:
  "fst (kthread_init_module all_exported granting_kernel sample_syms pmod_zero) = 0"
  by (simp add: kthread_init_module_def return_0_fst init_common_grants granting_kernel_obliging)

lemma pmod_zero_simps [simp]: "klog pmod_zero = []" "oopsed pmod_zero = False" "num_probes pmod_zero = 0"
  by (simp_all add: pmod_zero_def)

theorem init_module_registers_all_witness:
  "probes_added (Some Counts)
     (consumers (snd (kthread_init_module all_exported granting_kernel sample_syms pmod_zero))) [90, 131]
     [] (klog (snd (kthread_init_module all_exported granting_kernel sample_syms pmod_zero)))"
proof -
  let ?r = "kthread_init_module all_exported granting_kernel sample_syms pmod_zero"
  have "?r = (0, snd ?r)" using kthread_sample_loads by (simp add: prod_eq_iff)
  then have "probes_added (Some Counts) (consumers (snd ?r))
      (map (find_offset sample_syms) (globbed sample_syms ''_probe'')) (klog pmod_zero) (klog (snd ?r))"
    using init_module_registers_all [of kthread_init_module all_exported granting_kernel sample_syms pmod_zero]
    by simp
  then show ?thesis by (simp only: globbed_sample) (simp add: sample_syms_def)
qed


text \<open>(C15) A load that fails returns -1 or \<open>-ENOMEM\<close>. When some probes were registered before the failure,
  the debugfs directory is removed but those probes stay registered: no path out of
  \<open>init_module\<close> unregisters them, although the module that holds their handler is discarded.\<close>

theorem init_module_failure_leaks_probes:
  assumes "init \<in> {kthread_init_module, kfork_thread_init_module, kdie_init_module, kexec_init_module}"
    and "init cf K syms s = (r, s')" and "r \<noteq> 0" and "live_dentries (klog s) = {}"
  shows "r \<in> {- 1, - ENOMEM} \<and>
    (\<exists>k \<le> length (globbed syms ''_probe'').
      probes_added (Some Counts) (consumers s') (map (find_offset syms) (take k (globbed syms ''_probe'')))
        (klog s) (klog s')
      \<and> (0 < k \<longrightarrow> live_dentries (klog s') = {}))"
proof -
  obtain name where "return_0 (init_common cf K syms name (Some Counts) s) = (r, s')"
    using assms(1,2) by (auto simp: init_module_defs)
  from init_common_failure [OF this assms(3,4)] show ?thesis by simp
qed

definition second_refused :: kernel where
  "second_refused = sample_kernel (\<lambda>n c. case c of
     Uprobe_register i off u \<Rightarrow> if off = 131 then - 22 else 0 | _ \<Rightarrow> granted n c)"

lemma second_refused_api [simp]:
  "k_api second_refused l c =
     (case c of Uprobe_register i off u \<Rightarrow> if off = 131 then - 22 else 0 | _ \<Rightarrow> granted (length l) c)"
  by (simp add: second_refused_def)

theorem init_module_failure_leaks_probes_witness:
  "(let (r, s') = kdie_init_module all_exported second_refused sample_syms pmod_zero
    in r = - 1 \<and> live_dentries (klog s') = {} \<and> live_probes (klog s') \<noteq> {})"
proof -
  let ?r = "kdie_init_module all_exported second_refused sample_syms pmod_zero"
  let ?reg = "register_found all_exported second_refused sample_syms (Some Counts)"
  have K: "obliging second_refused" by (simp add: obliging_def)
  obtain t where t: "ready all_exported t" "init_common all_exported second_refused sample_syms ''kdie''
      (Some Counts) pmod_zero = each ?reg (globbed sample_syms ''_probe'') t"
    by (rule init_common_set_up [OF K]) blast
  obtain r1 t1 where t1: "?reg ''_probe_0'' t = (r1, t1)" by fastforce
  have r1: "r1 = None"
    using register_found_rc [OF t(1), of second_refused sample_syms "''_probe_0''" 0 "Some Counts"] t1
    by (simp add: sample_syms_def)
  have one: "registered_one sample_syms (Some Counts) ''_probe_0'' t t1" "ready all_exported t1"
    using register_found_cases [OF t(1) t1] r1 by auto
  obtain r2 t2 where t2: "?reg ''_probe_9'' t1 = (r2, t2)" by fastforce
  have r2: "r2 = Some (- 1)"
    using register_found_rc [OF one(2), of second_refused sample_syms "''_probe_9''" "- 22" "Some Counts"] t2
    by (simp add: sample_syms_def)
  have res: "?r = (- 1, t2)"
    using t(2) t1 t2 r1 r2 by (simp add: kdie_init_module_def return_0_def globbed_sample)
  have "live_probes (klog t2) = live_probes (klog t1)"
    using register_found_cases [OF one(2) t2] r2 by auto
  then have rc: "fst ?r = - 1" and live: "live_probes (klog (snd ?r)) \<noteq> {}"
    using res one(1) by (auto simp: registered_one_def)
  obtain k where k: "probes_added (Some Counts) (consumers (snd ?r))
      (map (find_offset sample_syms) (take k (globbed sample_syms ''_probe''))) [] (klog (snd ?r))"
    "0 < k \<longrightarrow> live_dentries (klog (snd ?r)) = {}"
    using init_module_failure_leaks_probes [of kdie_init_module all_exported second_refused sample_syms
        pmod_zero "- 1" "snd ?r"] rc by (auto simp: prod_eq_iff)
  have "0 < k" using k(1) live by (cases k) (auto simp: probes_added_def)
  with k(2) rc live show ?thesis by (simp add: case_prod_unfold)
qed



text \<open>\<open>kfork_and_defunc\<close> registers the same probes, but with consumers whose handler is NULL.\<close>

theorem kfork_and_defunc_has_no_handler:
  assumes "kfork_and_defunc_init_module cf K syms s = (0, s')" and "live_dentries (klog s) = {}"
  shows "probes_added None (consumers s') (map (find_offset syms) (globbed syms ''_probe''))
      (klog s) (klog s')"
  using init_common_success(1) [OF _ assms(2)] assms(1) by (simp add: kfork_and_defunc_init_module_def)

theorem kfork_and_defunc_has_no_handler_witness:
  "probes_added None
     (consumers (snd (kfork_and_defunc_init_module all_exported granting_kernel sample_syms pmod_zero)))
     (map (find_offset sample_syms) [''_probe_0'', ''_probe_9'']) []
     (klog (snd (kfork_and_defunc_init_module all_exported granting_kernel sample_syms pmod_zero)))"
proof -
  let ?r = "kfork_and_defunc_init_module all_exported granting_kernel sample_syms pmod_zero"
  have "fst ?r = 0"
    by (simp add: kfork_and_defunc_init_module_def return_0_fst init_common_grants granting_kernel_obliging)
  then have "?r = (0, snd ?r)" by (simp add: prod_eq_iff)
  from kfork_and_defunc_has_no_handler [OF this] show ?thesis by (simp add: globbed_sample)
qed

text \<open>The two suicide modules register the probes of all \<open>_probe\<close> symbols and then a second
  probe at the offset of \<open>_probe_9\<close>, whose consumer ends the task that hits it.\<close>

theorem suicide_modules_register_killer:
  assumes "(init, h) \<in> {(ksuicide_init_module, Exits_task), (ksuicide2_init_module, Faults)}"
    and "init cf K syms s = (0, s')" and "live_dentries (klog s) = {}"
  shows "\<exists>f l i u. probes_added (Some Counts) f (map (find_offset syms) (globbed syms ''_probe'')) (klog s) l
      \<and> uprobe_regs (klog s') = uprobe_regs l @ [(i, find_offset syms ''_probe_9'', u)]
      \<and> live_probes (klog s') = insert (Inode_probe i (find_offset syms ''_probe_9'') u) (live_probes l)
      \<and> consumers s' u = Some h"
proof -
  obtain name where name:
    "return_0 (register_suicide cf K syms h (init_common cf K syms name (Some Counts) s)) = (0, s')"
    using assms(1,2) by (auto simp: ksuicide_init_module_def ksuicide2_init_module_def)
  obtain rc t where i: "init_common cf K syms name (Some Counts) s = (rc, t)" by fastforce
  note r = name [unfolded i]
  note c = init_common_cases [OF i assms(3)]
  have rc: "rc = None" using c r by (auto simp: register_suicide_def return_0_def split: if_splits)
  with c have t: "probes_added (Some Counts) (consumers t) (map (find_offset syms) (globbed syms ''_probe''))
      (klog s) (klog t)" "ready cf t" by auto
  obtain rc2 u where u: "register_found cf K syms (Some h) ''_probe_9'' t = (rc2, u)" by fastforce
  have "rc2 = None" "u = s'"
    using r u rc register_found_cases [OF t(2) u]
    by (auto simp: register_suicide_def return_0_def)
  with register_found_cases [OF t(2) u]
  have "registered_one syms (Some h) ''_probe_9'' t s'" by simp
  then obtain i v where "uprobe_regs (klog s') = uprobe_regs (klog t) @ [(i, find_offset syms ''_probe_9'', v)]"
    "live_probes (klog s') = insert (Inode_probe i (find_offset syms ''_probe_9'') v) (live_probes (klog t))"
    "consumers s' v = Some h" by (auto simp: registered_one_def)
  with t(1) show ?thesis by blast
qed

theorem suicide_modules_register_killer_witness:
  "\<exists>u. consumers (snd (ksuicide_init_module all_exported granting_kernel sample_syms pmod_zero)) u =
     Some Exits_task"
proof -
  let ?r = "ksuicide_init_module all_exported granting_kernel sample_syms pmod_zero"
  obtain t where t: "init_common all_exported granting_kernel sample_syms ''ksuicide'' (Some Counts) pmod_zero
      = (None, t)"
    using init_common_grants [OF granting_kernel_obliging] by (metis prod.collapse)
  then have "ready all_exported t"
    using init_common_cases [OF t] by auto
  then have "fst (register_found all_exported granting_kernel sample_syms (Some Exits_task) ''_probe_9'' t) = None"
    using register_found_rc [of all_exported t granting_kernel sample_syms "''_probe_9''" 0] by simp
  then have "fst ?r = 0"
    using t by (simp add: ksuicide_init_module_def register_suicide_def return_0_fst)
  then have "?r = (0, snd ?r)" by (simp add: prod_eq_iff)
  then show ?thesis
    using suicide_modules_register_killer [of ksuicide_init_module Exits_task all_exported granting_kernel
        sample_syms pmod_zero "snd ?r"] by auto
qed

end
