(* ===== verification/Kunreg.thy ===== *)
theory Kunreg
  imports Probe_Module
begin

text \<open>
  \<open>uprobes.w/kunreg.c\<close>, built without \<open>UPROBES_REG_CALLBACK\<close>: it remembers what it registered in
  the array \<open>probes\<close> of \<open>MAX_PROBES\<close> entries, so that unloading can unregister it. \<open>Kunreg_Callback\<close>
  holds the other configuration, in which its functions run as handlers; for it the operations are stated
  for every extension of the state.
\<close>

section \<open>State and operations\<close>

abbreviation MAX_PROBES :: nat where
  "MAX_PROBES \<equiv> 100"

record kunreg = pmod +
  num_reg_probes :: nat
  reg_table :: "nat \<Rightarrow> int \<times> int \<times> int"

definition unregister_entry :: "stapconf \<Rightarrow> kernel \<Rightarrow> nat \<Rightarrow> 'a kunreg_scheme \<Rightarrow> 'a kunreg_scheme" where
  "unregister_entry cf K i s =
     (if i < MAX_PROBES
      then (case reg_table s i of (inode, off, usp) \<Rightarrow> uprobe_unregister cf K inode off usp s)
      else s\<lparr>oopsed := True\<rparr>)"

text \<open>The loop runs while \<open>i <= num_reg_probes\<close>.\<close>

definition unregister_all :: "stapconf \<Rightarrow> kernel \<Rightarrow> 'a kunreg_scheme \<Rightarrow> 'a kunreg_scheme" where
  "unregister_all cf K s = fold (unregister_entry cf K) [0..<num_reg_probes s + 1] s"

definition record_probe :: "kernel \<Rightarrow> int \<times> int \<times> int \<Rightarrow> 'a kunreg_scheme \<Rightarrow> 'a kunreg_scheme" where
  "record_probe K x s =
     (let s = pr K (''OK'' @ nl) [] s;
          s = (if num_reg_probes s < MAX_PROBES
               then s\<lparr>reg_table := (reg_table s)(num_reg_probes s := x)\<rparr>
               else s\<lparr>oopsed := True\<rparr>);
          s = s\<lparr>num_reg_probes := num_reg_probes s + 1\<rparr>
      in pr K (''Number of registerd probes = %d '' @ nl) [ArgD (int (num_reg_probes s))] s)"

definition register_one ::
  "stapconf \<Rightarrow> kernel \<Rightarrow> symbol list \<Rightarrow> string \<Rightarrow> 'a kunreg_scheme \<Rightarrow> int option \<times> 'a kunreg_scheme" where
  "register_one cf K syms found s =
     (case kapi K (Kzalloc (k_sizeof K ''uprobe_consumer'')) s of (usp, s) \<Rightarrow>
        if usp = 0 then (Some 0, pr K ''kzalloc() failed, returned NULL'' [] s)
        else
          (case find_inode K syms found s of (inode, s) \<Rightarrow>
             let off = find_offset syms found;
                 s = s\<lparr>consumers := (consumers s)(usp := Some Counts)\<rparr>;
                 s = pr K (''Registering uprobe on inode %d, offset %#lx[%s]'' @ nl)
                       [ArgD (c_int inode), ArgX off, ArgS found] s
             in (case uprobe_register cf K inode off usp s of (ret, s) \<Rightarrow>
                   if ret \<noteq> 0 \<and> ret \<noteq> - EINPROGRESS
                   then (Some 0, pr K (''register_uprobe() failed, returned %d'' @ nl) [ArgD ret] s)
                   else (None, record_probe K (inode, off, usp) s))))"

definition register_all :: "stapconf \<Rightarrow> kernel \<Rightarrow> symbol list \<Rightarrow> 'a kunreg_scheme \<Rightarrow> int \<times> 'a kunreg_scheme" where
  "register_all cf K syms s =
     return_0 (for_each_glob syms ''_probe'' (register_one cf K syms) (s\<lparr>num_reg_probes := 0\<rparr>))"

definition kunreg_init_module :: "stapconf \<Rightarrow> kernel \<Rightarrow> symbol list \<Rightarrow> 'a kunreg_scheme \<Rightarrow> int \<times> 'a kunreg_scheme" where
  "kunreg_init_module cf K syms s =
     (case init_uprobe cf K s of (r, s) \<Rightarrow>
        if r < 0 then (- 1, s)
        else
          (case u_dbfs_init K ''kunreg'' s of (r, s) \<Rightarrow>
             if r < 0 then (- 1, s)
             else (case register_all cf K syms s of (_, s) \<Rightarrow> (0, s))))"

definition kunreg_cleanup_module :: "stapconf \<Rightarrow> kernel \<Rightarrow> 'a kunreg_scheme \<Rightarrow> 'a kunreg_scheme" where
  "kunreg_cleanup_module cf K s = u_dbfs_cleanup K (unregister_all cf K s)"

section \<open>Unregistering\<close>

lemma kunreg_frame [frame_simps]:
  "num_reg_probes (kdo K c s) = num_reg_probes s" "reg_table (kdo K c s) = reg_table s"
  "num_reg_probes (pr K fmt args s) = num_reg_probes s" "reg_table (pr K fmt args s) = reg_table s"
  by (simp_all add: kapi_def test_printk_def split: prod.splits)

definition entry_call :: "'a kunreg_scheme \<Rightarrow> nat \<Rightarrow> kcall" where
  "entry_call s i = (case reg_table s i of (inode, off, usp) \<Rightarrow> Uprobe_unregister inode off usp)"

definition entry_reg :: "'a kunreg_scheme \<Rightarrow> nat \<Rightarrow> registration" where
  "entry_reg s i = (case reg_table s i of (inode, off, usp) \<Rightarrow> Inode_probe inode off usp)"

lemma unregister_entry_ready:
  "ready cf s \<Longrightarrow> i < MAX_PROBES \<Longrightarrow> unregister_entry cf K i s = kdo K (entry_call s i) s"
  by (auto simp: unregister_entry_def entry_call_def ready_def uprobe_unregister_live split: prod.splits)

lemma unregister_prefix:
  "ready cf s \<Longrightarrow> n \<le> MAX_PROBES \<Longrightarrow>
     (\<exists>es. klog (fold (unregister_entry cf K) [0..<n] s) = klog s @ es
        \<and> map fst es = map (entry_call s) [0..<n])
     \<and> live_probes (klog (fold (unregister_entry cf K) [0..<n] s))
       = live_probes (klog s) - entry_reg s ` {0..<n}
     \<and> ready cf (fold (unregister_entry cf K) [0..<n] s)
     \<and> reg_table (fold (unregister_entry cf K) [0..<n] s) = reg_table s
     \<and> num_reg_probes (fold (unregister_entry cf K) [0..<n] s) = num_reg_probes s
     \<and> oopsed (fold (unregister_entry cf K) [0..<n] s) = oopsed s
     \<and> handles (fold (unregister_entry cf K) [0..<n] s) = handles s"
proof (induction n)
  case 0
  then show ?case by simp
next
  case (Suc n)
  let ?t = "fold (unregister_entry cf K) [0..<n] s"
  from Suc have t: "ready cf ?t" "reg_table ?t = reg_table s" "num_reg_probes ?t = num_reg_probes s"
    "oopsed ?t = oopsed s" "handles ?t = handles s"
    "live_probes (klog ?t) = live_probes (klog s) - entry_reg s ` {0..<n}"
    and ex: "\<exists>es. klog ?t = klog s @ es \<and> map fst es = map (entry_call s) [0..<n]" by simp_all
  obtain es where es: "klog ?t = klog s @ es" "map fst es = map (entry_call s) [0..<n]" using ex by blast
  have call: "entry_call ?t n = entry_call s n" using t(2) by (simp add: entry_call_def)
  have step: "fold (unregister_entry cf K) [0..<Suc n] s = kdo K (entry_call s n) ?t"
    using unregister_entry_ready [OF t(1), of n K] Suc.prems(2) call by simp
  have log: "klog (kdo K (entry_call s n) ?t) =
      klog s @ (es @ [(entry_call s n, fst (kapi K (entry_call s n) ?t))])"
    using es(1) by (simp add: kapi_log)
  have live: "live_probes (klog (kdo K (entry_call s n) ?t)) =
      live_probes (klog s) - entry_reg s ` {0..<Suc n}"
    using t(6) by (auto simp: kapi_log entry_call_def entry_reg_def atLeast0_lessThan_Suc split: prod.splits)
  have "\<exists>es. klog (kdo K (entry_call s n) ?t) = klog s @ es \<and> map fst es = map (entry_call s) [0..<Suc n]"
    using log es(2) by (intro exI [of _ "es @ [(entry_call s n, fst (kapi K (entry_call s n) ?t))]"]) simp
  then show ?case
    unfolding step using live t by (simp add: frame_simps)
qed

section \<open>Registering\<close>

text \<open>Every probe that is live now was live before, in \<open>L\<close>, or is in the table.\<close>

definition covers :: "registration set \<Rightarrow> 'a kunreg_scheme \<Rightarrow> bool" where
  "covers L s \<longleftrightarrow> live_probes (klog s) \<subseteq> L \<union> entry_reg s ` {0..<num_reg_probes s}"

definition step_ok :: "stapconf \<Rightarrow> 'a kunreg_scheme \<Rightarrow> 'a kunreg_scheme \<Rightarrow> bool" where
  "step_ok cf s s' \<longleftrightarrow> ready cf s' \<and> handles s' = handles s
     \<and> live_dentries (klog s') = live_dentries (klog s) \<and> oopsed s' = oopsed s
     \<and> num_probes s' = num_probes s"

lemma step_ok_kdo: "ready cf s \<Longrightarrow> live_dentries (klog (kdo K c s)) = live_dentries (klog s) \<Longrightarrow>
    step_ok cf s (kdo K c s)"
  by (simp add: step_ok_def frame_simps)

lemma step_ok_pr: "ready cf s \<Longrightarrow> step_ok cf s (pr K fmt args s)"
  by (simp add: step_ok_def frame_simps ready_print_buf)

lemma step_ok_trans: "step_ok cf s t \<Longrightarrow> step_ok cf t u \<Longrightarrow> step_ok cf s u"
  by (simp add: step_ok_def)

lemma step_ok_ready: "step_ok cf s t \<Longrightarrow> ready cf t"
  by (simp add: step_ok_def)

lemma covers_pr: "covers L (pr K fmt args s) = covers L s"
  by (simp add: covers_def frame_simps entry_reg_def)

lemma covers_neutral:
  "reg_table t = reg_table s \<Longrightarrow> num_reg_probes t = num_reg_probes s \<Longrightarrow>
     live_probes (klog t) = live_probes (klog s) \<Longrightarrow> covers L t = covers L s"
  by (simp add: covers_def entry_reg_def)

lemma record_probe_ok:
  assumes "ready cf s" and "num_reg_probes s < MAX_PROBES"
    and "live_probes (klog s) \<subseteq> insert (Inode_probe i off u) (L \<union> entry_reg s ` {0..<num_reg_probes s})"
  shows "step_ok cf s (record_probe K (i, off, u) s)" "covers L (record_probe K (i, off, u) s)"
    "num_reg_probes (record_probe K (i, off, u) s) = num_reg_probes s + 1"
proof -
  define t where "t = (pr K (''OK'' @ nl) [] s)
    \<lparr>reg_table := (reg_table s)(num_reg_probes s := (i, off, u)), num_reg_probes := num_reg_probes s + 1\<rparr>"
  have r: "record_probe K (i, off, u) s =
      pr K (''Number of registerd probes = %d '' @ nl) [ArgD (int (num_reg_probes t))] t"
    using assms(2) by (simp add: record_probe_def Let_def t_def frame_simps)
  have t: "step_ok cf s t"
    using step_ok_pr [OF assms(1), of K "''OK'' @ nl" "[]"]
    by (simp add: t_def step_ok_def ready_def handles_def pointers_ok_def)
  then show "step_ok cf s (record_probe K (i, off, u) s)"
    unfolding r using step_ok_pr step_ok_ready step_ok_trans by blast
  show "num_reg_probes (record_probe K (i, off, u) s) = num_reg_probes s + 1"
    unfolding r by (simp add: frame_simps) (simp add: t_def)
  have "entry_reg s ` {0..<num_reg_probes s} \<subseteq> entry_reg t ` {0..<num_reg_probes t}"
  proof
    fix x assume "x \<in> entry_reg s ` {0..<num_reg_probes s}"
    then obtain j where j: "j < num_reg_probes s" "x = entry_reg s j" by auto
    then have "x = entry_reg t j" "j < num_reg_probes t" by (simp_all add: t_def entry_reg_def)
    then show "x \<in> entry_reg t ` {0..<num_reg_probes t}" by simp
  qed
  moreover have "Inode_probe i off u = entry_reg t (num_reg_probes s)"
    by (simp add: t_def entry_reg_def)
  then have "Inode_probe i off u \<in> entry_reg t ` {0..<num_reg_probes t}"
    by (simp add: t_def)
  moreover have "live_probes (klog t) = live_probes (klog s)" by (simp add: t_def frame_simps)
  ultimately show "covers L (record_probe K (i, off, u) s)"
    unfolding r covers_pr using assms(3) unfolding covers_def by blast
qed

lemma register_one_step:
  assumes "ready cf s" and "register_one cf K syms n s = (rc, s')" and "covers L s"
    and "num_reg_probes s < MAX_PROBES"
  shows "step_ok cf s s' \<and> covers L s' \<and> (rc = None \<and> num_reg_probes s' = num_reg_probes s + 1
    \<or> rc = Some 0 \<and> num_reg_probes s' = num_reg_probes s)"
proof -
  define s1 where "s1 = kdo K (Kzalloc (k_sizeof K ''uprobe_consumer'')) s"
  define u where "u = fst (kapi K (Kzalloc (k_sizeof K ''uprobe_consumer'')) s)"
  have s1: "step_ok cf s s1" "covers L s1" "num_reg_probes s1 = num_reg_probes s"
    "reg_table s1 = reg_table s" "live_probes (klog s1) = live_probes (klog s)"
    using assms(1,3) covers_neutral [of s1 s L] step_ok_kdo [OF assms(1)]
    by (simp_all add: s1_def kapi_log frame_simps)
  have k: "kapi K (Kzalloc (k_sizeof K ''uprobe_consumer'')) s = (u, s1)"
    by (simp add: u_def s1_def)
  show ?thesis
  proof (cases "u = 0")
    case True
    then have "rc = Some 0" "s' = pr K ''kzalloc() failed, returned NULL'' [] s1"
      using assms(2) k by (auto simp: register_one_def)
    then show ?thesis
      using s1(1-3) step_ok_trans [OF s1(1) step_ok_pr [OF step_ok_ready [OF s1(1)]]]
      by (simp add: covers_pr frame_simps)
  next
    case u: False
    obtain i s2 where f: "find_inode K syms n s1 = (i, s2)" by fastforce
    let ?off = "find_offset syms n"
    define s3 where "s3 = pr K (''Registering uprobe on inode %d, offset %#lx[%s]'' @ nl)
      [ArgD (c_int i), ArgX ?off, ArgS n] (s2\<lparr>consumers := (consumers s2)(u := Some Counts)\<rparr>)"
    note same = find_inode_same [OF f]
    have s2: "ready cf s2 = ready cf s1" "handles s2 = handles s1" "oopsed s2 = oopsed s1"
      "num_probes s2 = num_probes s1" "reg_table s2 = reg_table s1" "num_reg_probes s2 = num_reg_probes s1"
      using arg_cong [OF same, of "ready cf"] arg_cong [OF same, of handles] arg_cong [OF same, of oopsed]
        arg_cong [OF same, of num_probes] arg_cong [OF same, of reg_table] arg_cong [OF same, of num_reg_probes]
      by (simp_all add: klog_update_frame)
    have "ready cf s2" using s2(1) s1(1) by (simp add: step_ok_def)
    then have s3: "step_ok cf s1 s3" "reg_table s3 = reg_table s" "num_reg_probes s3 = num_reg_probes s"
      "live_probes (klog s3) = live_probes (klog s)"
      using s2 s1 find_inode_log(1,2) [OF f] ready_print_buf [of cf s2]
      by (simp_all add: s3_def step_ok_def frame_simps)
    have rdy3: "ready cf s3" using s3(1) by (rule step_ok_ready)
    define s4 where "s4 = kdo K (Uprobe_register i ?off u) s3"
    define ret where "ret = fst (kapi K (Uprobe_register i ?off u) s3)"
    have reg: "uprobe_register cf K i ?off u s3 = (ret, s4)"
      using rdy3 by (simp add: uprobe_register_live ready_def s4_def ret_def)
    have s4: "step_ok cf s3 s4" "reg_table s4 = reg_table s" "num_reg_probes s4 = num_reg_probes s"
      "live_probes (klog s4) = (if ret = 0 then insert (Inode_probe i ?off u) (live_probes (klog s))
         else live_probes (klog s))"
      using s3(2-4) step_ok_kdo [OF rdy3, of K "Uprobe_register i ?off u"]
      by (simp_all add: s4_def ret_def frame_simps kapi_log)
    have st: "step_ok cf s s4" using s1(1) s3(1) s4(1) step_ok_trans by blast
    have rdy4: "ready cf s4" using st by (rule step_ok_ready)
    have res: "(rc, s') = (if ret \<noteq> 0 \<and> ret \<noteq> - EINPROGRESS
        then (Some 0, pr K (''register_uprobe() failed, returned %d'' @ nl) [ArgD ret] s4)
        else (None, record_probe K (i, ?off, u) s4))"
      using assms(2) k u f reg by (simp add: register_one_def s3_def Let_def)
    show ?thesis
    proof (cases "ret \<noteq> 0 \<and> ret \<noteq> - EINPROGRESS")
      case True
      have "covers L s4" using s4(2-4) True assms(3) covers_neutral [of s4 s L] by simp
      moreover have "rc = Some 0" "s' = pr K (''register_uprobe() failed, returned %d'' @ nl) [ArgD ret] s4"
        using res True by simp_all
      moreover from this have "step_ok cf s s'" using step_ok_trans [OF st step_ok_pr [OF rdy4]] by simp
      ultimately show ?thesis using s4(3) by (simp add: covers_pr frame_simps)
    next
      case False
      have er: "entry_reg s4 = entry_reg s" using s4(2) by (simp add: entry_reg_def fun_eq_iff)
      have "live_probes (klog s4) \<subseteq> insert (Inode_probe i ?off u) (live_probes (klog s))"
        unfolding s4(4) by auto
      then have sub: "live_probes (klog s4) \<subseteq> insert (Inode_probe i ?off u) (L \<union> entry_reg s4 ` {0..<num_reg_probes s4})"
        using assms(3) unfolding covers_def er s4(3) by blast
      have "num_reg_probes s4 < MAX_PROBES" using s4(3) assms(4) by simp
      note rp = record_probe_ok [OF rdy4 this sub, of K]
      have "rc = None" "s' = record_probe K (i, ?off, u) s4" using res False by simp_all
      then show ?thesis using step_ok_trans [OF st rp(1)] rp(2,3) s4(3) by simp
    qed
  qed
qed

lemma register_loop:
  assumes "ready cf s" and "each (register_one cf K syms) ns s = (rc, s')" and "covers L s"
    and "num_reg_probes s + length ns \<le> MAX_PROBES"
  shows "step_ok cf s s' \<and> covers L s' \<and> num_reg_probes s' \<le> num_reg_probes s + length ns
    \<and> (rc = None \<or> rc = Some 0)"
  using assms
proof (induction ns arbitrary: s)
  case Nil
  then show ?case by (simp add: step_ok_def)
next
  case (Cons n ns)
  obtain r t where t: "register_one cf K syms n s = (r, t)" by fastforce
  have n: "num_reg_probes s < MAX_PROBES" using Cons.prems(4) by simp
  note one = register_one_step [OF Cons.prems(1) t Cons.prems(3) n]
  show ?case
  proof (cases r)
    case None
    with one have "step_ok cf s t" "covers L t" "num_reg_probes t = num_reg_probes s + 1" by auto
    moreover have "each (register_one cf K syms) ns t = (rc, s')" using Cons.prems(2) t None by simp
    ultimately have "step_ok cf t s' \<and> covers L s' \<and> num_reg_probes s' \<le> num_reg_probes t + length ns
        \<and> (rc = None \<or> rc = Some 0)"
      using Cons.prems(4) by (intro Cons.IH) (auto simp: step_ok_def)
    with \<open>step_ok cf s t\<close> \<open>num_reg_probes t = num_reg_probes s + 1\<close> show ?thesis
      using step_ok_trans by auto
  next
    case (Some v)
    with one Cons.prems(2) t show ?thesis by auto
  qed
qed

section \<open>Loading and unloading\<close>

lemma kunreg_same_more:
  fixes s t :: "'a kunreg_scheme"
  shows "kmod.more t = kmod.more s \<Longrightarrow> reg_table t = reg_table s"
    and "udbg.more t = udbg.more s \<Longrightarrow> reg_table t = reg_table s"
  by (cases s, cases t, simp)+

text \<open>A successful load went through a ready state \<open>t\<close> and the loop.\<close>

lemma kunreg_init_cases:
  assumes "kunreg_init_module cf K syms s = (0, s')" and "live_dentries (klog s) = {}"
  obtains t rc where "ready cf t" "live_probes (klog t) = live_probes (klog s)"
    "oopsed t = oopsed s" "live_dentries (klog t) = handles t" "num_reg_probes t = 0"
    "reg_table t = reg_table s"
    "each (register_one cf K syms) (globbed syms ''_probe'') t = (rc, s')"
proof -
  obtain r1 s1 where s1: "init_uprobe cf K s = (r1, s1)" by fastforce
  obtain r2 s2 where s2: "u_dbfs_init K ''kunreg'' s1 = (r2, s2)" by fastforce
  obtain rc s3 where s3: "each (register_one cf K syms) (globbed syms ''_probe'')
      (s2\<lparr>num_reg_probes := 0\<rparr>) = (rc, s3)" by fastforce
  have "r1 = 0" "r2 = 0"
    using assms(1) s1 s2 init_uprobe_result [OF s1] u_dbfs_init_result [of K "''kunreg''" s1]
    by (auto simp: kunreg_init_module_def split: if_splits prod.splits)
  moreover from this have e: "s3 = s'"
    using assms(1) s1 s2 s3
    by (auto simp: kunreg_init_module_def register_all_def for_each_glob_globbed return_0_def
        split: option.splits)
  ultimately have ok: "init_uprobe cf K s = (0, s1)" "u_dbfs_init K ''kunreg'' s1 = (0, s2)"
    using s1 s2 by simp_all
  note f1 = init_uprobe_frame [OF ok(1)] and f2 = u_dbfs_init_only [OF ok(2)] and i = u_dbfs_init_ok [OF ok(2)]
  have p: "pointers_ok cf s2" using pmod_same_more(3) [OF f2(2)] init_uprobe_pointers [OF ok(1)] by simp
  have "print_buf s2 \<noteq> 0" using i(1) unfolding buf_ok_def by blast
  then have "ready cf (s2\<lparr>num_reg_probes := 0\<rparr>)" using i(4) p by (simp add: ready_def pointers_ok_def)
  moreover have "live_probes (klog (s2\<lparr>num_reg_probes := 0\<rparr>)) = live_probes (klog s)"
    using only_neutral(1) [OF f1(1)] i(5) by simp
  moreover have "oopsed (s2\<lparr>num_reg_probes := 0\<rparr>) = oopsed s" using f1(4) i(7) by simp
  moreover have "live_dentries (klog (s2\<lparr>num_reg_probes := 0\<rparr>)) = handles (s2\<lparr>num_reg_probes := 0\<rparr>)"
    using f1(2) i(6) assms(2) by (simp add: handles_def)
  moreover have "reg_table (s2\<lparr>num_reg_probes := 0\<rparr>) = reg_table s"
    using kunreg_same_more(1) [OF f1(5)] kunreg_same_more(2) [OF f2(2)] by simp
  ultimately show ?thesis using s3 e by (intro that) simp_all
qed

lemma record_probe_beyond:
  "j \<noteq> num_reg_probes s \<Longrightarrow> reg_table (record_probe K x s) j = reg_table s j"
  "num_reg_probes (record_probe K x s) = num_reg_probes s + 1"
  by (simp_all add: record_probe_def Let_def frame_simps)

definition unused_zero :: "'a kunreg_scheme \<Rightarrow> bool" where
  "unused_zero s \<longleftrightarrow> (\<forall>j \<ge> num_reg_probes s. reg_table s j = (0, 0, 0))"

lemma record_probe_unused: "unused_zero s \<Longrightarrow> unused_zero (record_probe K x s)"
  by (simp add: unused_zero_def record_probe_beyond)

lemma unused_zero_frame [frame_simps]:
  "unused_zero (pr K fmt args s) = unused_zero s" "unused_zero (kdo K c s) = unused_zero s"
  "unused_zero (s\<lparr>klog := l\<rparr>) = unused_zero s" "unused_zero (s\<lparr>consumers := f\<rparr>) = unused_zero s"
  "unused_zero (s\<lparr>oopsed := b\<rparr>) = unused_zero s"
  by (simp_all add: unused_zero_def frame_simps)

lemma register_one_unused:
  assumes "register_one cf K syms n s = (rc, s')" and "unused_zero s"
  shows "unused_zero s'"
proof -
  let ?a = "Kzalloc (k_sizeof K ''uprobe_consumer'')"
  obtain i s2 where f: "find_inode K syms n (kdo K ?a s) = (i, s2)" by fastforce
  have "unused_zero s2 = unused_zero ((kdo K ?a s)\<lparr>klog := klog s2\<rparr>)"
    using arg_cong [OF find_inode_same [OF f], of unused_zero] .
  then have z: "unused_zero s2" using assms(2) by (simp add: frame_simps)
  have "unused_zero (snd (uprobe_register cf K a b c t)) = unused_zero t" for a b c and t :: "'a kunreg_scheme"
    by (simp add: uprobe_register_def frame_simps)
  then show ?thesis
    using assms z f
    by (auto simp: register_one_def case_prod_unfold Let_def frame_simps record_probe_unused split: if_splits)
qed

lemma dentry_step_entry_call: "dentry_step D (entry_call s i, r) = D"
  by (cases "reg_table s i") (simp add: entry_call_def)

section \<open>Properties\<close>

text \<open>(C12) When at most 99 symbols match, loading \<open>kunreg\<close> and unloading it leaves no debugfs entry and
  none of the probes it registered, and does not crash, even when a registration failed half way
  or was reported as still in progress.\<close>

theorem kunreg_leaves_no_probe:
  assumes "kunreg_init_module cf K syms s = (0, s1)" and "live_dentries (klog s) = {}"
    and "length (globbed syms ''_probe'') < MAX_PROBES" and "\<not> oopsed s"
  shows "live_probes (klog (kunreg_cleanup_module cf K s1)) \<subseteq> live_probes (klog s)
    \<and> live_dentries (klog (kunreg_cleanup_module cf K s1)) = {}
    \<and> \<not> oopsed (kunreg_cleanup_module cf K s1)"
proof -
  obtain t rc where t: "ready cf t" "live_probes (klog t) = live_probes (klog s)"
    "oopsed t = oopsed s" "live_dentries (klog t) = handles t" "num_reg_probes t = 0"
    "each (register_one cf K syms) (globbed syms ''_probe'') t = (rc, s1)"
    by (rule kunreg_init_cases [OF assms(1,2)]) blast
  have "covers (live_probes (klog s)) t" using t(2) by (simp add: covers_def)
  then have l: "step_ok cf t s1" "covers (live_probes (klog s)) s1" "num_reg_probes s1 < MAX_PROBES"
    using register_loop [OF t(1,6), of "live_probes (klog s)"] t(5) assms(3) by auto
  have r1: "ready cf s1" using l(1) by (rule step_ok_ready)
  let ?u = "unregister_all cf K s1"
  have u: "live_probes (klog ?u) = live_probes (klog s1) - entry_reg s1 ` {0..<num_reg_probes s1 + 1}"
    "ready cf ?u" "oopsed ?u = oopsed s1" "handles ?u = handles s1"
    and log: "\<exists>es. klog ?u = klog s1 @ es \<and> map fst es = map (entry_call s1) [0..<num_reg_probes s1 + 1]"
    using unregister_prefix [OF r1, of "num_reg_probes s1 + 1" K] l(3)
    unfolding unregister_all_def by (simp_all only: Suc_eq_plus1 [symmetric] Suc_leI simp_thms)
  have "live_dentries (klog ?u) = live_dentries (klog s1)"
  proof -
    obtain es where es: "klog ?u = klog s1 @ es" "map fst es = map (entry_call s1) [0..<num_reg_probes s1 + 1]"
      using log by blast
    have "foldl dentry_step D es = D" if "\<forall>x \<in> set es. \<exists>i. fst x = entry_call s1 i" for D es
      using that by (induction es) (auto simp: dentry_step_entry_call)
    moreover have "\<forall>x \<in> set es. \<exists>i. fst x = entry_call s1 i"
      using arg_cong [OF es(2), of set] by auto
    ultimately show ?thesis using es(1) by simp
  qed
  then have "live_dentries (klog (kunreg_cleanup_module cf K s1)) = {}"
    using u(2,4) l(1) t(4) by (simp add: kunreg_cleanup_module_def u_dbfs_cleanup_ready step_ok_def)
  moreover have "live_probes (klog ?u) \<subseteq> live_probes (klog s)"
    using u(1) l(2) by (auto simp: covers_def)
  moreover have "\<not> oopsed ?u" using u(3) l(1) t(3) assms(4) by (simp add: step_ok_def)
  ultimately show ?thesis
    using u(2) by (simp add: kunreg_cleanup_module_def u_dbfs_cleanup_ready)
qed

definition kunreg_zero :: kunreg where
  "kunreg_zero = pmod.extend pmod_zero \<lparr>num_reg_probes = 0, reg_table = (\<lambda>_. (0, 0, 0))\<rparr>"

lemma kunreg_zero_simps [simp]:
  "klog kunreg_zero = []" "oopsed kunreg_zero = False" "reg_table kunreg_zero = (\<lambda>_. (0, 0, 0))"
  by (simp_all add: kunreg_zero_def pmod_zero_def pmod.extend_def)

lemma kunreg_sample_loads:
  "kunreg_init_module cf granting_kernel syms kunreg_zero =
     (0, snd (kunreg_init_module cf granting_kernel syms kunreg_zero))"
  using setup_grants(1) [OF granting_kernel_obliging(1), of cf kunreg_zero]
    setup_grants(2) [OF granting_kernel_obliging(1), of "''kunreg''"
      "snd (init_uprobe cf granting_kernel kunreg_zero)"]
  by (simp add: prod_eq_iff kunreg_init_module_def case_prod_unfold)

theorem kunreg_leaves_no_probe_witness:
  "live_probes (klog (kunreg_cleanup_module all_exported granting_kernel
      (snd (kunreg_init_module all_exported granting_kernel sample_syms kunreg_zero)))) = {}"
  using kunreg_leaves_no_probe [OF kunreg_sample_loads [of all_exported sample_syms]]
  by (simp add: globbed_sample)

text \<open>(C17) The loop of \<open>unregister_all\<close> runs one time too often: behind the probes that were
  registered it unregisters the entry that was never filled, with a NULL inode and a NULL consumer.\<close>

theorem kunreg_unregisters_null_entry:
  assumes "kunreg_init_module cf K syms s = (0, s1)" and "live_dentries (klog s) = {}"
    and "length (globbed syms ''_probe'') < MAX_PROBES" and "reg_table s = (\<lambda>_. (0, 0, 0))"
  shows "\<exists>es. klog (unregister_all cf K s1) = klog s1 @ es
    \<and> map fst es = map (entry_call s1) [0..<num_reg_probes s1] @ [Uprobe_unregister 0 0 0]"
proof -
  obtain t rc where t: "ready cf t" "live_probes (klog t) = live_probes (klog s)" "num_reg_probes t = 0"
    "reg_table t = reg_table s" "each (register_one cf K syms) (globbed syms ''_probe'') t = (rc, s1)"
    by (rule kunreg_init_cases [OF assms(1,2)]) blast
  have "covers (live_probes (klog s)) t" using t(2) by (simp add: covers_def)
  then have l: "ready cf s1" "num_reg_probes s1 + 1 \<le> MAX_PROBES"
    using register_loop [OF t(1,5), of "live_probes (klog s)"] t(3) assms(3) by (auto simp: step_ok_def)
  have "unused_zero s1"
  proof (rule each_invariant [where P = unused_zero, OF _ _ t(5)])
    show "unused_zero t" using t(4) assms(4) by (simp add: unused_zero_def)
  qed (rule register_one_unused)
  then have "entry_call s1 (num_reg_probes s1) = Uprobe_unregister 0 0 0"
    by (simp add: unused_zero_def entry_call_def)
  then show ?thesis
    using unregister_prefix [OF l, of K] unfolding unregister_all_def by simp
qed

theorem kunreg_unregisters_null_entry_witness:
  "(let s1 = snd (kunreg_init_module all_exported granting_kernel sample_syms kunreg_zero)
    in Uprobe_unregister 0 0 0 \<in> fst ` set (klog (unregister_all all_exported granting_kernel s1)))"
proof -
  let ?s1 = "snd (kunreg_init_module all_exported granting_kernel sample_syms kunreg_zero)"
  obtain es where "klog (unregister_all all_exported granting_kernel ?s1) = klog ?s1 @ es"
    "map fst es = map (entry_call ?s1) [0..<num_reg_probes ?s1] @ [Uprobe_unregister 0 0 0]"
    using kunreg_unregisters_null_entry [OF kunreg_sample_loads [of all_exported sample_syms]]
    by (auto simp: globbed_sample)
  moreover from this(2) have "Uprobe_unregister 0 0 0 \<in> fst ` set es"
    by (metis in_set_conv_decomp list.set_map)
  ultimately show ?thesis by (simp add: image_Un)
qed

text \<open>With a hundred registered probes that one step more reads behind the array, and a hundred and
  first registration writes there.\<close>

theorem kunreg_table_overflow:
  assumes "MAX_PROBES \<le> num_reg_probes s"
  shows "oopsed (unregister_all cf K s) \<and> (print_buf s \<noteq> 0 \<longrightarrow> oopsed (record_probe K x s))"
proof -
  have keep: "oopsed t \<Longrightarrow> oopsed (unregister_entry cf K i t)" for t i
    by (auto simp: unregister_entry_def uprobe_unregister_def frame_simps split: prod.splits)
  have "oopsed t \<Longrightarrow> oopsed (fold (unregister_entry cf K) xs t)" for t xs
    by (induction xs arbitrary: t) (auto intro: keep)
  moreover have "[0..<num_reg_probes s + 1] = [0..<MAX_PROBES] @ MAX_PROBES # [MAX_PROBES + 1..<num_reg_probes s + 1]"
    using assms upt_add_eq_append [of 0 MAX_PROBES "num_reg_probes s + 1 - MAX_PROBES"]
    by (simp add: upt_conv_Cons del: upt_Suc)
  ultimately have "oopsed (unregister_all cf K s)"
    unfolding unregister_all_def by (simp only: fold_append fold_simps o_apply) (simp add: unregister_entry_def)
  moreover have "print_buf s \<noteq> 0 \<Longrightarrow> oopsed (record_probe K x s)"
    using assms by (simp add: record_probe_def Let_def frame_simps)
  ultimately show ?thesis by simp
qed

theorem kunreg_table_overflow_witness:
  "oopsed (unregister_all all_exported granting_kernel (kunreg_zero\<lparr>num_reg_probes := 100\<rparr>))"
  using kunreg_table_overflow [of "kunreg_zero\<lparr>num_reg_probes := 100\<rparr>"] by simp

end
