(* ===== verification/Uprobes_W.thy ===== *)
theory Uprobes_W
  imports Kunreg
begin

text \<open>
  The modules of \<open>uprobes.w\<close> as the kernel sees them: each is a triple of \<open>init_module\<close>, the function
  \<open>child_exit\<close> that a write to \<open>cleanup\<close> runs, and \<open>cleanup_module\<close>. The lemmas follow a test session
  through the components: a module is loaded, its probes are hit, the test script writes to \<open>cleanup\<close> and
  reads the count from \<open>data\<close>.
\<close>

section \<open>The modules\<close>

record 's module_ops =
  m_init :: "stapconf \<Rightarrow> kernel \<Rightarrow> symbol list \<Rightarrow> 's \<Rightarrow> int \<times> 's"
  m_child_exit :: "kernel \<Rightarrow> 's \<Rightarrow> 's"
  m_exit :: "stapconf \<Rightarrow> kernel \<Rightarrow> 's \<Rightarrow> 's"

definition kthread_ops :: "pmod module_ops" where
  "kthread_ops = \<lparr>m_init = kthread_init_module, m_child_exit = kthread_child_exit, m_exit = (\<lambda>cf. cleanup_module)\<rparr>"

definition kfork_thread_ops :: "pmod module_ops" where
  "kfork_thread_ops =
     \<lparr>m_init = kfork_thread_init_module, m_child_exit = kthread_child_exit, m_exit = (\<lambda>cf. cleanup_module)\<rparr>"

definition kdie_ops :: "pmod module_ops" where
  "kdie_ops = \<lparr>m_init = kdie_init_module, m_child_exit = child_exit, m_exit = (\<lambda>cf. cleanup_module)\<rparr>"

definition kexec_ops :: "pmod module_ops" where
  "kexec_ops = \<lparr>m_init = kexec_init_module, m_child_exit = child_exit, m_exit = (\<lambda>cf. cleanup_module)\<rparr>"

definition kfork_and_defunc_ops :: "pmod module_ops" where
  "kfork_and_defunc_ops =
     \<lparr>m_init = kfork_and_defunc_init_module, m_child_exit = child_exit, m_exit = (\<lambda>cf. cleanup_module)\<rparr>"

definition ksuicide_ops :: "pmod module_ops" where
  "ksuicide_ops = \<lparr>m_init = ksuicide_init_module, m_child_exit = child_exit, m_exit = (\<lambda>cf. cleanup_module)\<rparr>"

definition ksuicide2_ops :: "pmod module_ops" where
  "ksuicide2_ops = \<lparr>m_init = ksuicide2_init_module, m_child_exit = child_exit, m_exit = (\<lambda>cf. cleanup_module)\<rparr>"

definition kunreg_child_exit :: "kernel \<Rightarrow> 'a kunreg_scheme \<Rightarrow> 'a kunreg_scheme" where
  "kunreg_child_exit K s = pr K (''num_probes=%ld'' @ nl) [ArgD (wrap_s 64 (int (num_probes s)))] s"

definition kunreg_ops :: "kunreg module_ops" where
  "kunreg_ops =
     \<lparr>m_init = kunreg_init_module, m_child_exit = kunreg_child_exit, m_exit = kunreg_cleanup_module\<rparr>"

section \<open>Hits\<close>

text \<open>One hit: the thread that runs into the breakpoint, its registers and the memory of its process.\<close>

record hit =
  hit_tid :: int
  hit_regs :: pt_regs
  hit_mem :: mem

definition run_hit :: "arch \<Rightarrow> kernel \<Rightarrow> uaccess \<Rightarrow> hit \<Rightarrow> 'a pmod_scheme \<Rightarrow> 'a pmod_scheme" where
  "run_hit a K ua h s = fst (snd (probe_handler a K ua (hit_tid h) (hit_regs h) (s, hit_mem h)))"

definition run_hits :: "arch \<Rightarrow> kernel \<Rightarrow> uaccess \<Rightarrow> hit list \<Rightarrow> 'a pmod_scheme \<Rightarrow> 'a pmod_scheme" where
  "run_hits a K ua hs s = fold (run_hit a K ua) hs s"

text \<open>What a handler leaves alone while it prints.\<close>

definition counts_alike :: "'a pmod_scheme \<Rightarrow> 'a pmod_scheme \<Rightarrow> bool" where
  "counts_alike s t \<longleftrightarrow> num_probes t = num_probes s \<and> klog t = klog s \<and> entry t = entry s
     \<and> handles t = handles s \<and> (\<forall>cf. ready cf t = ready cf s)"

lemma counts_alike_pr: "counts_alike s (pr K fmt args s)"
  by (simp add: counts_alike_def frame_simps)

lemma counts_alike_trans: "counts_alike s t \<Longrightarrow> counts_alike t u \<Longrightarrow> counts_alike s u"
  by (simp add: counts_alike_def)

lemma counts_alike_refl [simp]: "counts_alike s s"
  by (simp add: counts_alike_def)

lemma handler_steps_alike:
  "counts_alike s (fst (save_ktid dm K ua pid p (s, m)))"
  "counts_alike s (fst (check_utid dm K ua pid p (s, m)))"
  "counts_alike s (fst (bump_kcount dm K ua p (s, m)))"
  using counts_alike_pr counts_alike_trans [OF counts_alike_pr counts_alike_pr]
    counts_alike_trans [OF counts_alike_pr counts_alike_trans [OF counts_alike_pr counts_alike_pr]]
  by (auto simp: save_ktid_def check_utid_def bump_kcount_def Let_def split: prod.splits)

lemma run_hit_counts:
  "num_probes (run_hit a K ua h s) = (num_probes s + 1) mod 256 ^ ulong_size (arch_model a)"
  "klog (run_hit a K ua h s) = klog s" "entry (run_hit a K ua h s) = entry s"
  "handles (run_hit a K ua h s) = handles s" "ready cf (run_hit a K ua h s) = ready cf s"
proof -
  let ?dm = "arch_model a" and ?pid = "hit_tid h"
  define p where "p = get_first_arg a (hit_regs h) (hit_mem h)"
  obtain s1 m1 where 1: "save_ktid ?dm K ua ?pid p (s, hit_mem h) = (s1, m1)" by fastforce
  obtain s2 m2 where 2: "check_utid ?dm K ua ?pid p (s1, m1) = (s2, m2)" by fastforce
  obtain s3 m3 where 3: "bump_kcount ?dm K ua p (s2, m2) = (s3, m3)" by fastforce
  have "counts_alike s s3"
    using handler_steps_alike(1) [of s ?dm K ua ?pid p "hit_mem h"] handler_steps_alike(2) [of s1 ?dm K ua ?pid p m1]
      handler_steps_alike(3) [of s2 ?dm K ua p m2] 1 2 3 counts_alike_trans by (metis fst_conv)
  moreover have "run_hit a K ua h s = s3\<lparr>num_probes := (num_probes s3 + 1) mod 256 ^ ulong_size ?dm\<rparr>"
    using 1 2 3 by (simp add: run_hit_def probe_handler_def Let_def p_def [symmetric])
  ultimately show "num_probes (run_hit a K ua h s) = (num_probes s + 1) mod 256 ^ ulong_size (arch_model a)"
    "klog (run_hit a K ua h s) = klog s" "entry (run_hit a K ua h s) = entry s"
    "handles (run_hit a K ua h s) = handles s" "ready cf (run_hit a K ua h s) = ready cf s"
    by (simp_all add: counts_alike_def handles_def ready_def pointers_ok_def)
qed

lemma run_hits_counts:
  "num_probes (run_hits a K ua hs s) mod 256 ^ ulong_size (arch_model a) =
     (num_probes s + length hs) mod 256 ^ ulong_size (arch_model a)"
  "klog (run_hits a K ua hs s) = klog s" "entry (run_hits a K ua hs s) = entry s"
  "handles (run_hits a K ua hs s) = handles s" "ready cf (run_hits a K ua hs s) = ready cf s"
  by (induction hs arbitrary: s) (simp_all add: run_hits_def run_hit_counts mod_simps ac_simps)

lemma run_hits_below:
  assumes "num_probes s + length hs < 256 ^ ulong_size (arch_model a)"
  shows "num_probes (run_hits a K ua hs s) = num_probes s + length hs"
  using assms
  by (induction hs arbitrary: s) (simp_all add: run_hits_def run_hit_counts)

section \<open>What the test script reads\<close>

definition uprobes_w_modules :: "pmod module_ops list" where
  "uprobes_w_modules = [kthread_ops, kfork_thread_ops, kdie_ops, kexec_ops, kfork_and_defunc_ops,
     ksuicide_ops, ksuicide2_ops]"

lemmas ops_defs = kthread_ops_def kfork_thread_ops_def kdie_ops_def kexec_ops_def kfork_and_defunc_ops_def
  ksuicide_ops_def ksuicide2_ops_def uprobes_w_modules_def

lemma ops_exit: "M \<in> set uprobes_w_modules \<Longrightarrow> m_exit M cf K s = u_dbfs_cleanup K s"
  by (auto simp: ops_defs cleanup_module_def)

lemma ops_child_exit: "M \<in> set uprobes_w_modules \<Longrightarrow> m_child_exit M \<in> {child_exit, kthread_child_exit}"
  by (auto simp: ops_defs)

text \<open>After a successful load the module is ready, its count is 0 and its debugfs entries are the only ones.\<close>

lemma ops_loaded:
  assumes "M \<in> set uprobes_w_modules" and "m_init M cf K syms s = (0, t)" and "live_dentries (klog s) = {}"
  shows "ready cf t \<and> num_probes t = 0 \<and> live_dentries (klog t) = handles t \<and> oopsed t = oopsed s"
proof -
  have plain: "ready cf t \<and> num_probes t = 0 \<and> live_dentries (klog t) = handles t \<and> oopsed t = oopsed s"
    if "return_0 (init_common cf K syms name h s) = (0, t)" for name h
    using init_common_success [OF that assms(3)] by simp
  have twice: "ready cf t \<and> num_probes t = 0 \<and> live_dentries (klog t) = handles t \<and> oopsed t = oopsed s"
    if "return_0 (register_suicide cf K syms h (init_common cf K syms name (Some Counts) s)) = (0, t)" for name h
  proof -
    obtain rc u where i: "init_common cf K syms name (Some Counts) s = (rc, u)" by fastforce
    have rc: "rc = None"
      using init_common_cases [OF i assms(3)] that i
      by (auto simp: register_suicide_def return_0_def split: if_splits)
    have u: "ready cf u" "oopsed u = oopsed s" "num_probes u = 0" "live_dentries (klog u) = handles u"
      using init_common_success(2-5) [of cf K syms name "Some Counts" s u] assms(3) i rc by (simp_all add: return_0_def)
    obtain rc2 v where v: "register_found cf K syms (Some h) ''_probe_9'' u = (rc2, v)" by fastforce
    show ?thesis
      using register_found_cases [OF u(1) v] v that i rc u
      by (auto simp: register_suicide_def return_0_def registered_one_def split: option.splits)
  qed
  show ?thesis
    using assms(1,2) plain twice
    by (auto simp: ops_defs kthread_init_module_def kfork_thread_init_module_def kdie_init_module_def
        kexec_init_module_def kfork_and_defunc_init_module_def ksuicide_init_module_def ksuicide2_init_module_def)
qed


definition count_formats :: "string set" where
  "count_formats = {''num_probes = %ld'' @ nl, ''num_probes=%ld'' @ nl}"

lemma child_exit_format:
  assumes "M \<in> set uprobes_w_modules"
  shows "\<exists>fmt \<in> count_formats. \<forall>K s. m_child_exit M K s = pr K fmt [ArgD (wrap_s 64 (int (num_probes s)))] s"
proof -
  have f: "''num_probes = %ld'' @ nl \<in> count_formats" "''num_probes=%ld'' @ nl \<in> count_formats"
    unfolding count_formats_def by (rule insertI1) (rule insertI2, rule insertI1)
  consider "m_child_exit M = child_exit" | "m_child_exit M = kthread_child_exit"
    using ops_child_exit [OF assms] by blast
  then show ?thesis
  proof cases
    case 1
    have "\<forall>K s. child_exit K s = pr K (''num_probes=%ld'' @ nl) [ArgD (wrap_s 64 (int (num_probes s)))] s"
      by (rule allI, rule allI, rule child_exit_def)
    then show ?thesis unfolding 1 by (rule bexI [OF _ f(2)])
  next
    case 2
    have "\<forall>K s. kthread_child_exit K s = pr K (''num_probes = %ld'' @ nl) [ArgD (wrap_s 64 (int (num_probes s)))] s"
      by (rule allI, rule allI, rule kthread_child_exit_def)
    then show ?thesis unfolding 2 by (rule bexI [OF _ f(1)])
  qed
qed

lemma printed_cong: "heap t = heap s \<Longrightarrow> buf t = buf s \<Longrightarrow> printed t = printed s"
  by (simp only: printed_def)

lemma first_write_frame:
  "buf_ok (kdo K c (s\<lparr>entry := e\<rparr>)) = buf_ok s" "printed (kdo K c (s\<lparr>entry := e\<rparr>)) = printed s"
  "room (kdo K c (s\<lparr>entry := e\<rparr>)) = room s" "handles (kdo K c (s\<lparr>entry := e\<rparr>)) = handles s"
  "klog (kdo K c (s\<lparr>entry := e\<rparr>)) = klog s @ [(c, k_api K (klog s) c)]"
proof -
  let ?t = "kdo K c (s\<lparr>entry := e\<rparr>)"
  have t: "heap ?t = heap s" "buf ?t = buf s" "print_buf ?t = print_buf s" "dir ?t = dir s"
    "data_file ?t = data_file s" "cleanup_file ?t = cleanup_file s" by (simp_all add: kapi_def)
  show "printed ?t = printed s" by (rule printed_cong [OF t(1,2)])
  show "buf_ok ?t = buf_ok s" "room ?t = room s" "handles ?t = handles s"
    by (simp_all only: buf_ok_def room_def handles_def t)
  show "klog ?t = klog s @ [(c, k_api K (klog s) c)]" by (simp add: kapi_def)
qed

lemma first_write_frame_pmod:
  "num_probes (kdo K c (s\<lparr>entry := e\<rparr>)) = num_probes s" "ready cf (kdo K c (s\<lparr>entry := e\<rparr>)) = ready cf s"
  by (simp_all add: kapi_def ready_def pointers_ok_def)

text \<open>The first write to \<open>cleanup\<close> appends the count, and unloading takes the debugfs entries away.\<close>

lemma count_reported:
  assumes "vsnprintf_law K text" and "M \<in> set uprobes_w_modules" and "ready cf u" and "num_probes u = n" and "n < 2147483648"
    and "live_dentries (klog u) = handles u" and "entry u = 0" and "buf_ok u"
    and "k_api K (klog u) (Copy_from_user (min count 31)) = 0"
    and "\<And>fmt. fmt \<in> count_formats \<Longrightarrow> length (text fmt [ArgD (int n)]) < room u"
  shows "\<exists>fmt \<in> count_formats. \<exists>v. write_cleanup K (m_child_exit M K) count u = (count, v)
    \<and> printed v = printed u @ text fmt [ArgD (int n)] \<and> live_dentries (klog (m_exit M cf K v)) = {}"
proof -
  let ?c = "Copy_from_user (min count 31)"
  define v where "v = kdo K ?c (u\<lparr>entry := 1\<rparr>)"
  have v: "buf_ok v = buf_ok u" "printed v = printed u" "room v = room u" "num_probes v = n"
    "ready cf v = ready cf u" "handles v = handles u" "live_dentries (klog v) = live_dentries (klog u)"
    by (simp_all add: v_def first_write_frame first_write_frame_pmod assms(4))
  have w: "write_cleanup K ce count u = (count, ce v)" for ce
    using assms(7,9) by (simp add: write_cleanup_def kapi_def v_def)
  obtain fmt where fmt: "fmt \<in> count_formats"
    "\<forall>K s. m_child_exit M K s = pr K fmt [ArgD (wrap_s 64 (int (num_probes s)))] s"
    using child_exit_format [OF assms(2)] by blast
  let ?p = "pr K fmt [ArgD (int n)] v"
  have "wrap_s 64 (int n) = int n" using assms(5) by (simp add: wrap_s_def)
  then have p: "m_child_exit M K v = ?p" using fmt(2) v(4) by simp
  have "length (text fmt [ArgD (int n)]) < room v" using assms(10) [OF fmt(1)] v(3) by simp
  then have "printed ?p = printed u @ text fmt [ArgD (int n)]"
    using test_printk_fits(2) [OF assms(1), of v fmt "[ArgD (int n)]"] assms(8) v(1,2) by simp
  moreover have "live_dentries (klog (m_exit M cf K ?p)) = {}"
    using v(5-7) assms(3,6) by (simp add: ops_exit [OF assms(2)] u_dbfs_cleanup_ready frame_simps)
  moreover have "write_cleanup K (m_child_exit M K) count u = (count, ?p)" using w p by simp
  ultimately show ?thesis using fmt(1) by blast
qed


section \<open>A closed example\<close>

text \<open>A thread whose \<open>utid\<close> agrees with its thread id, so that the handler prints nothing.\<close>

definition quiet_uaccess :: uaccess where
  "quiet_uaccess = \<lparr>ua_put = (\<lambda>n a v m. (0, m)), ua_get = (\<lambda>n a m. (0, 7))\<rparr>"

lemma quiet_hits:
  "hit_tid h = 7 \<Longrightarrow> num_probes s = 0 \<Longrightarrow> run_hits I386 K quiet_uaccess [h, h] s = s\<lparr>num_probes := 2\<rparr>"
  by (simp add: run_hits_def run_hit_def probe_handler_def save_ktid_def check_utid_def bump_kcount_def
      quiet_uaccess_def Let_def wrap_s_def)

definition sample_hit :: hit where
  "sample_hit = \<lparr>hit_tid = 7, hit_regs = \<lparr>reg_ip = 0, reg_sp = 0, reg_ax = 0, reg_bx = 0, reg_cx = 0, reg_dx = 0,
     reg_si = 0, reg_di = 0, reg_bp = 0\<rparr>, hit_mem = (\<lambda>_. 0)\<rparr>"

lemma num_probes_frame:
  "buf_ok (s\<lparr>num_probes := n\<rparr>) = buf_ok s" "printed (s\<lparr>num_probes := n\<rparr>) = printed s"
  "room (s\<lparr>num_probes := n\<rparr>) = room s"
proof -
  let ?t = "s\<lparr>num_probes := n\<rparr>"
  have t: "heap ?t = heap s" "buf ?t = buf s" "print_buf ?t = print_buf s" by simp_all
  show "printed ?t = printed s" by (rule printed_cong [OF t(1,2)])
  show "buf_ok ?t = buf_ok s" "room ?t = room s" by (simp_all only: buf_ok_def room_def t)
qed

lemma kdie_fresh:
  obtains t where "kdie_init_module all_exported granting_kernel [] pmod_zero = (0, t)" "buf_ok t"
    "printed t = []" "room t = DATA_BUF_SIZE" "entry t = 0"
proof -
  let ?s = "pmod_zero\<lparr>num_probes := 0\<rparr>"
  define s1 where "s1 = snd (init_uprobe all_exported granting_kernel ?s)"
  define t where "t = snd (u_dbfs_init granting_kernel ''kdie'' s1)"
  have 1: "init_uprobe all_exported granting_kernel ?s = (0, s1)"
    using setup_grants(1) [OF granting_kernel_obliging(1), of all_exported ?s] by (simp add: s1_def prod_eq_iff)
  have 2: "u_dbfs_init granting_kernel ''kdie'' s1 = (0, t)"
    using setup_grants(2) [OF granting_kernel_obliging(1), of "''kdie''" s1] by (simp add: t_def prod_eq_iff)
  have "for_each_glob [] ''_probe'' (register_found all_exported granting_kernel [] (Some Counts)) t = (None, t)"
    by (simp only: for_each_glob_globbed) (simp add: globbed_def)
  then have "kdie_init_module all_exported granting_kernel [] pmod_zero = (0, t)"
    by (simp add: kdie_init_module_def init_common_def return_0_def 1 2 del: pmod_zero_simps)
  moreover have "entry s1 = 0"
    by (simp add: s1_def init_uprobe_def lookup_regset_view_def lookup_register_def lookup_unregister_def
        lookup_swbp_addr_def kapi_def pmod_zero_def all_exported_def)
  then have "entry t = 0" using u_dbfs_init_ok(8) [OF 2] by simp
  moreover have "printed t = []" by (simp only: printed_def u_dbfs_init_ok(2) [OF 2]) simp
  ultimately show ?thesis using that u_dbfs_init_ok(1,3) [OF 2] by blast
qed


end
