(* ===== verification/Legacy_Module.thy ===== *)
theory Legacy_Module
  imports Debugfs
begin

text \<open>
  What the modules of \<open>uprobes.existing\<close> share. They use the older uprobes interface, in which a probe is
  an object with a process id and an address (\<open>register_uprobe\<close>, \<open>unregister_uprobe\<close>, and the return
  probes). \<open>keeps\<close> says that a step of a loaded module leaves its debugfs state alone; the locale
  \<open>clean_module\<close> is the contract of a module that takes back everything it registered, whatever
  happened while it was loaded.
\<close>

text \<open>The module parameters \<open>pid\<close>, \<open>verbose\<close> and \<open>vaddr\<close>.\<close>

record params =
  par_pid :: int
  par_verbose :: int
  par_vaddr :: int

section \<open>Steps of a loaded module\<close>

definition keeps :: "'a udbg_scheme \<Rightarrow> 'a udbg_scheme \<Rightarrow> bool" where
  "keeps s s' \<longleftrightarrow> (dbfs_ready s \<longrightarrow> dbfs_ready s' \<and> oopsed s' = oopsed s) \<and> handles s' = handles s
     \<and> live_dentries (klog s') = live_dentries (klog s)"

lemma keeps_refl [simp, intro]: "keeps s s"
  by (simp add: keeps_def)

lemma keeps_trans [trans]: "keeps s t \<Longrightarrow> keeps t u \<Longrightarrow> keeps s u"
  by (auto simp: keeps_def)

lemma keeps_pr [simp, intro]: "keeps s (pr K fmt args s)"
  by (simp add: keeps_def frame_simps)

fun dentry_neutral :: "kcall \<Rightarrow> bool" where
  "dentry_neutral (Debugfs_create_dir n) = False"
| "dentry_neutral (Debugfs_create_file n p f) = False"
| "dentry_neutral (Debugfs_remove d) = False"
| "dentry_neutral c = True"

lemma dentry_neutral_step: "dentry_neutral c \<Longrightarrow> dentry_step D (c, r) = D"
  by (cases c) auto

lemma keeps_kdo [intro]: "dentry_neutral c \<Longrightarrow> keeps s (kdo K c s)"
  by (simp add: keeps_def frame_simps kapi_log dentry_neutral_step)

lemma keeps_pr_after [intro]: "keeps s t \<Longrightarrow> keeps s (pr K fmt args t)"
  using keeps_trans keeps_pr by blast

lemma keeps_kdo_after [intro]: "keeps s t \<Longrightarrow> dentry_neutral c \<Longrightarrow> keeps s (kdo K c t)"
  using keeps_trans keeps_kdo by blast

lemma live_probes_pr [simp]: "live_probes (klog (pr K fmt args s)) = live_probes (klog s)"
  by (simp add: frame_simps)

text \<open>The static variables of \<open>udbgfs.c\<close> when a module has just been loaded.\<close>

definition zero_statics :: "'a udbg_scheme \<Rightarrow> 'a udbg_scheme" where
  "zero_statics s =
     s\<lparr>dir := 0, data_file := 0, cleanup_file := 0, print_buf := 0, entry := 0\<rparr>"

lemma zero_statics_frame [frame_simps]:
  "klog (zero_statics s) = klog s" "oopsed (zero_statics s) = oopsed s"
  by (simp_all add: zero_statics_def)

section \<open>Registrations that are deferred\<close>

text \<open>Inside a handler a registration is not carried out at once: with \<open>UPROBES_REG_CALLBACK\<close> it returns
  \<open>-EINPROGRESS\<close> and the probe's \<open>registration_callback\<close> runs later. \<open>claims\<close> are the probes whose
  registration was accepted, at once or deferred, and not taken back since. \<open>deferring K l\<close>: from the
  log \<open>l\<close> on, the kernel carries out no registration at once.\<close>

record regconf =
  uprobes_reg_callback :: bool
  init_uretprobes_needed :: bool

fun claim_step :: "registration set \<Rightarrow> kcall \<times> int \<Rightarrow> registration set" where
  "claim_step R (Register_uprobe u p v, r) =
     (if r = 0 \<or> r = - EINPROGRESS then insert (Object_probe u) R else R)"
| "claim_step R (Unregister_uprobe u, r) = R - {Object_probe u}"
| "claim_step R (Register_uretprobe u p v, r) =
     (if r = 0 \<or> r = - EINPROGRESS then insert (Object_retprobe u) R else R)"
| "claim_step R (Unregister_uretprobe u, r) = R - {Object_retprobe u}"
| "claim_step R (_, r) = R"

definition claims :: "(kcall \<times> int) list \<Rightarrow> registration set" where
  "claims l = foldl claim_step {} l"

lemma claims_simps [simp]: "claims [] = {}" "claims (l @ es) = foldl claim_step (claims l) es"
  by (simp_all add: claims_def)

lemma claims_pr [simp]: "claims (klog (pr K fmt args s)) = claims (klog s)"
  by (simp add: frame_simps)

lemma claims_neutral: "probe_neutral c \<Longrightarrow> claims (klog (kdo K c s)) = claims (klog s)"
  by (cases c) (auto simp: log_simps)

lemma only_neutral_claims: "only probe_neutral l l' \<Longrightarrow> claims l' = claims l"
proof -
  assume "only probe_neutral l l'"
  then obtain es where es: "l' = l @ es" "\<forall>x \<in> set es. probe_neutral (fst x)" by (auto simp: only_def)
  have "claim_step R (c, r) = R" if "probe_neutral c" for R c r using that by (cases c) auto
  then have "foldl claim_step R es = R" for R using es(2) by (induction es) auto
  then show ?thesis by (simp add: es(1))
qed

lemma claims_cleanup [simp]: "claims (klog (u_dbfs_cleanup K s)) = claims (klog s)"
  by (rule only_neutral_claims [OF u_dbfs_cleanup_only])

definition deferring :: "kernel \<Rightarrow> (kcall \<times> int) list \<Rightarrow> bool" where
  "deferring K l \<longleftrightarrow> (\<forall>es u p v.
     k_api K (l @ es) (Register_uprobe u p v) \<noteq> 0 \<and> k_api K (l @ es) (Register_uretprobe u p v) \<noteq> 0)"

lemma deferring_log: "deferring K l \<Longrightarrow> deferring K (l @ es)"
  by (simp add: deferring_def)

lemma deferring_api:
  "deferring K l \<Longrightarrow> k_api K l (Register_uprobe u p v) \<noteq> 0"
  "deferring K l \<Longrightarrow> k_api K l (Register_uretprobe u p v) \<noteq> 0"
  by (simp_all add: deferring_def) (metis append_Nil2)+

text \<open>A kernel that defers every registration after the first six calls.\<close>

definition deferring_kernel :: kernel where
  "deferring_kernel = sample_kernel (\<lambda>n c.
     if 6 \<le> n \<and> \<not> probe_neutral c then - EINPROGRESS else granted n c)"

lemma deferring_kernel_defers: "6 \<le> length l \<Longrightarrow> deferring deferring_kernel l"
  by (simp add: deferring_def deferring_kernel_def)

abbreviation sample_params :: params where
  "sample_params \<equiv> \<lparr>par_pid = 7, par_verbose = 1, par_vaddr = 0\<rparr>"

section \<open>Loading\<close>

text \<open>A module that is loaded since the state \<open>s\<close>: its debugfs directory is set up, and the entries that
  exist are its own.\<close>

definition loaded :: "'b kst_scheme \<Rightarrow> 'a udbg_scheme \<Rightarrow> bool" where
  "loaded s t \<longleftrightarrow> dbfs_ready t \<and> live_dentries (klog t) = handles t \<and> oopsed t = oopsed s"

lemma loaded_keeps: "loaded s t \<Longrightarrow> keeps t u \<Longrightarrow> loaded s u"
  by (simp add: loaded_def keeps_def)

lemma loaded_pr [simp]: "loaded s t \<Longrightarrow> loaded s (pr K fmt args t)"
  by (rule loaded_keeps [OF _ keeps_pr])

lemma loaded_kdo: "dentry_neutral c \<Longrightarrow> loaded s t \<Longrightarrow> loaded s (kdo K c t)"
  by (rule loaded_keeps [OF _ keeps_kdo])

lemma loaded_cleanup:
  assumes "loaded s t"
  shows "live_dentries (klog (u_dbfs_cleanup K t)) = {}" "oopsed (u_dbfs_cleanup K t) = oopsed s"
  using assms by (simp_all add: loaded_def u_dbfs_cleanup_ready_log)

text \<open>How every \<open>init_module\<close> begins.\<close>

lemma prologue:
  assumes "(case u_dbfs_init K name s of (r, s) \<Rightarrow> if r \<noteq> 0 then (- 1, s) else body s) = (r, t)"
    and "live_dentries (klog s) = {}"
  obtains (fails) "r = - 1" "live_probes (klog t) = live_probes (klog s)"
  | (set_up) s1 where "loaded s s1" "live_probes (klog s1) = live_probes (klog s)"
      "udbg.more s1 = udbg.more s" "body s1 = (r, t)" "claims (klog s1) = claims (klog s)"
      "buf_ok s1" "printed s1 = []" "room s1 = DATA_BUF_SIZE"
proof -
  obtain r1 s1 where i: "u_dbfs_init K name s = (r1, s1)" by fastforce
  show ?thesis
  proof (cases "r1 = 0")
    case True
    then show ?thesis
      using i assms(1) u_dbfs_init_ready [OF i [unfolded True] assms(2)] u_dbfs_init_only [OF i]
        u_dbfs_init_ok(1-3) [OF i [unfolded True]] only_neutral_claims
      by (intro set_up [of s1]) (simp_all add: loaded_def printed_def)
  next
    case False
    then show ?thesis
      using i assms(1) u_dbfs_init_fails(2) [OF i] by (intro fails) auto
  qed
qed

text \<open>How most of them end: a registration whose refusal takes the directory down again.\<close>

definition register_or_fail ::
  "kernel \<Rightarrow> uobj \<Rightarrow> int \<Rightarrow> int \<Rightarrow> 'a udbg_scheme \<Rightarrow> int \<times> 'a udbg_scheme" where
  "register_or_fail K u pid vaddr s =
     (case kapi K (Register_uprobe u pid vaddr) s of (ret, s) \<Rightarrow>
        if ret \<noteq> 0 then (- 1, u_dbfs_cleanup K s) else (0, s))"

lemma register_or_fail_cases:
  assumes "register_or_fail K u pid vaddr s1 = (r, t)" and "loaded s s1"
  obtains (refused) "r = - 1" "live_probes (klog t) = live_probes (klog s1)"
  | (granted) "r = 0" "loaded s t" "t = kdo K (Register_uprobe u pid vaddr) s1"
      "live_probes (klog t) = insert (Object_probe u) (live_probes (klog s1))"
      "claims (klog t) = insert (Object_probe u) (claims (klog s1))"
proof (cases "k_api K (klog s1) (Register_uprobe u pid vaddr) = 0")
  case True
  then have "r = 0" "t = kdo K (Register_uprobe u pid vaddr) s1"
    using assms(1) by (simp_all add: register_or_fail_def kapi_def)
  with True show ?thesis
    using loaded_kdo [OF _ assms(2), of "Register_uprobe u pid vaddr" K]
    by (intro granted) (simp_all add: log_simps kapi_def)
next
  case False
  then have "r = - 1" "t = u_dbfs_cleanup K (kdo K (Register_uprobe u pid vaddr) s1)"
    using assms(1) by (simp_all add: register_or_fail_def kapi_def)
  with False show ?thesis by (intro refused) (simp_all add: log_simps kapi_def)
qed

lemma deferring_kernel_set_up:
  "klog s = [] \<Longrightarrow> fst (u_dbfs_init deferring_kernel name s) = 0"
  "klog s = [] \<Longrightarrow> length (klog (snd (u_dbfs_init deferring_kernel name s))) = 5"
  "length (klog s) = 5 \<Longrightarrow> fst (register_or_fail deferring_kernel u p v s) = 0"
  "length (klog s) = 5 \<Longrightarrow> length (klog (snd (register_or_fail deferring_kernel u p v s))) = 6"
  by (simp_all add: u_dbfs_init_def set_up_print_buffer_def register_or_fail_def kapi_def Let_def
      deferring_kernel_def)

lemma granting_kernel_loads:
  "fst (u_dbfs_init granting_kernel name s) = 0"
  "fst (register_or_fail granting_kernel u pid vaddr s) = 0"
  by (simp_all add: u_dbfs_init_def set_up_print_buffer_def register_or_fail_def kapi_def Let_def)

section \<open>What happens while a module is loaded\<close>

text \<open>One of the module's handlers runs (\<open>i\<close> says which, and what it finds in its registers), or user space writes the \<open>cleanup\<close> file or reads the
  \<open>data\<close> file. \<open>hit\<close> and \<open>child_exit\<close> are the module's own.\<close>

datatype 'h event = Hit 'h | Cleanup_written int | Data_read int int

fun run_event ::
  "kernel \<Rightarrow> ('h \<Rightarrow> 'a udbg_scheme \<Rightarrow> 'a udbg_scheme) \<Rightarrow> ('a udbg_scheme \<Rightarrow> 'a udbg_scheme) \<Rightarrow>
   'h event \<Rightarrow> 'a udbg_scheme \<Rightarrow> 'a udbg_scheme" where
  "run_event K hit child_exit (Hit i) s = hit i s"
| "run_event K hit child_exit (Cleanup_written n) s = snd (write_cleanup K child_exit n s)"
| "run_event K hit child_exit (Data_read n pos) s = snd (read_data K n pos s)"

definition run_events ::
  "kernel \<Rightarrow> ('h \<Rightarrow> 'a udbg_scheme \<Rightarrow> 'a udbg_scheme) \<Rightarrow> ('a udbg_scheme \<Rightarrow> 'a udbg_scheme) \<Rightarrow>
   'h event list \<Rightarrow> 'a udbg_scheme \<Rightarrow> 'a udbg_scheme" where
  "run_events K hit child_exit evs s = fold (run_event K hit child_exit) evs s"

text \<open>Calls that no event handler's bookkeeping is about.\<close>

fun quiet :: "kcall \<Rightarrow> bool" where
  "quiet (Copy_from_user n) = True"
| "quiet (Simple_read_from_buffer n pos d m) = True"
| "quiet c = False"

lemma quiet_neutral: "quiet c \<Longrightarrow> probe_neutral c \<and> dentry_neutral c"
  by (cases c) auto

text \<open>How often a handler runs.\<close>

fun hits :: "'h event list \<Rightarrow> nat" where
  "hits [] = 0"
| "hits (Hit i # evs) = Suc (hits evs)"
| "hits (_ # evs) = hits evs"

lemma run_events_simps [simp]:
  "run_events K hit child_exit [] s = s"
  "run_events K hit child_exit (ev # evs) s =
     run_events K hit child_exit evs (run_event K hit child_exit ev s)"
  by (simp_all add: run_events_def)

lemma run_events_invariant:
  assumes hit: "\<And>n i s. I n s \<Longrightarrow> I (Suc n) (hit i s)" and exit: "\<And>n s. I n s \<Longrightarrow> I n (child_exit s)"
    and flag: "\<And>n s x. I n s \<Longrightarrow> I n (s\<lparr>entry := x\<rparr>)"
    and call: "\<And>n c s. quiet c \<Longrightarrow> I n s \<Longrightarrow> I n (kdo K c s)"
    and buf: "\<And>n s. I n s \<Longrightarrow> print_buf s \<noteq> 0" and start: "I n s"
  shows "I (n + hits evs) (run_events K hit child_exit evs s)"
  using start
proof (induction evs arbitrary: n s)
  case Nil
  then show ?case by simp
next
  case (Cons ev evs)
  show ?case
  proof (cases ev)
    case (Hit i)
    then show ?thesis using Cons.IH [of "Suc n"] hit [OF Cons.prems] by simp
  next
    case (Cleanup_written m)
    have "I n (run_event K hit child_exit ev s)"
      using Cleanup_written Cons.prems call [OF _ flag [OF Cons.prems]] exit
      by (simp add: write_cleanup_def case_prod_unfold)
    then show ?thesis using Cleanup_written Cons.IH by simp
  next
    case (Data_read m pos)
    have "I n (run_event K hit child_exit ev s)"
      using Data_read Cons.prems call [OF _ Cons.prems] buf [OF Cons.prems] by (simp add: read_data_def)
    then show ?thesis using Data_read Cons.IH by simp
  qed
qed

lemma entry_frame [frame_simps]:
  "klog (s\<lparr>entry := x\<rparr>) = klog s" "oopsed (s\<lparr>entry := x\<rparr>) = oopsed s"
  "handles (s\<lparr>entry := x\<rparr>) = handles s" "dbfs_ready (s\<lparr>entry := x\<rparr>) = dbfs_ready s"
  by (simp_all add: handles_def dbfs_ready_def)

text \<open>The common case: a loaded module whose bookkeeping \<open>Q\<close> looks at the log of probe calls and at
  the module's own variables.\<close>

lemma loaded_events:
  assumes hit: "\<And>n i u. loaded s u \<Longrightarrow> Q n u \<Longrightarrow> keeps u (hit i u) \<and> Q (Suc n) (hit i u)"
    and exit: "\<And>n u. loaded s u \<Longrightarrow> Q n u \<Longrightarrow> keeps u (child_exit u) \<and> Q n (child_exit u)"
    and flag: "\<And>n u x. Q n u \<Longrightarrow> Q n (u\<lparr>entry := x\<rparr>)"
    and call: "\<And>n c u. quiet c \<Longrightarrow> Q n u \<Longrightarrow> Q n (kdo K c u)"
    and start: "loaded s t" "Q 0 t"
  shows "loaded s (run_events K hit child_exit evs t) \<and> Q (hits evs) (run_events K hit child_exit evs t)"
proof -
  have "loaded s (run_events K hit child_exit evs t)
      \<and> Q (0 + hits evs) (run_events K hit child_exit evs t)"
  proof (rule run_events_invariant [where I = "\<lambda>n u. loaded s u \<and> Q n u"])
    show "loaded s (u\<lparr>entry := x\<rparr>) \<and> Q n (u\<lparr>entry := x\<rparr>)" if "loaded s u \<and> Q n u" for n u x
      using that flag by (simp add: loaded_def frame_simps)
    show "loaded s (kdo K c u) \<and> Q n (kdo K c u)" if "quiet c" "loaded s u \<and> Q n u" for n c u
      using that call quiet_neutral [OF that(1)] loaded_kdo by blast
    show "print_buf u \<noteq> 0" if "loaded s u \<and> Q n u" for n u
      using that by (simp add: loaded_def dbfs_ready_def)
  qed (use hit exit loaded_keeps start in blast)+
  then show ?thesis by simp
qed

section \<open>Modules that clean up\<close>

text \<open>Loading, what happens while the module is loaded, and unloading when the load succeeded.\<close>

definition load_cycle ::
  "('e \<Rightarrow> 's \<Rightarrow> int \<times> 's) \<Rightarrow> ('e \<Rightarrow> 's \<Rightarrow> 's) \<Rightarrow> ('e \<Rightarrow> 's \<Rightarrow> 's) \<Rightarrow> 'e \<Rightarrow> 's \<Rightarrow> 's" where
  "load_cycle insmod work rmmod e s =
     (case insmod e s of (r, t) \<Rightarrow> if r = 0 then rmmod e (work e t) else t)"

text \<open>
  \<open>insmod e\<close> loads the module with the parameters and the kernel of \<open>e\<close>, \<open>work e\<close> is what happens while
  it is loaded, \<open>own e\<close> are the probes it may register.
\<close>

locale clean_module =
  fixes insmod :: "'e \<Rightarrow> 's \<Rightarrow> int \<times> 's"
    and work :: "'e \<Rightarrow> 's \<Rightarrow> 's"
    and rmmod :: "'e \<Rightarrow> 's \<Rightarrow> 's"
    and own :: "'e \<Rightarrow> registration set"
    and entries :: "'s \<Rightarrow> int set"
    and probes :: "'s \<Rightarrow> registration set"
    and crashed :: "'s \<Rightarrow> bool"
  assumes load_fails: "insmod e s = (r, t) \<Longrightarrow> r \<noteq> 0 \<Longrightarrow> entries s = {} \<Longrightarrow>
          probes s \<inter> own e = {} \<Longrightarrow> probes t = probes s"
    and load_unload: "insmod e s = (0, t) \<Longrightarrow> entries s = {} \<Longrightarrow> probes s \<inter> own e = {} \<Longrightarrow>
          probes (rmmod e (work e t)) = probes s \<and> entries (rmmod e (work e t)) = {}
          \<and> crashed (rmmod e (work e t)) = crashed s"
begin

abbreviation cycle :: "'e \<Rightarrow> 's \<Rightarrow> 's" where
  "cycle \<equiv> load_cycle insmod work rmmod"

lemma cycle_probes:
  "entries s = {} \<Longrightarrow> probes s \<inter> own e = {} \<Longrightarrow> probes (cycle e s) = probes s"
  using load_fails [of e s] load_unload [of e s] by (cases "insmod e s") (auto simp: load_cycle_def)

lemma cycle_ok:
  "fst (insmod e s) = 0 \<Longrightarrow> entries s = {} \<Longrightarrow> probes s \<inter> own e = {} \<Longrightarrow>
     probes (cycle e s) = probes s \<and> entries (cycle e s) = {} \<and> crashed (cycle e s) = crashed s"
  using load_unload [of e s] by (cases "insmod e s") (auto simp: load_cycle_def)

text \<open>Any number of successful loads and unloads leaves the machine as it was.\<close>

lemma cycles_ok:
  assumes "\<And>e s. e \<in> set es \<Longrightarrow> fst (insmod e s) = 0" and "entries s = {}"
    and "\<forall>e \<in> set es. probes s \<inter> own e = {}"
  shows "probes (fold cycle es s) = probes s \<and> entries (fold cycle es s) = {}
    \<and> crashed (fold cycle es s) = crashed s"
  using assms
proof (induction es arbitrary: s)
  case Nil
  then show ?case by simp
next
  case (Cons e es)
  have c: "probes (cycle e s) = probes s" "entries (cycle e s) = {}" "crashed (cycle e s) = crashed s"
    using cycle_ok [of e s] Cons.prems by auto
  have "probes (fold cycle es (cycle e s)) = probes (cycle e s)
      \<and> entries (fold cycle es (cycle e s)) = {} \<and> crashed (fold cycle es (cycle e s)) = crashed (cycle e s)"
    by (rule Cons.IH) (use Cons.prems c in auto)
  with c show ?case by simp
qed

end

end
