(* ===== verification/Kunreg_Callback.thy ===== *)
theory Kunreg_Callback
  imports Kunreg Legacy_Module
begin

text \<open>
  \<open>uprobes.w/kunreg.c\<close>, built with \<open>UPROBES_REG_CALLBACK\<close>: loading registers two probes of the older
  interface, on the functions \<open>reg_all\<close> and \<open>unreg_all\<close> of the program \<open>unreg\<close>, whose handlers are
  \<open>register_all\<close> and \<open>unregister_all\<close>. In this configuration \<open>struct uprobe_consumer\<close> has the members
  \<open>pid\<close>, \<open>vaddr\<close> and \<open>handler\<close>; \<open>find_vaddr\<close> is generated and the parameter \<open>fv\<close>.
\<close>

section \<open>Loading and the two handlers\<close>

datatype kunreg_hook = Reg_all | Unreg_all

record kunreg_cb = kunreg +
  hooks :: "int \<Rightarrow> kunreg_hook option"

text \<open>The probe object that \<open>kzalloc\<close> returned.\<close>

abbreviation hook_obj :: "int \<Rightarrow> uobj" where
  "hook_obj u \<equiv> Uobj ''usp'' (nat u)"

definition register_reg_all :: "kernel \<Rightarrow> int \<Rightarrow> (string \<Rightarrow> int) \<Rightarrow> kunreg_cb \<Rightarrow> int option \<times> kunreg_cb" where
  "register_reg_all K pid fv s =
     (case kapi K (Kzalloc (k_sizeof K ''uprobe_consumer'')) s of (usp, s) \<Rightarrow>
        if usp = 0 then (Some (- ENOMEM), u_dbfs_cleanup K s)
        else
          let s = s\<lparr>hooks := (hooks s)(usp := Some Reg_all)\<rparr>;
              s = pr K (''Registering uprobe for reg_all on pid %d, vaddr %#lx[%s]'' @ nl)
                    [ArgD pid, ArgX (fv ''reg_all''), ArgS ''reg_all''] s
          in (case kapi K (Register_uprobe (hook_obj usp) pid (fv ''reg_all'')) s of (ret, s) \<Rightarrow>
                if ret \<noteq> 0 \<and> ret \<noteq> - EINPROGRESS then (Some (- 1), u_dbfs_cleanup K s) else (None, s)))"

definition register_unreg_all :: "kernel \<Rightarrow> int \<Rightarrow> (string \<Rightarrow> int) \<Rightarrow> kunreg_cb \<Rightarrow> int option \<times> kunreg_cb" where
  "register_unreg_all K pid fv s =
     (case kapi K (Kzalloc (k_sizeof K ''uprobe'')) s of (usp, s) \<Rightarrow>
        if usp = 0 then (Some (- ENOMEM), u_dbfs_cleanup K s)
        else
          let s = s\<lparr>hooks := (hooks s)(usp := Some Unreg_all)\<rparr>;
              s = pr K (''Registering uprobe for unreg_all on pid %d, vaddr %#lx[%s]'' @ nl)
                    [ArgD pid, ArgX (fv ''unreg_all''), ArgS ''unreg_all''] s
          in (case kapi K (Register_uprobe (hook_obj usp) pid (fv ''unreg_all'')) s of (ret, s) \<Rightarrow>
                if ret \<noteq> 0 then (Some (- 1), u_dbfs_cleanup K s) else (None, s)))"

definition kunreg_cb_init_module ::
  "stapconf \<Rightarrow> kernel \<Rightarrow> int \<Rightarrow> (string \<Rightarrow> int) \<Rightarrow> kunreg_cb \<Rightarrow> int \<times> kunreg_cb" where
  "kunreg_cb_init_module cf K pid fv s =
     (case init_uprobe cf K s of (r, s) \<Rightarrow>
        if r < 0 then (- 1, s)
        else
          (case u_dbfs_init K ''kunreg'' s of (r, s) \<Rightarrow>
             if r < 0 then (- 1, s)
             else
               (case register_reg_all K pid fv s of
                  (Some rc, s) \<Rightarrow> (rc, s)
                | (None, s) \<Rightarrow> return_0 (register_unreg_all K pid fv s))))"

text \<open>What happens when the program enters \<open>reg_all\<close> or \<open>unreg_all\<close>.\<close>

fun run_hook :: "stapconf \<Rightarrow> kernel \<Rightarrow> symbol list \<Rightarrow> kunreg_hook \<Rightarrow> kunreg_cb \<Rightarrow> kunreg_cb" where
  "run_hook cf K syms Reg_all s = snd (register_all cf K syms s)"
| "run_hook cf K syms Unreg_all s = unregister_all cf K s"

section \<open>Rounds of the program\<close>

text \<open>One round of \<open>unreg\<close>: all probes on, all probes off.\<close>

definition kunreg_round :: "stapconf \<Rightarrow> kernel \<Rightarrow> symbol list \<Rightarrow> kunreg_cb \<Rightarrow> kunreg_cb" where
  "kunreg_round cf K syms s = run_hook cf K syms Unreg_all (run_hook cf K syms Reg_all s)"

text \<open>Calls that leave the probes of the older interface alone.\<close>

fun object_neutral :: "kcall \<Rightarrow> bool" where
  "object_neutral (Register_uprobe u p v) = False"
| "object_neutral (Unregister_uprobe u) = False"
| "object_neutral (Register_uretprobe u p v) = False"
| "object_neutral (Unregister_uretprobe u) = False"
| "object_neutral _ = True"

lemma probe_neutral_object: "probe_neutral c \<Longrightarrow> object_neutral c"
  by (cases c) auto

lemma only_object_claims: "only object_neutral l l' \<Longrightarrow> claims l' = claims l"
proof -
  assume "only object_neutral l l'"
  then obtain es where es: "l' = l @ es" "\<forall>x \<in> set es. object_neutral (fst x)" by (auto simp: only_def)
  have "claim_step R (c, r) = R" if "object_neutral c" for R c r using that by (cases c) auto
  then have "foldl claim_step R es = R" for R using es(2) by (induction es) auto
  then show ?thesis by (simp add: es(1))
qed

lemma only_probe_object: "only probe_neutral l l' \<Longrightarrow> only object_neutral l l'"
  using probe_neutral_object by (auto simp: only_def)

lemma unregister_all_object: "only object_neutral (klog s) (klog (unregister_all cf K s))"
proof -
  have one: "only object_neutral (klog t) (klog (unregister_entry cf K i t))" for i and t :: "'a kunreg_scheme"
    by (simp add: unregister_entry_def uprobe_unregister_def kapi_log split: prod.splits)
  have "only object_neutral (klog t) (klog (fold (unregister_entry cf K) is t))" for "is" and t :: "'a kunreg_scheme"
    by (induction "is" arbitrary: t) (auto intro: only_trans one)
  then show ?thesis unfolding unregister_all_def .
qed

lemma register_one_object:
  assumes "register_one cf K syms n s = (rc, s')"
  shows "only object_neutral (klog s) (klog s')"
proof -
  let ?a = "Kzalloc (k_sizeof K ''uprobe_consumer'')"
  obtain i s2 where f: "find_inode K syms n (kdo K ?a s) = (i, s2)" by fastforce
  have s2: "only object_neutral (klog s) (klog s2)"
    using only_trans [OF only_kdo [of object_neutral ?a s K] only_probe_object [OF find_inode_only [OF f]]] by simp
  have reg: "only object_neutral (klog s) (klog (snd (uprobe_register cf K a b c t)))"
    if "klog t = klog s2" for a b c and t :: "'a kunreg_scheme"
    using only_snoc [OF s2] s2 that by (simp add: uprobe_register_def kapi_log)
  have rec: "klog (record_probe K x t) = klog t" for x and t :: "'a kunreg_scheme"
    by (simp add: record_probe_def Let_def frame_simps)
  show ?thesis
    using assms s2 f
    by (auto simp: register_one_def case_prod_unfold Let_def frame_simps rec reg only_kdo split: if_splits)
qed

lemma register_all_object: "only object_neutral (klog s) (klog (snd (register_all cf K syms s)))"
proof -
  obtain rc s' where e: "each (register_one cf K syms) (globbed syms ''_probe'') (s\<lparr>num_reg_probes := 0\<rparr>) = (rc, s')"
    by fastforce
  have "only object_neutral (klog s) (klog s')"
    by (rule each_invariant [where P = "\<lambda>t. only object_neutral (klog s) (klog t)", OF _ _ e])
      (auto intro: only_trans register_one_object)
  then show ?thesis
    using e by (simp add: register_all_def for_each_glob_globbed return_0_def split: option.splits)
qed

text \<open>A round from a ready state leaves no inode probe behind and the state ready.\<close>

lemma kunreg_round_clean:
  assumes "ready cf s" and "length (globbed syms ''_probe'') < MAX_PROBES"
  shows "ready cf (kunreg_round cf K syms s)"
    "live_probes (klog (kunreg_round cf K syms s)) \<subseteq> live_probes (klog s)"
    "claims (klog (kunreg_round cf K syms s)) = claims (klog s)"
    "oopsed (kunreg_round cf K syms s) = oopsed s"
    "handles (kunreg_round cf K syms s) = handles s"
    "num_reg_probes (kunreg_round cf K syms s) < MAX_PROBES"
proof -
  let ?s = "s\<lparr>num_reg_probes := 0\<rparr>"
  obtain rc t where t: "each (register_one cf K syms) (globbed syms ''_probe'') ?s = (rc, t)" by fastforce
  have r: "snd (register_all cf K syms s) = t"
    using t by (simp add: register_all_def for_each_glob_globbed return_0_def split: option.splits)
  have z: "ready cf ?s" "handles ?s = handles s" "covers (live_probes (klog s)) ?s"
    using assms(1) by (simp_all add: ready_def pointers_ok_def handles_def covers_def)
  from register_loop [OF z(1) t z(3)] assms(2)
  have l: "step_ok cf ?s t" "covers (live_probes (klog s)) t" "num_reg_probes t < MAX_PROBES" by auto
  have rt: "ready cf t" using l(1) by (rule step_ok_ready)
  have b: "num_reg_probes t + 1 \<le> MAX_PROBES" using l(3) by simp
  let ?u = "unregister_all cf K t"
  have e: "kunreg_round cf K syms s = ?u" by (simp add: kunreg_round_def r)
  note u = unregister_prefix [OF rt b, of K, folded unregister_all_def]
  show "ready cf (kunreg_round cf K syms s)" using u by (simp only: e simp_thms)
  show "live_probes (klog (kunreg_round cf K syms s)) \<subseteq> live_probes (klog s)"
    using u l(2) unfolding e covers_def by auto
  show "oopsed (kunreg_round cf K syms s) = oopsed s" "handles (kunreg_round cf K syms s) = handles s"
    using u l(1) z(2) unfolding e step_ok_def by auto
  show "num_reg_probes (kunreg_round cf K syms s) < MAX_PROBES" using u l(3) unfolding e by auto
  show "claims (klog (kunreg_round cf K syms s)) = claims (klog s)"
    using only_object_claims [OF register_all_object [of s cf K syms]] only_object_claims [OF unregister_all_object [of t cf K]]
    by (simp add: e r)
qed


section \<open>What unloading leaves\<close>

lemma kunreg_cb_frame [frame_simps]:
  "hooks (kdo K c s) = hooks s" "hooks (pr K fmt args s) = hooks s"
  by (simp_all add: kapi_def test_printk_def split: prod.splits)

text \<open>A hook that was registered: the state is still ready and one probe more is claimed.\<close>

definition hooked :: "stapconf \<Rightarrow> int \<Rightarrow> kunreg_hook \<Rightarrow> kunreg_cb \<Rightarrow> kunreg_cb \<Rightarrow> bool" where
  "hooked cf u h s t \<longleftrightarrow> ready cf t \<and> handles t = handles s \<and> live_dentries (klog t) = live_dentries (klog s)
     \<and> oopsed t = oopsed s \<and> num_reg_probes t = num_reg_probes s
     \<and> hooks t = (hooks s)(u := Some h) \<and> u \<noteq> 0
     \<and> claims (klog t) = insert (Object_probe (hook_obj u)) (claims (klog s))
     \<and> live_probes (klog t) \<subseteq> insert (Object_probe (hook_obj u)) (live_probes (klog s))"

lemma hooked_step:
  assumes "ready cf s" and "kapi K (Kzalloc n) s = (u, s1)" and "u \<noteq> 0"
    and "kapi K (Register_uprobe (hook_obj u) pid v) (pr K fmt args (s1\<lparr>hooks := (hooks s1)(u := Some h)\<rparr>)) = (ret, t)"
    and "ret = 0 \<or> ret = - EINPROGRESS"
  shows "hooked cf u h s t"
proof -
  have s1: "s1 = kdo K (Kzalloc n) s" using assms(2) by simp
  have h: "handles (s1\<lparr>hooks := f\<rparr>) = handles s1" "ready cf (s1\<lparr>hooks := f\<rparr>) = ready cf s1" for f
    by (simp_all add: handles_def ready_def pointers_ok_def)
  have t: "t = kdo K (Register_uprobe (hook_obj u) pid v) (pr K fmt args (s1\<lparr>hooks := (hooks s1)(u := Some h)\<rparr>))"
    "fst (kapi K (Register_uprobe (hook_obj u) pid v) (pr K fmt args (s1\<lparr>hooks := (hooks s1)(u := Some h)\<rparr>))) = ret"
    using assms(4) by simp_all
  have rdy: "ready cf s1" using assms(1) by (simp add: s1 frame_simps)
  show ?thesis
    using assms(3,5) rdy h t(2) ready_print_buf [OF rdy]
    unfolding hooked_def t(1)
    by (auto simp: s1 frame_simps kapi_log)
qed

lemma register_reg_all_hooked:
  assumes "register_reg_all K pid fv s = (None, t)" and "ready cf s"
  obtains u where "hooked cf u Reg_all s t"
proof -
  obtain u s1 where k: "kapi K (Kzalloc (k_sizeof K ''uprobe_consumer'')) s = (u, s1)" by fastforce
  define s2 where "s2 = pr K (''Registering uprobe for reg_all on pid %d, vaddr %#lx[%s]'' @ nl)
    [ArgD pid, ArgX (fv ''reg_all''), ArgS ''reg_all''] (s1\<lparr>hooks := (hooks s1)(u := Some Reg_all)\<rparr>)"
  obtain ret t' where r: "kapi K (Register_uprobe (hook_obj u) pid (fv ''reg_all'')) s2 = (ret, t')" by fastforce
  have "u \<noteq> 0" "ret = 0 \<or> ret = - EINPROGRESS" "t' = t"
    using assms(1) k r by (auto simp: register_reg_all_def Let_def s2_def split: if_splits)
  then show ?thesis using hooked_step [OF assms(2) k _ r [unfolded s2_def]] that by blast
qed

lemma register_unreg_all_hooked:
  assumes "register_unreg_all K pid fv s = (None, t)" and "ready cf s"
  obtains u where "hooked cf u Unreg_all s t"
proof -
  obtain u s1 where k: "kapi K (Kzalloc (k_sizeof K ''uprobe'')) s = (u, s1)" by fastforce
  define s2 where "s2 = pr K (''Registering uprobe for unreg_all on pid %d, vaddr %#lx[%s]'' @ nl)
    [ArgD pid, ArgX (fv ''unreg_all''), ArgS ''unreg_all''] (s1\<lparr>hooks := (hooks s1)(u := Some Unreg_all)\<rparr>)"
  obtain ret t' where r: "kapi K (Register_uprobe (hook_obj u) pid (fv ''unreg_all'')) s2 = (ret, t')" by fastforce
  have "u \<noteq> 0" "ret = 0 \<or> ret = - EINPROGRESS" "t' = t"
    using assms(1) k r by (auto simp: register_unreg_all_def Let_def s2_def split: if_splits)
  then show ?thesis using hooked_step [OF assms(2) k _ r [unfolded s2_def]] that by blast
qed

lemma kunreg_cb_load:
  assumes "kunreg_cb_init_module cf K pid fv s = (0, t)" and "live_dentries (klog s) = {}"
  obtains a b t0 t1 where "ready cf t0" "live_probes (klog t0) = live_probes (klog s)"
    "claims (klog t0) = claims (klog s)" "oopsed t0 = oopsed s" "live_dentries (klog t0) = handles t0"
    "num_reg_probes t0 = num_reg_probes s" "hooked cf a Reg_all t0 t1" "hooked cf b Unreg_all t1 t"
proof -
  obtain r1 s1 where s1: "init_uprobe cf K s = (r1, s1)" by fastforce
  obtain r2 t0 where t0: "u_dbfs_init K ''kunreg'' s1 = (r2, t0)" by fastforce
  obtain c1 t1 where t1: "register_reg_all K pid fv t0 = (c1, t1)" by fastforce
  obtain c2 t2 where t2: "register_unreg_all K pid fv t1 = (c2, t2)" by fastforce
  have r: "r1 = 0" "r2 = 0"
    using assms(1) s1 t0 init_uprobe_result [OF s1] u_dbfs_init_result [of K "''kunreg''" s1]
    by (auto simp: kunreg_cb_init_module_def split: if_splits prod.splits)
  note ok = s1 [unfolded r(1)] t0 [unfolded r(2)]
  note f1 = init_uprobe_frame [OF ok(1)] and f2 = u_dbfs_init_only [OF ok(2)] and i = u_dbfs_init_ok [OF ok(2)]
  have p: "pointers_ok cf t0" using pmod_same_more(3) [OF f2(2)] init_uprobe_pointers [OF ok(1)] by simp
  have "print_buf t0 \<noteq> 0" using i(1) unfolding buf_ok_def by blast
  then have rdy: "ready cf t0" using i(4) p by (simp add: ready_def)
  have n: "num_reg_probes t0 = num_reg_probes s"
    using f1(5) f2(2) by (cases s, cases s1, cases t0) simp
  have "c1 = None \<and> c2 = None \<and> t2 = t"
    using assms(1) ok t1 t2
    by (auto simp: kunreg_cb_init_module_def return_0_def register_reg_all_def register_unreg_all_def Let_def
        split: option.splits prod.splits if_splits)
  then obtain a b where "hooked cf a Reg_all t0 t1" "hooked cf b Unreg_all t1 t"
    using register_reg_all_hooked [OF _ rdy] register_unreg_all_hooked t1 t2 hooked_def by metis
  moreover have "live_probes (klog t0) = live_probes (klog s)" "claims (klog t0) = claims (klog s)"
    using only_neutral(1) [OF f1(1)] i(5) only_neutral_claims [OF f1(1)] only_neutral_claims [OF f2(1)] by simp_all
  moreover have "oopsed t0 = oopsed s" using f1(4) i(7) by simp
  moreover have "live_dentries (klog t0) = handles t0" using f1(2) i(6) assms(2) by (simp add: handles_def)
  ultimately show ?thesis using rdy n by (intro that)
qed

lemma kunreg_rounds_clean:
  assumes "ready cf t" and "length (globbed syms ''_probe'') < MAX_PROBES" and "num_reg_probes t < MAX_PROBES"
  shows "ready cf ((kunreg_round cf K syms ^^ n) t)
    \<and> live_probes (klog ((kunreg_round cf K syms ^^ n) t)) \<subseteq> live_probes (klog t)
    \<and> claims (klog ((kunreg_round cf K syms ^^ n) t)) = claims (klog t)
    \<and> oopsed ((kunreg_round cf K syms ^^ n) t) = oopsed t
    \<and> num_reg_probes ((kunreg_round cf K syms ^^ n) t) < MAX_PROBES"
proof (induction n)
  case 0
  then show ?case using assms(1,3) by simp
next
  case (Suc n)
  let ?u = "(kunreg_round cf K syms ^^ n) t"
  have "ready cf ?u" using Suc by blast
  note r = kunreg_round_clean [OF this assms(2), of K]
  show ?case
    using Suc r(1-4,6) by (simp only: funpow.simps comp_def) blast
qed

text \<open>(C13) Built with \<open>UPROBES_REG_CALLBACK\<close>, \<open>kunreg\<close> takes back every probe that \<open>reg_all\<close> registered, in
  any number of rounds of the program; but its own two probes, on \<open>reg_all\<close> and \<open>unreg_all\<close>, are kept in
  no variable, so unloading the module leaves both registered with handlers that are gone.\<close>

theorem kunreg_hooks_stay:
  assumes "kunreg_cb_init_module cf K pid fv s = (0, t)" and "live_dentries (klog s) = {}"
    and "length (globbed syms ''_probe'') < MAX_PROBES" and "num_reg_probes s = 0"
  shows "\<exists>a b. a \<noteq> 0 \<and> b \<noteq> 0 \<and> hooks t b = Some Unreg_all \<and> (a \<noteq> b \<longrightarrow> hooks t a = Some Reg_all)
    \<and> live_probes (klog ((kunreg_round cf K syms ^^ n) t)) \<subseteq>
        live_probes (klog s) \<union> {Object_probe (hook_obj a), Object_probe (hook_obj b)}
    \<and> claims (klog (kunreg_cleanup_module cf K ((kunreg_round cf K syms ^^ n) t))) =
        claims (klog s) \<union> {Object_probe (hook_obj a), Object_probe (hook_obj b)}
    \<and> oopsed (kunreg_cleanup_module cf K ((kunreg_round cf K syms ^^ n) t)) = oopsed s"
proof -
  obtain a b t0 t1 where l: "ready cf t0" "live_probes (klog t0) = live_probes (klog s)"
    "claims (klog t0) = claims (klog s)" "oopsed t0 = oopsed s" "num_reg_probes t0 = num_reg_probes s"
    "hooked cf a Reg_all t0 t1" "hooked cf b Unreg_all t1 t"
    by (rule kunreg_cb_load [OF assms(1,2)])
  have t: "ready cf t" "num_reg_probes t < MAX_PROBES" "oopsed t = oopsed s"
    "claims (klog t) = claims (klog s) \<union> {Object_probe (hook_obj a), Object_probe (hook_obj b)}"
    "live_probes (klog t) \<subseteq> live_probes (klog s) \<union> {Object_probe (hook_obj a), Object_probe (hook_obj b)}"
    "a \<noteq> 0 \<and> b \<noteq> 0 \<and> hooks t b = Some Unreg_all \<and> (a \<noteq> b \<longrightarrow> hooks t a = Some Reg_all)"
    using l assms(4) unfolding hooked_def by auto
  let ?u = "(kunreg_round cf K syms ^^ n) t"
  have u: "ready cf ?u" "live_probes (klog ?u) \<subseteq> live_probes (klog t)" "claims (klog ?u) = claims (klog t)"
    "oopsed ?u = oopsed t" "num_reg_probes ?u < MAX_PROBES"
    using kunreg_rounds_clean [OF t(1) assms(3) t(2)] by blast+
  have b: "num_reg_probes ?u + 1 \<le> MAX_PROBES" using u(5) by simp
  have v: "ready cf (unregister_all cf K ?u)" "oopsed (unregister_all cf K ?u) = oopsed ?u"
    using unregister_prefix [OF u(1) b, of K, folded unregister_all_def] by blast+
  have "oopsed (kunreg_cleanup_module cf K ?u) = oopsed s"
    using v(2) u(4) t(3) by (simp add: kunreg_cleanup_module_def u_dbfs_cleanup_ready(3) [OF v(1)])
  moreover have "claims (klog (kunreg_cleanup_module cf K ?u)) = claims (klog t)"
    using only_object_claims [OF unregister_all_object [of ?u cf K]] u(3) by (simp add: kunreg_cleanup_module_def)
  ultimately show ?thesis using t(4-6) u(2) by blast
qed

definition kunreg_cb_zero :: kunreg_cb where
  "kunreg_cb_zero = kunreg.extend kunreg_zero \<lparr>hooks = (\<lambda>_. None)\<rparr>"

lemma kunreg_cb_zero_simps [simp]: "klog kunreg_cb_zero = []" "num_reg_probes kunreg_cb_zero = 0"
  by (simp_all add: kunreg_cb_zero_def kunreg_zero_def pmod_zero_def kunreg.extend_def pmod.extend_def)

theorem kunreg_hooks_stay_witness:
  "\<exists>a b. claims (klog (kunreg_cleanup_module all_exported granting_kernel
        ((kunreg_round all_exported granting_kernel sample_syms ^^ 3)
          (snd (kunreg_cb_init_module all_exported granting_kernel 7 (\<lambda>_. 64) kunreg_cb_zero))))) =
      {Object_probe (hook_obj a), Object_probe (hook_obj b)}"
proof -
  let ?r = "kunreg_cb_init_module all_exported granting_kernel 7 (\<lambda>_. 64) kunreg_cb_zero"
  have g: "register_reg_all granting_kernel p v s = (None, snd (register_reg_all granting_kernel p v s))"
    "register_unreg_all granting_kernel p v s = (None, snd (register_unreg_all granting_kernel p v s))" for p v s
    by (simp_all add: prod_eq_iff register_reg_all_def register_unreg_all_def kapi_def Let_def)
  have "fst ?r = 0"
    using setup_grants(1) [OF granting_kernel_obliging(1), of all_exported kunreg_cb_zero]
      setup_grants(2) [OF granting_kernel_obliging(1), of "''kunreg''"
        "snd (init_uprobe all_exported granting_kernel kunreg_cb_zero)"]
    by (simp add: kunreg_cb_init_module_def case_prod_unfold g [THEN arg_cong [where f = fst]] return_0_def
        split: option.splits)
  then have "?r = (0, snd ?r)" by (simp add: prod_eq_iff)
  from kunreg_hooks_stay [OF this, of sample_syms 3] show ?thesis by (auto simp: globbed_sample)
qed

end
