(* ===== verification/User_Threads.thy ===== *)
theory User_Threads
  imports Probe_Handler
begin

text \<open>
  The multi-threaded programs of \<open>uprobes.w\<close> that the modules probe: \<open>uthread.c\<close>, \<open>suicide.c\<close>,
  \<open>tdie.c\<close>, \<open>texec.c\<close>, \<open>unreg.c\<close>, \<open>fork_thread.c\<close> and \<open>fork_and_defunc.c\<close>. A thread
  function runs its calls of \<open>probe_N\<close> on its own table of ten slots, at the address \<open>tbl\<close> that
  \<open>calloc\<close> returned; that other threads do not disturb it is what the schedules of
  \<open>Probe_Handler\<close> show. A \<open>main\<close> starts its threads, joins them in order and reports a verdict;
  whether \<open>pthread_create\<close> and \<open>pthread_join\<close> succeed is an argument. A thread that ends the
  process takes effect where \<open>main\<close> joins it. \<open>sleep\<close> changes no state. Debug output is
  compiled out.
\<close>

section \<open>Threads\<close>

abbreviation NUM_PROBES :: nat where
  "NUM_PROBES \<equiv> 10"

abbreviation MAX_THREADS :: nat where
  "MAX_THREADS \<equiv> 1000"

abbreviation SIGSEGV :: int where
  "SIGSEGV \<equiv> 11"

text \<open>\<open>probe_j(&probe_table[j])\<close>.\<close>

definition call_probe :: "data_model \<Rightarrow> 'k hook \<Rightarrow> int \<Rightarrow> nat \<Rightarrow> nat \<Rightarrow> 'k \<times> mem \<Rightarrow> outcome \<times> 'k \<times> mem" where
  "call_probe dm hook tid tbl j w = probe dm hook tid (slot_addr dm tbl j) w"

text \<open>\<open>if ((error=probe_j(...))<0) break;\<close> and the checks of the other programs. A call that does not
  return ends the thread.\<close>

definition check_call ::
  "(int \<Rightarrow> bool) \<Rightarrow> (nat \<Rightarrow> 'w \<Rightarrow> outcome \<times> 'w) \<Rightarrow> nat \<Rightarrow> 'w \<Rightarrow> outcome option \<times> 'w" where
  "check_call bad call j w =
     (case call j w of
        (Returned e, w) \<Rightarrow> (if bad e then Some (Returned e) else None, w)
      | (out, w) \<Rightarrow> (Some out, w))"

definition until_negative :: "(nat \<Rightarrow> 'w \<Rightarrow> outcome \<times> 'w) \<Rightarrow> nat list \<Rightarrow> 'w \<Rightarrow> outcome option \<times> 'w" where
  "until_negative call js = each (check_call (\<lambda>e. e < 0) call) js"

text \<open>The thread returns 0 when no check stopped it.\<close>

definition thread_result :: "outcome option \<times> 'w \<Rightarrow> outcome \<times> 'w" where
  "thread_result p = (case p of (Some out, w) \<Rightarrow> (out, w) | (None, w) \<Rightarrow> (Returned 0, w))"

definition with_table :: "data_model \<Rightarrow> nat \<Rightarrow> 'k \<times> mem \<Rightarrow> 'k \<times> mem" where
  "with_table dm tbl w = (case w of (k, m) \<Rightarrow> (k, build_probe_table dm tbl NUM_PROBES m))"

text \<open>\<open>thread_1\<close> of \<open>uthread.c\<close>, and the same function in \<open>tdie.c\<close> and, with a \<open>sleep\<close>, in \<open>texec.c\<close>.\<close>

definition thread_1 ::
  "data_model \<Rightarrow> 'k hook \<Rightarrow> int \<Rightarrow> nat \<Rightarrow> int \<Rightarrow> 'k \<times> mem \<Rightarrow> outcome \<times> 'k \<times> mem" where
  "thread_1 dm hook tid tbl cnt w =
     thread_result (each (\<lambda>i. until_negative (call_probe dm hook tid tbl) [0..<10]) [0..<nat cnt]
       (with_table dm tbl w))"

definition tdie_thread_1 ::
  "data_model \<Rightarrow> 'k hook \<Rightarrow> int \<Rightarrow> nat \<Rightarrow> int \<Rightarrow> 'k \<times> mem \<Rightarrow> outcome \<times> 'k \<times> mem" where
  "tdie_thread_1 dm hook tid tbl cnt w = thread_1 dm hook tid tbl cnt w"

definition texec_thread_1 ::
  "data_model \<Rightarrow> 'k hook \<Rightarrow> int \<Rightarrow> nat \<Rightarrow> int \<Rightarrow> 'k \<times> mem \<Rightarrow> outcome \<times> 'k \<times> mem" where
  "texec_thread_1 dm hook tid tbl cnt w = thread_1 dm hook tid tbl cnt w"

text \<open>\<open>thread_1\<close> of \<open>suicide.c\<close> leaves \<open>probe_9\<close> to \<open>suicide_thread\<close>.\<close>

definition suicide_thread_1 ::
  "data_model \<Rightarrow> 'k hook \<Rightarrow> int \<Rightarrow> nat \<Rightarrow> int \<Rightarrow> 'k \<times> mem \<Rightarrow> outcome \<times> 'k \<times> mem" where
  "suicide_thread_1 dm hook tid tbl cnt w =
     thread_result (each (\<lambda>i. until_negative (call_probe dm hook tid tbl) [0..<9]) [0..<nat cnt]
       (with_table dm tbl w))"

definition suicide_thread ::
  "data_model \<Rightarrow> 'k hook \<Rightarrow> int \<Rightarrow> nat \<Rightarrow> 'k \<times> mem \<Rightarrow> outcome \<times> 'k \<times> mem" where
  "suicide_thread dm hook tid tbl w =
     thread_result (check_call (\<lambda>e. False) (call_probe dm hook tid tbl) 9 (with_table dm tbl w))"

text \<open>\<open>thread_die\<close> writes to address 1.\<close>

definition thread_die :: "'w \<Rightarrow> outcome \<times> 'w" where
  "thread_die w = (Killed SIGSEGV, w)"

text \<open>\<open>exec_thread\<close>: \<open>exec_ok\<close> says whether \<open>execl\<close> succeeds; when it does not, the function runs off
  its end and \<open>junk\<close> is what the caller finds.\<close>

definition exec_thread ::
  "data_model \<Rightarrow> 'k hook \<Rightarrow> int \<Rightarrow> nat \<Rightarrow> bool \<Rightarrow> int \<Rightarrow> 'k \<times> mem \<Rightarrow> outcome \<times> 'k \<times> mem" where
  "exec_thread dm hook tid tbl exec_ok junk w =
     (case check_call (\<lambda>e. e < 0) (call_probe dm hook tid tbl) 0 (with_table dm tbl w) of
        (Some out, w) \<Rightarrow> (out, w)
      | (None, w) \<Rightarrow> (if exec_ok then Replaced ''sleep 5'' else Returned junk, w))"

text \<open>The two threads of \<open>unreg.c\<close>.\<close>

definition unreg_thread_1 ::
  "data_model \<Rightarrow> 'k hook \<Rightarrow> int \<Rightarrow> nat \<Rightarrow> 'k \<times> mem \<Rightarrow> outcome \<times> 'k \<times> mem" where
  "unreg_thread_1 dm hook tid tbl w =
     thread_result (until_negative (call_probe dm hook tid tbl) [0..<10] (with_table dm tbl w))"

definition unreg_thread_2 ::
  "data_model \<Rightarrow> 'k hook \<Rightarrow> int \<Rightarrow> nat \<Rightarrow> 'k \<times> mem \<Rightarrow> outcome \<times> 'k \<times> mem" where
  "unreg_thread_2 dm hook tid tbl w =
     thread_result (each (check_call (\<lambda>e. e \<noteq> - 1) (call_probe dm hook tid tbl)) [0..<10]
       (with_table dm tbl w))"

section \<open>Forking threads\<close>

text \<open>The child: a copy of the memory, its own thread id, and its own hook, since it depends on the
  kernel whether breakpoints are inherited.\<close>

definition child_run ::
  "data_model \<Rightarrow> 'k hook \<Rightarrow> int \<Rightarrow> nat \<Rightarrow> int \<Rightarrow> 'k \<times> mem \<Rightarrow> outcome \<times> 'k \<times> mem" where
  "child_run dm hook tid tbl cnt w =
     (case each (\<lambda>i. check_call (\<lambda>e. e \<noteq> - 1) (call_probe dm hook tid tbl) 0) [0..<nat cnt] w of
        (Some (Returned e), w) \<Rightarrow> (Exited 1 '''', w)
      | (Some out, w) \<Rightarrow> (out, w)
      | (None, w) \<Rightarrow> (Exited 0 '''', w))"

text \<open>\<open>WEXITSTATUS\<close> of the status that \<open>wait\<close> stores: 0 for a child that a signal killed.\<close>

fun exit_status :: "outcome \<Rightarrow> int" where
  "exit_status (Exited s msg) = s mod 256"
| "exit_status out = 0"

text \<open>What \<open>fork\<close> did: it failed, and \<open>wait\<close> leaves the uninitialised \<open>status\<close>, whose exit code is
  \<open>stale\<close>; or it made a child with this id and hook. The child's hits are put before the parent
  continues after \<open>wait\<close>.\<close>

datatype 'k forked = Fork_failed int | Fork_child int "'k hook"

definition fork_thread ::
  "data_model \<Rightarrow> 'k hook \<Rightarrow> 'k forked \<Rightarrow> int \<Rightarrow> nat \<Rightarrow> int \<Rightarrow> 'k \<times> mem \<Rightarrow> outcome \<times> 'k \<times> mem" where
  "fork_thread dm hook fk tid tbl cnt w =
     (case with_table dm tbl w of (k, m) \<Rightarrow>
        let count = each (\<lambda>i. check_call (\<lambda>e. e < 0) (call_probe dm hook tid tbl) 0) [0..<nat cnt] in
        (case count (k, m) of
           (Some out, w) \<Rightarrow> (out, w)
         | (None, k1, m1) \<Rightarrow>
             (case (case fk of
                      Fork_failed stale \<Rightarrow> (stale, k1)
                    | Fork_child ctid chook \<Rightarrow>
                        (case child_run dm chook ctid tbl cnt (k1, m) of (out, k2, _) \<Rightarrow>
                           (exit_status out, k2))) of
                (code, k2) \<Rightarrow>
                  (case count (k2, m1) of
                     (Some out, w) \<Rightarrow> (out, w)
                   | (None, w) \<Rightarrow> (if code \<noteq> 0 then Returned code else Returned 0, w)))))"

text \<open>\<open>fork_thread\<close> of \<open>fork_and_defunc.c\<close>: the parent does not wait and leaves the process; the child
  is \<open>defunc_child\<close>.\<close>

definition defunc_thread ::
  "data_model \<Rightarrow> 'k hook \<Rightarrow> int \<Rightarrow> nat \<Rightarrow> int \<Rightarrow> 'k \<times> mem \<Rightarrow> outcome \<times> 'k \<times> mem" where
  "defunc_thread dm hook tid tbl cnt w =
     (case each (\<lambda>i. check_call (\<lambda>e. e < 0) (call_probe dm hook tid tbl) 0) [0..<nat cnt]
         (with_table dm tbl w) of
        (Some out, w) \<Rightarrow> (out, w)
      | (None, w) \<Rightarrow> (Exited 0 '''', w))"

text \<open>Its child: the same loop, in the copy of the memory that \<open>fork\<close> made.\<close>

definition defunc_child ::
  "data_model \<Rightarrow> 'k hook \<Rightarrow> int \<Rightarrow> nat \<Rightarrow> int \<Rightarrow> 'k \<times> mem \<Rightarrow> outcome \<times> 'k \<times> mem" where
  "defunc_child dm hook tid tbl cnt w = child_run dm hook tid tbl cnt (with_table dm tbl w)"

section \<open>The main functions\<close>

definition usage :: "string list \<Rightarrow> outcome" where
  "usage argv =
     Exited 1 (''Usage: '' @ (case argv of [] \<Rightarrow> ''(null)'' | name # _ \<Rightarrow> name)
       @ '' number_of_threads num_iterations'' @ nl)"

text \<open>\<open>argc != 3 || (num_threads = atoi(argv[1])) <= 0 || (niter = atoi(argv[2])) <= 0\<close>: the two numbers, when
  the check passes.\<close>

fun parse_args :: "string list \<Rightarrow> (int \<times> int) option" where
  "parse_args [name, a, b] = (if atoi a \<le> 0 then None else if atoi b \<le> 0 then None else Some (atoi a, atoi b))"
| "parse_args argv = None"

text \<open>The loop that starts the threads: \<open>thread\<close> has \<open>MAX_THREADS\<close> entries, and nothing compares
  \<open>num_threads\<close> with that.\<close>

fun create_all :: "(nat \<Rightarrow> bool) \<Rightarrow> nat list \<Rightarrow> outcome option" where
  "create_all create_ok [] = None"
| "create_all create_ok (i # is) =
     (if MAX_THREADS \<le> i then Some Undefined
      else if \<not> create_ok i then Some (report_test_fail ''pthread_create failed'')
      else create_all create_ok is)"

text \<open>The loop that joins them: \<open>None\<close> when all were joined with the result 0.\<close>

fun join_all :: "(nat \<Rightarrow> bool) \<Rightarrow> nat \<Rightarrow> outcome list \<Rightarrow> outcome option" where
  "join_all join_ok i [] = None"
| "join_all join_ok i (Returned e # outs) =
     (if \<not> join_ok i then Some (report_test_fail (''pthread_join returned an error'' @ nl))
      else if e \<noteq> 0 then Some report_fail
      else join_all join_ok (Suc i) outs)"
| "join_all join_ok i (out # outs) = Some out"

definition run_threads :: "(nat \<Rightarrow> bool) \<Rightarrow> (nat \<Rightarrow> bool) \<Rightarrow> nat \<Rightarrow> (nat \<Rightarrow> outcome) \<Rightarrow> outcome option" where
  "run_threads create_ok join_ok n outs =
     (case create_all create_ok [0..<n] of
        Some out \<Rightarrow> Some out
      | None \<Rightarrow> join_all join_ok 0 (map outs [0..<n]))"

text \<open>\<open>main\<close> of \<open>uthread.c\<close>; \<open>outs niter i\<close> is how thread \<open>i\<close> ends. \<open>wait_for_kthread\<close> stops the process until the module is loaded.\<close>

definition uthread_main ::
  "string list \<Rightarrow> (nat \<Rightarrow> bool) \<Rightarrow> (nat \<Rightarrow> bool) \<Rightarrow> (int \<Rightarrow> nat \<Rightarrow> outcome) \<Rightarrow> outcome" where
  "uthread_main argv create_ok join_ok outs =
     (case parse_args argv of
        None \<Rightarrow> usage argv
      | Some (num_threads, niter) \<Rightarrow>
          (case run_threads create_ok join_ok (nat num_threads) (outs niter) of
             Some out \<Rightarrow> out
           | None \<Rightarrow> report_pass))"

text \<open>The \<open>main\<close> functions of \<open>fork_thread.c\<close> and \<open>fork_and_defunc.c\<close> start their own thread function in
  the same way.\<close>

definition fork_thread_main ::
  "string list \<Rightarrow> (nat \<Rightarrow> bool) \<Rightarrow> (nat \<Rightarrow> bool) \<Rightarrow> (int \<Rightarrow> nat \<Rightarrow> outcome) \<Rightarrow> outcome" where
  "fork_thread_main argv create_ok join_ok outs = uthread_main argv create_ok join_ok outs"

definition fork_and_defunc_main ::
  "string list \<Rightarrow> (nat \<Rightarrow> bool) \<Rightarrow> (nat \<Rightarrow> bool) \<Rightarrow> (int \<Rightarrow> nat \<Rightarrow> outcome) \<Rightarrow> outcome" where
  "fork_and_defunc_main argv create_ok join_ok outs = uthread_main argv create_ok join_ok outs"

text \<open>\<open>main\<close> of \<open>suicide.c\<close>, \<open>tdie.c\<close> and \<open>texec.c\<close>: the last thread runs another function.\<close>

definition last_thread_main ::
  "string list \<Rightarrow> (nat \<Rightarrow> bool) \<Rightarrow> (nat \<Rightarrow> bool) \<Rightarrow> (int \<Rightarrow> nat \<Rightarrow> outcome) \<Rightarrow> outcome \<Rightarrow> outcome" where
  "last_thread_main argv create_ok join_ok outs last_out =
     (case parse_args argv of
        None \<Rightarrow> usage argv
      | Some (num_threads, niter) \<Rightarrow>
          (case run_threads create_ok join_ok (nat num_threads)
                  (\<lambda>i. if i < nat num_threads - 1 then outs niter i else last_out) of
             Some out \<Rightarrow> out
           | None \<Rightarrow> report_pass))"

definition tdie_main ::
  "string list \<Rightarrow> (nat \<Rightarrow> bool) \<Rightarrow> (nat \<Rightarrow> bool) \<Rightarrow> (int \<Rightarrow> nat \<Rightarrow> outcome) \<Rightarrow> outcome" where
  "tdie_main argv create_ok join_ok outs =
     last_thread_main argv create_ok join_ok outs (fst (thread_die ()))"

definition texec_main ::
  "string list \<Rightarrow> (nat \<Rightarrow> bool) \<Rightarrow> (nat \<Rightarrow> bool) \<Rightarrow> (int \<Rightarrow> nat \<Rightarrow> outcome) \<Rightarrow> outcome \<Rightarrow> outcome" where
  "texec_main argv create_ok join_ok outs exec_out = last_thread_main argv create_ok join_ok outs exec_out"

text \<open>\<open>main\<close> of \<open>unreg.c\<close>: in round \<open>j\<close>, the threads of \<open>thread_1\<close> end as \<open>outs1 j\<close> and those of
  \<open>thread_2\<close> as \<open>outs2 j\<close>. The calls of \<open>reg_all\<close> and \<open>unreg_all\<close> are probe points; the functions
  do nothing.\<close>

fun unreg_rounds ::
  "(nat \<Rightarrow> bool) \<Rightarrow> (nat \<Rightarrow> bool) \<Rightarrow> nat \<Rightarrow> (nat \<Rightarrow> nat \<Rightarrow> outcome) \<Rightarrow> (nat \<Rightarrow> nat \<Rightarrow> outcome) \<Rightarrow>
   nat list \<Rightarrow> outcome" where
  "unreg_rounds create_ok join_ok n outs1 outs2 [] = report_pass"
| "unreg_rounds create_ok join_ok n outs1 outs2 (j # js) =
     (case run_threads create_ok join_ok n (outs1 j) of
        Some out \<Rightarrow> out
      | None \<Rightarrow>
          (case run_threads create_ok join_ok n (outs2 j) of
             Some out \<Rightarrow> out
           | None \<Rightarrow> unreg_rounds create_ok join_ok n outs1 outs2 js))"

definition unreg_main ::
  "string list \<Rightarrow> (nat \<Rightarrow> bool) \<Rightarrow> (nat \<Rightarrow> bool) \<Rightarrow> (nat \<Rightarrow> nat \<Rightarrow> outcome) \<Rightarrow> (nat \<Rightarrow> nat \<Rightarrow> outcome) \<Rightarrow>
   outcome" where
  "unreg_main argv create_ok join_ok outs1 outs2 =
     (case parse_args argv of
        None \<Rightarrow> usage argv
      | Some (num_threads, niter) \<Rightarrow>
          unreg_rounds create_ok join_ok (nat num_threads) outs1 outs2 [0..<nat niter])"

section \<open>Threads under a slot protocol\<close>

text \<open>The environment of a thread serves the first \<open>n\<close> slots of its table.\<close>

definition serves :: "data_model \<Rightarrow> ('e \<Rightarrow> nat \<Rightarrow> bool) \<Rightarrow> ('e \<Rightarrow> nat \<Rightarrow> bool) \<Rightarrow> 'e \<Rightarrow> nat \<Rightarrow> nat \<Rightarrow> bool" where
  "serves dm good frame e tbl n \<longleftrightarrow>
     (\<forall>j < n. good e (slot_addr dm tbl j)
        \<and> (\<forall>x. frame e x \<longrightarrow> x < slot_addr dm tbl j \<or> slot_addr dm tbl j + sizeof_uinfo dm \<le> x))"

abbreviation table_slots :: "data_model \<Rightarrow> nat \<Rightarrow> nat \<Rightarrow> nat set" where
  "table_slots dm tbl n \<equiv> slot_addr dm tbl ` {..<n}"

lemma slot_addr_inj: "slot_addr dm tbl i = slot_addr dm tbl j \<longleftrightarrow> i = j"
proof
  assume eq: "slot_addr dm tbl i = slot_addr dm tbl j"
  have "0 < sizeof_uinfo dm" by (cases dm) simp_all
  then show "i = j"
    using eq slot_addr_disjoint [of i j dm tbl] slot_addr_disjoint [of j i dm tbl]
    by (cases i j rule: linorder_cases) auto
qed simp

context slot_protocol
begin

lemma table_apart: "apart (table_slots dm tbl n)"
  unfolding apart_def
proof (intro ballI impI)
  fix p q assume "p \<in> table_slots dm tbl n" "q \<in> table_slots dm tbl n" "p \<noteq> q"
  then obtain i j where "p = slot_addr dm tbl i" "q = slot_addr dm tbl j" "i \<noteq> j" by auto
  then show "p + sizeof_uinfo dm \<le> q \<or> q + sizeof_uinfo dm \<le> p"
    using slot_addr_disjoint [of i j dm tbl] slot_addr_disjoint [of j i dm tbl]
    by (cases i j rule: linorder_cases) auto
qed

lemma table_call_ok:
  assumes "serves dm good frame e tbl n" and "j < n" and "0 < tid" "tid < 2147483648"
  shows "call_ok (table_slots dm tbl n) (\<lambda>_. tid) (e, tid, slot_addr dm tbl j)"
  using assms unfolding call_ok_def serves_def by blast

lemma table_fresh:
  "n \<le> 10 \<Longrightarrow> slots_at (table_slots dm tbl n) (\<lambda>_. tid) (\<lambda>_. 0) (build_probe_table dm tbl 10 m)"
  unfolding slots_at_def using build_probe_table_fresh [of _ 10 dm tbl m] st_fresh by fastforce

text \<open>One pass over distinct slots that all have the count \<open>c\<close>.\<close>

lemma pass_row:
  assumes srv: "serves dm good frame e tbl n" and tid: "0 < tid" "tid < 2147483648"
    and bad: "\<not> bad (ret c)" and c: "c < 2147483648"
    and js: "distinct js" "set js \<subseteq> {..<n}"
    and at: "\<forall>j \<in> set js. cf (slot_addr dm tbl j) = c"
    and sl: "slots_at (table_slots dm tbl n) (\<lambda>_. tid) cf m"
  shows "\<exists>k' m'. each (check_call bad (call_probe dm (hook e) tid tbl)) js (k, m) = (None, k', m')
    \<and> slots_at (table_slots dm tbl n) (\<lambda>_. tid)
        (\<lambda>p. if p \<in> slot_addr dm tbl ` set js then Suc c else cf p) m'"
  using js at sl
proof (induction js arbitrary: k m cf)
  case Nil
  then show ?case by simp
next
  case (Cons j js)
  let ?p = "slot_addr dm tbl j"
  have j: "j < n" "cf ?p = c" using Cons.prems(2,3) by auto
  have "cf ?p < 2147483648" using j(2) c by simp
  from call_step [OF table_apart table_call_ok [OF srv j(1) tid] this Cons.prems(4), of k]
  obtain k1 m1 where s: "probe dm (hook e) tid ?p (k, m) = (Returned (ret c), k1, m1)"
    "slots_at (table_slots dm tbl n) (\<lambda>_. tid) (cf(?p := Suc c)) m1"
    using j(2) by auto
  have "\<forall>i \<in> set js. (cf(?p := Suc c)) (slot_addr dm tbl i) = c"
    using Cons.prems(1,3) by (auto simp: slot_addr_inj)
  with Cons.IH [OF _ _ this s(2), of k1] Cons.prems(1,2) obtain k' m' where
    r: "each (check_call bad (call_probe dm (hook e) tid tbl)) js (k1, m1) = (None, k', m')"
      "slots_at (table_slots dm tbl n) (\<lambda>_. tid)
        (\<lambda>p. if p \<in> slot_addr dm tbl ` set js then Suc c else (cf(?p := Suc c)) p) m'" by auto
  have "(\<lambda>p. if p \<in> slot_addr dm tbl ` set js then Suc c else (cf(?p := Suc c)) p) =
      (\<lambda>p. if p \<in> slot_addr dm tbl ` set (j # js) then Suc c else cf p)" by auto
  moreover have "check_call bad (call_probe dm (hook e) tid tbl) j (k, m) = (None, k1, m1)"
    using s(1) bad by (simp add: check_call_def call_probe_def)
  ultimately show ?case using r by simp
qed

lemma stop_row:
  assumes srv: "serves dm good frame e tbl n" and tid: "0 < tid" "tid < 2147483648"
    and bad: "bad (ret c)" and c: "c < 2147483648" and j: "j < n"
    and at: "cf (slot_addr dm tbl j) = c"
    and sl: "slots_at (table_slots dm tbl n) (\<lambda>_. tid) cf m"
  shows "fst (each (check_call bad (call_probe dm (hook e) tid tbl)) (j # js) (k, m)) = Some (Returned (ret c))"
proof -
  have "cf (slot_addr dm tbl j) < 2147483648" using at c by simp
  from call_step [OF table_apart table_call_ok [OF srv j tid] this sl, of k]
  obtain k1 m1 where "probe dm (hook e) tid (slot_addr dm tbl j) (k, m) = (Returned (ret c), k1, m1)"
    using at by auto
  then show ?thesis using bad by (simp add: check_call_def call_probe_def)
qed

text \<open>Rounds over the first \<open>n\<close> slots: they go on while no check objects, and stop at the first call of the
  first round whose count is objected to.\<close>

lemma rounds_pass:
  assumes srv: "serves dm good frame e tbl n" and tid: "0 < tid" "tid < 2147483648"
    and good: "\<forall>i < r. \<not> bad (ret (c + i))" and c: "c + r \<le> 2147483648"
    and sl: "slots_at (table_slots dm tbl n) (\<lambda>_. tid) (\<lambda>_. c) m"
  shows "\<exists>k' m'. each (\<lambda>i. each (check_call bad (call_probe dm (hook e) tid tbl)) [0..<n]) [0..<r] (k, m) = (None, k', m')
    \<and> slots_at (table_slots dm tbl n) (\<lambda>_. tid) (\<lambda>_. c + r) m'"
  using good c
proof (induction r)
  case 0
  then show ?case using sl by simp
next
  case (Suc r)
  then obtain k1 m1 where s: "each (\<lambda>i. each (check_call bad (call_probe dm (hook e) tid tbl)) [0..<n]) [0..<r] (k, m)
      = (None, k1, m1)" "slots_at (table_slots dm tbl n) (\<lambda>_. tid) (\<lambda>_. c + r) m1" by fastforce
  have "\<not> bad (ret (c + r))" "c + r < 2147483648" using Suc.prems by auto
  from pass_row [where bad = bad and c = "c + r" and js = "[0..<n]" and cf = "\<lambda>_. c + r" and m = m1
      and k = k1, OF srv tid this] s(2) obtain k' m' where
    r: "each (check_call bad (call_probe dm (hook e) tid tbl)) [0..<n] (k1, m1) = (None, k', m')"
      "slots_at (table_slots dm tbl n) (\<lambda>_. tid)
        (\<lambda>p. if p \<in> slot_addr dm tbl ` set [0..<n] then Suc (c + r) else c + r) m'" by (auto simp: atLeast0LessThan)
  from r(2) have "slots_at (table_slots dm tbl n) (\<lambda>_. tid) (\<lambda>_. c + Suc r) m'"
    by (auto simp: slots_at_def)
  with s(1) r(1) show ?case by (simp add: each_append)
qed

lemma rounds_stop:
  assumes srv: "serves dm good frame e tbl n" and tid: "0 < tid" "tid < 2147483648" and n: "0 < n"
    and good: "\<forall>i < q. \<not> bad (ret (c + i))" and stop: "bad (ret (c + q))" "q < r"
    and c: "c + q < 2147483648"
    and sl: "slots_at (table_slots dm tbl n) (\<lambda>_. tid) (\<lambda>_. c) m"
  shows "fst (each (\<lambda>i. each (check_call bad (call_probe dm (hook e) tid tbl)) [0..<n]) [0..<r] (k, m))
    = Some (Returned (ret (c + q)))"
proof -
  obtain k1 m1 where s: "each (\<lambda>i. each (check_call bad (call_probe dm (hook e) tid tbl)) [0..<n]) [0..<q] (k, m)
      = (None, k1, m1)" "slots_at (table_slots dm tbl n) (\<lambda>_. tid) (\<lambda>_. c + q) m1"
    using rounds_pass [OF srv tid good _ sl, of k] c by fastforce
  have "[0..<n] = 0 # [1..<n]" using n by (simp add: upt_conv_Cons)
  then have row: "fst (each (check_call bad (call_probe dm (hook e) tid tbl)) [0..<n] (k1, m1)) = Some (Returned (ret (c + q)))"
    using stop_row [where bad = bad and c = "c + q" and cf = "\<lambda>_. c + q" and j = 0 and js = "[1..<n]" and k = k1,
        OF srv tid stop(1) c n refl s(2)] by simp
  have "[0..<r] = [0..<q] @ q # [Suc q..<r]"
    using stop(2) upt_add_eq_append [of 0 q "r - q"] by (simp add: upt_conv_Cons)
  then show ?thesis
    using s(1) row by (simp add: each_append case_prod_unfold)
qed

text \<open>The same for one slot that is called again and again.\<close>

lemma repeat_pass:
  assumes srv: "serves dm good frame e tbl 1" and tid: "0 < tid" "tid < 2147483648"
    and good: "\<forall>i < r. \<not> bad (ret (c + i))" and c: "c + r \<le> 2147483648"
    and sl: "slots_at (table_slots dm tbl 1) (\<lambda>_. tid) (\<lambda>_. c) m"
  shows "\<exists>k' m'. each (\<lambda>i. check_call bad (call_probe dm (hook e) tid tbl) 0) [0..<r] (k, m) = (None, k', m')
    \<and> slots_at (table_slots dm tbl 1) (\<lambda>_. tid) (\<lambda>_. c + r) m'"
proof -
  have "each (check_call bad (call_probe dm (hook e) tid tbl)) [0..<1] =
      check_call bad (call_probe dm (hook e) tid tbl) 0"
    by (rule ext) (simp split: prod.splits option.splits)
  then show ?thesis using rounds_pass [OF assms, of k] by simp
qed

lemma repeat_stop:
  assumes srv: "serves dm good frame e tbl 1" and tid: "0 < tid" "tid < 2147483648"
    and good: "\<forall>i < q. \<not> bad (ret (c + i))" and stop: "bad (ret (c + q))" "q < r"
    and c: "c + q < 2147483648"
    and sl: "slots_at (table_slots dm tbl 1) (\<lambda>_. tid) (\<lambda>_. c) m"
  shows "fst (each (\<lambda>i. check_call bad (call_probe dm (hook e) tid tbl) 0) [0..<r] (k, m))
    = Some (Returned (ret (c + q)))"
proof -
  have "each (check_call bad (call_probe dm (hook e) tid tbl)) [0..<1] =
      check_call bad (call_probe dm (hook e) tid tbl) 0"
    by (rule ext) (simp split: prod.splits option.splits)
  then show ?thesis using rounds_stop [OF srv tid _ good stop c sl, of k] by simp
qed

end

section \<open>Threads on each build\<close>

text \<open>A process without breakpoints also follows a protocol: \<open>kcount\<close> stays at -1, which every call
  returns.\<close>

definition unprobed_slot :: "data_model \<Rightarrow> nat \<Rightarrow> int \<Rightarrow> nat \<Rightarrow> mem \<Rightarrow> bool" where
  "unprobed_slot dm p tid c m \<longleftrightarrow>
     rd dm Kcount p m = ulong_max dm \<and> rd_pid dm Utid p m = (if c = 0 then 0 else tid)"

lemma c_int_ulong_max: "c_int (int (ulong_max dm)) = - 1"
  by (cases dm) (simp_all add: ulong_max_def wrap_s_def)

lemma unprobed_slot_cong:
  assumes "\<And>x. p \<le> x \<Longrightarrow> x < p + sizeof_uinfo dm \<Longrightarrow> m x = m' x"
  shows "unprobed_slot dm p tid c m = unprobed_slot dm p tid c m'"
proof -
  have "rd dm f p m = rd dm f p m'" for f using assms by (rule rd_cong)
  then show ?thesis by (simp add: unprobed_slot_def rd_pid_def)
qed

lemma unprobed_slot_fresh: "fresh_slot dm p m \<Longrightarrow> unprobed_slot dm p tid 0 m"
  by (simp add: fresh_slot_def unprobed_slot_def rd_pid_def c_int_id)

lemma unprobed_call:
  assumes "0 < tid" "tid < 2147483648" and "unprobed_slot dm p tid c m"
  shows "\<exists>k' m'. probe dm no_hook tid p (k, m) = (Returned (- 1), k', m') \<and> unprobed_slot dm p tid (Suc c) m'
    \<and> (\<forall>x. (x < p \<or> p + sizeof_uinfo dm \<le> x) \<longrightarrow> m' x = m x)"
proof -
  let ?m = "if c = 0 then wr dm Utid (wrap_u 4 tid) p m else m"
  let ?m' = "wr dm Ucount ((rd dm Ucount p ?m + 1) mod 256 ^ ulong_size dm) p ?m"
  have u: "rd_pid dm Utid p ?m = tid" and k: "rd dm Kcount p ?m = ulong_max dm"
    using assms pid_roundtrip [of tid] by (auto simp: unprobed_slot_def rd_pid_def)
  have "probe dm no_hook tid p (k, m) = hit_probe_fun dm no_hook p (k, ?m)"
    using assms(1,3) by (auto simp: probe_def unprobed_slot_def)
  also have "\<dots> = (Returned (- 1), k, ?m')"
    using k by (simp add: hit_probe_fun_def no_hook_def probe_fun_def Let_def c_int_ulong_max)
  finally show ?thesis
    using u k by (simp add: unprobed_slot_def rd_pid_def wr_outside)
qed

interpretation unprobed: slot_protocol dm "\<lambda>e p. True" "\<lambda>e. no_hook" "\<lambda>e x. False" "unprobed_slot dm"
  "\<lambda>_. - 1" "\<lambda>_. 0" 0 for dm
proof (unfold_locales, goal_cases)
  case (1 p m m' tid c)
  then show ?case by (rule unprobed_slot_cong)
next
  case (2 p m tid)
  then show ?case by (rule unprobed_slot_fresh)
next
  case (3 e p c tid m k)
  then show ?case using unprobed_call [of tid dm p c m k] by simp
qed

lemma thread_result_fst: "fst (thread_result p) = (case fst p of Some out \<Rightarrow> out | None \<Rightarrow> Returned 0)"
  by (simp add: thread_result_def case_prod_unfold split: option.splits)

context slot_protocol
begin

lemma thread_1_pass:
  assumes srv: "serves dm good frame e tbl 10" and tid: "0 < tid" "tid < 2147483648"
    and good: "\<forall>c < nat cnt. 0 \<le> ret c" and cnt: "cnt < 2147483648"
  shows "fst (thread_1 dm (hook e) tid tbl cnt (k, m)) = Returned 0"
proof -
  have "\<forall>i < nat cnt. \<not> ret (0 + i) < 0" "0 + nat cnt \<le> 2147483648" using good cnt by auto
  from rounds_pass [where bad = "\<lambda>e. e < 0" and k = k, OF srv tid this table_fresh [OF order_refl, where m = m]]
  obtain w where "each (\<lambda>i. each (check_call (\<lambda>e. e < 0) (call_probe dm (hook e) tid tbl)) [0..<10]) [0..<nat cnt]
      (k, build_probe_table dm tbl 10 m) = (None, w)" by blast
  then show ?thesis
    by (simp add: thread_1_def until_negative_def with_table_def thread_result_fst)
qed

lemma thread_1_stop:
  assumes srv: "serves dm good frame e tbl 10" and tid: "0 < tid" "tid < 2147483648"
    and good: "\<forall>c < q. 0 \<le> ret c" and stop: "ret q < 0" "q < nat cnt" and cnt: "cnt < 2147483648"
  shows "fst (thread_1 dm (hook e) tid tbl cnt (k, m)) = Returned (ret q)"
proof -
  have g: "\<forall>i < q. \<not> ret (0 + i) < 0" "0 + q < 2147483648" using good stop cnt by auto
  have s: "ret (0 + q) < 0" using stop(1) by simp
  show ?thesis
    using rounds_stop [where bad = "\<lambda>e. e < 0" and k = k and n = 10, OF srv tid _ g(1) s stop(2) g(2)
        table_fresh [OF order_refl]]
    by (simp add: thread_1_def until_negative_def with_table_def thread_result_fst)
qed

lemma unreg_thread_2_first:
  assumes srv: "serves dm good frame e tbl 10" and tid: "0 < tid" "tid < 2147483648" and r: "ret 0 \<noteq> - 1"
  shows "fst (unreg_thread_2 dm (hook e) tid tbl (k, m)) = Returned (ret 0)"
proof -
  have "[0..<10] = 0 # [1..<10]" by (simp add: upt_conv_Cons)
  then show ?thesis
    using stop_row [where bad = "\<lambda>e. e \<noteq> - 1" and c = 0 and cf = "\<lambda>_. 0" and j = 0 and js = "[1..<10]" and k = k,
        OF srv tid r _ _ refl table_fresh [OF order_refl]]
    by (simp add: unreg_thread_2_def with_table_def thread_result_fst)
qed

lemma unreg_thread_2_all:
  assumes srv: "serves dm good frame e tbl 10" and tid: "0 < tid" "tid < 2147483648" and r: "ret 0 = - 1"
  shows "fst (unreg_thread_2 dm (hook e) tid tbl (k, m)) = Returned 0"
proof -
  have "\<not> ret 0 \<noteq> - 1" "distinct [0..<10]" "set [0..<10] \<subseteq> {..<10::nat}"
    using r by auto
  from pass_row [where bad = "\<lambda>e. e \<noteq> - 1" and c = 0 and cf = "\<lambda>_. 0" and k = k,
      OF srv tid this(1) _ this(2,3) _ table_fresh [OF order_refl, where m = m]]
  obtain w where "each (check_call (\<lambda>e. e \<noteq> - 1) (call_probe dm (hook e) tid tbl)) [0..<10]
      (k, build_probe_table dm tbl 10 m) = (None, w)" by auto
  then show ?thesis
    by (simp add: unreg_thread_2_def with_table_def thread_result_fst)
qed

end

lemma serves_unprobed: "serves dm (\<lambda>e p. True) (\<lambda>e x. False) e tbl n"
  by (simp add: serves_def)

lemma create_all_None:
  "create_all create_ok is = None \<longleftrightarrow> (\<forall>i \<in> set is. i < MAX_THREADS \<and> create_ok i)"
  by (induction "is") (auto simp: not_le)

lemma create_all_overflow:
  assumes "\<forall>i < k. i < MAX_THREADS \<and> create_ok i" and "MAX_THREADS \<le> k" and "k < n"
  shows "create_all create_ok [0..<n] = Some Undefined"
proof -
  have app: "create_all create_ok (is @ js) =
      (case create_all create_ok is of Some out \<Rightarrow> Some out | None \<Rightarrow> create_all create_ok js)" for "is" js
    by (induction "is") auto
  have split: "[0..<n] = [0..<k] @ k # [Suc k..<n]"
    using assms(3) upt_add_eq_append [of 0 k "n - k"] by (simp add: upt_conv_Cons)
  have "create_all create_ok [0..<k] = None"
    using assms(1) by (auto simp: create_all_None)
  with assms(2) show ?thesis unfolding split app by simp
qed

lemma join_all_None:
  "join_all join_ok i outs = None \<longleftrightarrow> (\<forall>j < length outs. join_ok (i + j) \<and> outs ! j = Returned 0)"
proof (induction join_ok i outs rule: join_all.induct)
  case (2 join_ok i e outs)
  then show ?case by (auto simp: less_Suc_eq_0_disj)
qed auto

lemma join_all_not_pass: "\<forall>out \<in> set outs. out \<noteq> report_pass \<Longrightarrow> join_all join_ok i outs \<noteq> Some report_pass"
  by (induction join_ok i outs rule: join_all.induct)
    (auto simp: report_fail_def report_pass_def report_test_fail_def)

lemma create_all_not_pass: "create_all create_ok is \<noteq> Some report_pass"
  by (induction "is") (auto simp: report_pass_def report_test_fail_def)


lemma run_threads_None:
  "run_threads create_ok join_ok n outs = None \<longleftrightarrow>
     n \<le> MAX_THREADS \<and> (\<forall>i < n. create_ok i \<and> join_ok i \<and> outs i = Returned 0)"
proof (cases "create_all create_ok [0..<n]")
  case None
  then have c: "\<forall>i < n. i < MAX_THREADS \<and> create_ok i" by (auto simp: create_all_None)
  then have "n \<le> MAX_THREADS" by (metis le_refl not_less)
  then show ?thesis
    using None c by (auto simp: run_threads_def join_all_None)
next
  case (Some out)
  then have "\<not> (\<forall>i < n. i < MAX_THREADS \<and> create_ok i)"
    using create_all_None [of create_ok "[0..<n]"] by auto
  then show ?thesis using Some by (auto simp: run_threads_def)
qed

lemma run_threads_not_pass:
  "\<forall>i < n. outs i \<noteq> report_pass \<Longrightarrow> run_threads create_ok join_ok n outs \<noteq> Some report_pass"
  using create_all_not_pass [of create_ok "[0..<n]"] join_all_not_pass [of "map outs [0..<n]" join_ok 0]
  by (auto simp: run_threads_def split: option.splits)

lemma thread_1_i386:
  assumes "serves ILP32 (good_env I386) call_frame e tbl 10" and "0 < tid" "tid < 2147483648"
    and "cnt < 2147483648"
  shows "fst (thread_1 ILP32 (probe_hook I386 Counts e) tid tbl cnt (s, m)) = Returned 0"
  using i386.thread_1_pass [OF assms(1-3) _ assms(4)] by simp

lemma thread_1_x86_64:
  assumes "serves LP64 (good_env X86_64) call_frame e tbl 10" and "0 < tid" "tid < 2147483648"
    and "cnt < 2147483648"
  shows "fst (thread_1 LP64 (probe_hook X86_64 Counts e) tid tbl cnt (s, m)) =
    Returned (if cnt \<le> 2 then 0 else - 2)"
proof (cases "cnt \<le> 2")
  case True
  then have "\<forall>c < nat cnt. 0 \<le> lp64_ret c" by (auto simp: lp64_ret_def)
  with x86_64.thread_1_pass [OF assms(1-3) _ assms(4)] True show ?thesis by simp
next
  case False
  then have "\<forall>c < 2. 0 \<le> lp64_ret c" "lp64_ret 2 < 0" "2 < nat cnt" "lp64_ret 2 = - 2"
    by (auto simp: lp64_ret_def)
  with x86_64.thread_1_stop [OF assms(1-3) this(1,2,3) assms(4), of s m] False show ?thesis by simp
qed

section \<open>Properties\<close>

text \<open>In a process without breakpoints a counting thread stops at its first call with -1, "kernel is not
  counting".\<close>

theorem thread_1_without_probes:
  assumes "0 < tid" "tid < 2147483648" and "0 < cnt" "cnt < 2147483648"
  shows "fst (thread_1 dm no_hook tid tbl cnt (k, m)) = Returned (- 1)"
  using unprobed.thread_1_stop [OF serves_unprobed assms(1,2), of 0 cnt dm tbl k m] assms(3,4) by simp

theorem thread_1_without_probes_witness:
  "fst (thread_1 LP64 no_hook 501 4096 3 ((), (\<lambda>_. 0))) = Returned (- 1)"
  using thread_1_without_probes [of 501 3 LP64 4096 "()" "\<lambda>_. 0"] by simp

text \<open>\<open>main\<close> of \<open>uthread\<close> reports PASSED exactly when the arguments are two positive numbers, at most
  1000 threads are asked for, every \<open>pthread_create\<close> and \<open>pthread_join\<close> succeeds, and every thread
  returns 0.\<close>

theorem uthread_passes_iff:
  assumes "\<And>niter i. outs niter i \<noteq> report_pass"
  shows "uthread_main argv create_ok join_ok outs = report_pass \<longleftrightarrow>
    (\<exists>num_threads niter. parse_args argv = Some (num_threads, niter) \<and> nat num_threads \<le> MAX_THREADS
       \<and> (\<forall>i < nat num_threads. create_ok i \<and> join_ok i \<and> outs niter i = Returned 0))"
proof (cases "parse_args argv")
  case None
  then show ?thesis by (simp add: uthread_main_def usage_def report_pass_def)
next
  case (Some p)
  obtain n niter where p: "p = (n, niter)" by fastforce
  have "run_threads create_ok join_ok (nat n) (outs niter) \<noteq> Some report_pass"
    using run_threads_not_pass assms by blast
  then show ?thesis
    using Some p run_threads_None [of create_ok join_ok "nat n" "outs niter"]
    by (auto simp: uthread_main_def split: option.splits)
qed

theorem uthread_passes_iff_witness:
  "uthread_main [''uthread'', ''2'', ''5''] (\<lambda>_. True) (\<lambda>_. True) (\<lambda>niter i. Returned 0) = report_pass"
proof -
  have "parse_args [''uthread'', ''2'', ''5''] = Some (2, 5)"
    by (simp add: atoi_def is_space_def is_digit_def wrap_s_def)
  then show ?thesis
    using uthread_passes_iff [of "\<lambda>niter i. Returned 0" "[''uthread'', ''2'', ''5'']" "\<lambda>_. True" "\<lambda>_. True"]
    by (auto simp: report_pass_def)
qed

text \<open>(C1) The verdict of the \<open>uthread\<close> test, for any number of threads up to 1000: with \<open>kthread\<close> loaded, the
  32-bit build passes for every number of iterations, and the 64-bit build fails as soon as three
  iterations are asked for.\<close>

theorem uthread_verdict:
  assumes "(a, dm) \<in> {(I386, ILP32), (X86_64, LP64)}"
    and "parse_args argv = Some (num_threads, niter)" "num_threads \<le> 1000" "niter < 2147483648"
    and "\<And>i. i < nat num_threads \<Longrightarrow> serves dm (good_env a) call_frame (env i) (tbl i) 10"
    and "\<And>i. i < nat num_threads \<Longrightarrow> 0 < tid i \<and> tid i < 2147483648"
  shows "uthread_main argv (\<lambda>_. True) (\<lambda>_. True)
      (\<lambda>cnt i. fst (thread_1 dm (probe_hook a Counts (env i)) (tid i) (tbl i) cnt (s i, m i)))
    = (if a = I386 \<or> niter \<le> 2 then report_pass else report_fail)"
proof -
  let ?out = "\<lambda>i. fst (thread_1 dm (probe_hook a Counts (env i)) (tid i) (tbl i) niter (s i, m i))"
  have out: "?out i = Returned (if a = I386 \<or> niter \<le> 2 then 0 else - 2)" if "i < nat num_threads" for i
    using assms(1,4) assms(5,6) [OF that] by (auto simp: thread_1_i386 thread_1_x86_64)
  have pos: "0 < num_threads"
    using assms(2) by (cases argv rule: parse_args.cases) (auto split: if_splits)
  have create: "create_all (\<lambda>_. True) [0..<nat num_threads] = None"
    using assms(3) by (auto simp: create_all_None)
  show ?thesis
  proof (cases "a = I386 \<or> niter \<le> 2")
    case True
    have "run_threads (\<lambda>_. True) (\<lambda>_. True) (nat num_threads) ?out = None"
      using out True assms(3) unfolding run_threads_None by auto
    with assms(2) True show ?thesis by (simp add: uthread_main_def)
  next
    case False
    have "[0..<nat num_threads] = 0 # [1..<nat num_threads]" using pos by (simp add: upt_conv_Cons)
    moreover have "?out 0 = Returned (- 2)" using out [of 0] False pos by simp
    ultimately have "run_threads (\<lambda>_. True) (\<lambda>_. True) (nat num_threads) ?out = Some report_fail"
      using create by (simp add: run_threads_def)
    with assms(2) False show ?thesis by (simp add: uthread_main_def)
  qed
qed


lemma sample_env_serves:
  assumes "0 < tid" "tid < 2147483648" and "tbl + 320 \<le> sp" "sp + 8 \<le> 256 ^ 4"
  shows "serves (arch_model a) (good_env a) call_frame (sample_env tid sp) tbl 10"
  unfolding serves_def
proof (intro allI impI conjI)
  fix j :: nat assume j: "j < 10"
  have "sizeof_uinfo (arch_model a) \<le> 32" by (cases "arch_model a") simp_all
  then have "Suc j * sizeof_uinfo (arch_model a) \<le> 10 * 32" using j by (intro mult_le_mono) auto
  then have s: "slot_addr (arch_model a) tbl j + sizeof_uinfo (arch_model a) \<le> sp"
    using assms(3) by (simp add: slot_addr_def)
  show "good_env a (sample_env tid sp) (slot_addr (arch_model a) tbl j)"
    using assms s by (intro sample_env_good) auto
  fix x assume "call_frame (sample_env tid sp) x"
  then show "x < slot_addr (arch_model a) tbl j \<or> slot_addr (arch_model a) tbl j + sizeof_uinfo (arch_model a) \<le> x"
    using s by (simp add: call_frame_def sample_env_def)
qed

theorem uthread_verdict_witness:
  "uthread_main [''uthread'', ''2'', ''3''] (\<lambda>_. True) (\<lambda>_. True)
      (\<lambda>cnt i. fst (thread_1 LP64 (probe_hook X86_64 Counts (sample_env (501 + int i) 65536)) (501 + int i)
        4096 cnt (pmod_zero, (\<lambda>_. 0)))) = report_fail"
proof -
  have args: "parse_args [''uthread'', ''2'', ''3''] = Some (2, 3)"
    by (simp add: atoi_def is_space_def is_digit_def wrap_s_def)
  have "serves LP64 (good_env X86_64) call_frame (sample_env (501 + int i) 65536) 4096 10" if "i < nat 2" for i
    using sample_env_serves [of "501 + int i" 4096 65536 X86_64] that by simp
  from uthread_verdict [where a = X86_64 and dm = LP64 and tid = "\<lambda>i. 501 + int i" and
      s = "\<lambda>_. pmod_zero" and m = "\<lambda>_ _. 0", OF _ args _ _ this] show ?thesis by auto
qed

text \<open>More than \<open>MAX_THREADS\<close> threads make every \<open>main\<close> write behind its array \<open>thread\<close>.\<close>

theorem too_many_threads:
  assumes "parse_args argv = Some (num_threads, niter)" and "1000 < num_threads"
    and "\<forall>i < 1000. create_ok i"
  shows "uthread_main argv create_ok join_ok outs = Undefined
    \<and> last_thread_main argv create_ok join_ok outs last_out = Undefined
    \<and> unreg_main argv create_ok join_ok outs1 outs2 = Undefined"
proof -
  have "create_all create_ok [0..<n] = Some Undefined" if "1000 < n" for n
    using that assms(3) by (intro create_all_overflow [of 1000]) auto
  then have r: "run_threads create_ok join_ok (nat num_threads) f = Some Undefined" for f
    using assms(2) by (simp add: run_threads_def)
  have "0 < niter"
    using assms(1) by (cases argv rule: parse_args.cases) (auto split: if_splits)
  then have "[0..<nat niter] = 0 # [1..<nat niter]" by (simp add: upt_conv_Cons)
  then show ?thesis
    using assms(1) r by (simp add: uthread_main_def last_thread_main_def unreg_main_def)
qed

theorem too_many_threads_witness:
  "uthread_main [''uthread'', ''1001'', ''1''] (\<lambda>_. True) (\<lambda>_. True) (\<lambda>_ _. Returned 0) = Undefined"
proof -
  have "parse_args [''uthread'', ''1001'', ''1''] = Some (1001, 1)"
    by (simp add: atoi_def is_space_def is_digit_def wrap_s_def)
  from too_many_threads [OF this, of "\<lambda>_. True" "\<lambda>_. True" "\<lambda>_ _. Returned 0"] show ?thesis by simp
qed

context slot_protocol
begin

lemma child_stop:
  assumes "serves dm good frame e tbl 1" and "0 < tid" "tid < 2147483648" and "ret 0 \<noteq> - 1" and "0 < cnt"
  shows "fst (child_run dm (hook e) tid tbl cnt (k, build_probe_table dm tbl 10 m)) = Exited 1 ''''"
proof -
  have "fst (each (\<lambda>i. check_call (\<lambda>e. e \<noteq> - 1) (call_probe dm (hook e) tid tbl) 0) [0..<nat cnt]
      (k, build_probe_table dm tbl 10 m)) = Some (Returned (ret (0 + 0)))"
    using assms(4,5)
    by (intro repeat_stop [where bad = "\<lambda>e. e \<noteq> - 1" and q = 0, OF assms(1-3)] table_fresh) simp_all
  then show ?thesis by (simp add: child_run_def case_prod_unfold)
qed

lemma child_pass:
  assumes "serves dm good frame e tbl 1" and "0 < tid" "tid < 2147483648" and "\<forall>c. ret c = - 1"
    and "cnt < 2147483648"
  shows "fst (child_run dm (hook e) tid tbl cnt (k, build_probe_table dm tbl 10 m)) = Exited 0 ''''"
proof -
  have "\<exists>k' m'. each (\<lambda>i. check_call (\<lambda>e. e \<noteq> - 1) (call_probe dm (hook e) tid tbl) 0) [0..<nat cnt]
      (k, build_probe_table dm tbl 10 m) = (None, k', m')
      \<and> slots_at (table_slots dm tbl 1) (\<lambda>_. tid) (\<lambda>_. 0 + nat cnt) m'"
    using assms(4,5)
    by (intro repeat_pass [where bad = "\<lambda>e. e \<noteq> - 1", OF assms(1-3)] table_fresh) simp_all
  then show ?thesis by (auto simp: child_run_def)
qed

lemma fork_thread_result:
  assumes srv: "serves dm good frame e tbl 1" and tid: "0 < tid" "tid < 2147483648"
    and good: "\<forall>c < 2 * nat cnt. 0 \<le> ret c" and cnt: "2 * nat cnt \<le> 2147483648"
    and child: "\<And>k. fst (child_run dm chook ctid tbl cnt (k, build_probe_table dm tbl 10 m)) = out"
  shows "fst (fork_thread dm (hook e) (Fork_child ctid chook) tid tbl cnt (k, m)) = Returned (exit_status out)"
proof -
  let ?count = "each (\<lambda>i. check_call (\<lambda>e. e < 0) (call_probe dm (hook e) tid tbl) 0) [0..<nat cnt]"
  let ?m = "build_probe_table dm tbl 10 m"
  have fresh: "slots_at (table_slots dm tbl 1) (\<lambda>_. tid) (\<lambda>_. 0) ?m" by (rule table_fresh) simp
  have "\<forall>i < nat cnt. \<not> ret (0 + i) < 0" "0 + nat cnt \<le> 2147483648"
    using good cnt by (auto simp: not_less)
  from repeat_pass [where bad = "\<lambda>e. e < 0" and k = k, OF srv tid this fresh]
  obtain k1 m1 where c1: "?count (k, ?m) = (None, k1, m1)"
    "slots_at (table_slots dm tbl 1) (\<lambda>_. tid) (\<lambda>_. 0 + nat cnt) m1" by blast
  obtain o1 k2 m2 where ch: "child_run dm chook ctid tbl cnt (k1, ?m) = (o1, k2, m2)"
    by (metis prod_cases3)
  then have "o1 = out" using child [of k1] by simp
  have "\<forall>i < nat cnt. \<not> ret (0 + nat cnt + i) < 0" "0 + nat cnt + nat cnt \<le> 2147483648"
    using good cnt by (auto simp: not_less)
  from repeat_pass [where bad = "\<lambda>e. e < 0" and k = k2, OF srv tid this c1(2)]
  obtain k3 m3 where c2: "?count (k2, m1) = (None, k3, m3)" by blast
  show ?thesis
    using c1(1) ch c2 \<open>o1 = out\<close> by (simp add: fork_thread_def with_table_def Let_def)
qed

end

lemma defunc_thread_not_zero:
  "fst (defunc_thread dm hook tid tbl cnt w) \<noteq> Returned 0"
proof -
  have stop: "fst (check_call (\<lambda>e. e < 0) call j w) \<noteq> Some (Returned 0)" for call j w
    by (auto simp: check_call_def split: prod.splits outcome.splits)
  have "fst (each (\<lambda>i. check_call (\<lambda>e. e < 0) call 0) xs w) \<noteq> Some (Returned 0)" for call and xs :: "nat list" and w
  proof (induction xs arbitrary: w)
    case (Cons x xs)
    then show ?case using stop [of call 0 w] by (auto split: prod.splits option.splits)
  qed simp
  from this [of "call_probe dm hook tid tbl" "[0..<nat cnt]" "with_table dm tbl w"] show ?thesis
    by (auto simp: defunc_thread_def case_prod_unfold split: option.splits)
qed

lemma probe_not_pass: "fst (probe dm hook tid p w) \<noteq> report_pass"
  by (auto simp: probe_def hit_probe_fun_def report_pass_def report_test_fail_def
      split: prod.splits option.splits)

lemma calls_not_pass:
  "fst (each (\<lambda>i. check_call bad (call_probe dm hook tid tbl) 0) xs w) \<noteq> Some report_pass"
proof (induction xs arbitrary: w)
  case (Cons x xs)
  have "fst (check_call bad (call_probe dm hook tid tbl) 0 w) \<noteq> Some report_pass"
    using probe_not_pass [of dm hook tid "slot_addr dm tbl 0" w]
    by (auto simp: check_call_def call_probe_def report_pass_def split: prod.splits outcome.splits)
  then show ?case using Cons by (auto split: prod.splits option.splits)
qed simp

lemma defunc_not_pass:
  "fst (defunc_thread dm hook tid tbl cnt w) \<noteq> report_pass"
  "fst (defunc_child dm hook tid tbl cnt w) \<noteq> report_pass"
  using calls_not_pass [of "\<lambda>e. e < 0" dm hook tid tbl "[0..<nat cnt]" "with_table dm tbl w"]
    calls_not_pass [of "\<lambda>e. e \<noteq> - 1" dm hook tid tbl "[0..<nat cnt]" "with_table dm tbl w"]
  by (auto simp: defunc_thread_def defunc_child_def child_run_def case_prod_unfold report_pass_def
      split: option.splits outcome.splits)

text \<open>(C23) In the 32-bit build the verdict of \<open>fork_thread\<close> depends on whether the child inherits the
  breakpoints: it returns 0 when the child runs without them, and 1 when they are hit there too, as they
  are with probes that belong to the inode.\<close>

theorem fork_thread_child_decides:
  assumes "serves ILP32 (good_env I386) call_frame e tbl 1" "serves ILP32 (good_env I386) call_frame ce tbl 1"
    and "0 < tid" "tid < 2147483648" "0 < ctid" "ctid < 2147483648" and "0 < cnt" "cnt \<le> 1073741824"
  shows "fst (fork_thread ILP32 (probe_hook I386 Counts e) (Fork_child ctid no_hook) tid tbl cnt (s, m)) = Returned 0
    \<and> fst (fork_thread ILP32 (probe_hook I386 Counts e) (Fork_child ctid (probe_hook I386 Counts ce)) tid tbl cnt (s, m))
      = Returned 1"
proof -
  have cnt: "2 * nat cnt \<le> 2147483648" "cnt < 2147483648" using assms(8) by auto
  have out: "fst (child_run ILP32 no_hook ctid tbl cnt (k, build_probe_table ILP32 tbl 10 m)) = Exited 0 ''''"
    "fst (child_run ILP32 (probe_hook I386 Counts ce) ctid tbl cnt (k, build_probe_table ILP32 tbl 10 m)) = Exited 1 ''''"
    for k :: "'a pmod_scheme"
    using unprobed.child_pass [OF serves_unprobed assms(5,6) _ cnt(2)]
      i386.child_stop [OF assms(2,5,6) _ assms(7)] by auto
  have "\<forall>c < 2 * nat cnt. 0 \<le> int c" by simp
  note fork = i386.fork_thread_result [OF assms(1,3,4) this cnt(1)]
  show ?thesis using fork [OF out(1), of s] fork [OF out(2), of s] by simp
qed

theorem fork_thread_child_decides_witness:
  "fst (fork_thread ILP32 (probe_hook I386 Counts (sample_env 501 65536))
      (Fork_child 502 (probe_hook I386 Counts (sample_env 502 65536))) 501 4096 3 (pmod_zero, (\<lambda>_. 0))) = Returned 1"
proof -
  have srv: "serves ILP32 (good_env I386) call_frame (sample_env t 65536) 4096 1" if "t = 501 \<or> t = 502" for t
  proof -
    have "serves ILP32 (good_env I386) call_frame (sample_env t 65536) 4096 10"
      using sample_env_serves [of t 4096 65536 I386] that by auto
    then show ?thesis unfolding serves_def by simp
  qed
  show ?thesis
    using fork_thread_child_decides [OF srv srv, of 501 502 501 502 3 pmod_zero "\<lambda>_. 0"] by simp
qed

text \<open>(C25) \<open>fork_and_defunc\<close> can never report PASSED: its parent thread never returns 0, since it leaves the
  process with \<open>exit(0)\<close> when all its probes counted, and its children end without a verdict.\<close>

theorem fork_and_defunc_never_passes:
  "fork_and_defunc_main argv create_ok join_ok (\<lambda>cnt i. fst (defunc_thread dm (hook i) (tid i) (tbl i) cnt (w i)))
      \<noteq> report_pass
   \<and> fst (defunc_child dm chook ctid ctbl cnt cw) \<noteq> report_pass"
proof (cases "parse_args argv")
  case None
  then have "fork_and_defunc_main argv create_ok join_ok outs \<noteq> report_pass" for outs
    by (simp add: fork_and_defunc_main_def uthread_main_def usage_def report_pass_def)
  then show ?thesis using defunc_not_pass(2) by blast
next
  case (Some p)
  obtain n niter where p: "p = (n, niter)" by fastforce
  let ?outs = "\<lambda>i. fst (defunc_thread dm (hook i) (tid i) (tbl i) niter (w i))"
  have pos: "0 < n" using Some p by (cases argv rule: parse_args.cases) (auto split: if_splits)
  have "run_threads create_ok join_ok (nat n) ?outs \<noteq> None"
    using pos defunc_thread_not_zero [of dm "hook 0" "tid 0" "tbl 0" niter "w 0"]
    unfolding run_threads_None by (metis zero_less_nat_eq)
  moreover have "run_threads create_ok join_ok (nat n) ?outs \<noteq> Some report_pass"
    by (rule run_threads_not_pass) (simp add: defunc_not_pass(1))
  ultimately show ?thesis
    using Some p defunc_not_pass(2) [of dm chook ctid ctbl cnt cw] by (auto simp: fork_and_defunc_main_def uthread_main_def split: option.splits)
qed



end
