(* ===== verification/Unreg_Test.thy ===== *)
theory Unreg_Test
  imports User_Threads
begin

text \<open>
  The verdict of \<open>uprobes.w/unreg.c\<close>, the program whose rounds alternate between threads that must see the
  breakpoints and threads that must not: it depends on whether the breakpoints were there, and not on
  whether they were taken away.
\<close>

section \<open>Rounds of threads\<close>

lemma join_all_fail:
  assumes "\<forall>out \<in> set outs. out = Returned 0 \<or> out = Returned (- 1)" and "\<exists>out \<in> set outs. out \<noteq> Returned 0"
  shows "join_all (\<lambda>_. True) i outs = Some report_fail"
  using assms by (induction "\<lambda>_ :: nat. True" i outs rule: join_all.induct) auto

lemma run_threads_verdict:
  assumes "n \<le> MAX_THREADS" and "\<forall>i < n. outs i = (if seen i then Returned 0 else Returned (- 1))"
  shows "run_threads (\<lambda>_. True) (\<lambda>_. True) n outs = (if \<forall>i < n. seen i then None else Some report_fail)"
proof (cases "\<forall>i < n. seen i")
  case True
  then show ?thesis using assms by (simp add: run_threads_None)
next
  case False
  have "create_all (\<lambda>_. True) [0..<n] = None" using assms(1) by (simp add: create_all_None)
  moreover have "join_all (\<lambda>_. True) 0 (map outs [0..<n]) = Some report_fail"
    using assms(2) False by (intro join_all_fail) (auto simp: image_iff Bex_def)
  ultimately show ?thesis using False by (simp add: run_threads_def)
qed

lemma unreg_rounds_verdict:
  assumes "n \<le> MAX_THREADS"
    and "\<forall>j \<in> set js. \<forall>i < n. outs1 j i = (if seen j i then Returned 0 else Returned (- 1))"
    and "\<forall>j \<in> set js. \<forall>i < n. outs2 j i = Returned 0"
  shows "unreg_rounds (\<lambda>_. True) (\<lambda>_. True) n outs1 outs2 js =
    (if \<forall>j \<in> set js. \<forall>i < n. seen j i then report_pass else report_fail)"
  using assms(2,3)
proof (induction js)
  case (Cons j js)
  have 1: "run_threads (\<lambda>_. True) (\<lambda>_. True) n (outs1 j) = (if \<forall>i < n. seen j i then None else Some report_fail)"
    using Cons.prems(1) by (intro run_threads_verdict [OF assms(1)]) simp
  have 2: "run_threads (\<lambda>_. True) (\<lambda>_. True) n (outs2 j) = None"
    using Cons.prems(2) assms(1) by (simp add: run_threads_None)
  show ?case
  proof (cases "\<forall>i < n. seen j i")
    case True
    then show ?thesis using 1 2 Cons by simp
  next
    case False
    then have "unreg_rounds (\<lambda>_. True) (\<lambda>_. True) n outs1 outs2 (j # js) = report_fail"
      using 1 by (simp only: if_False unreg_rounds.simps option.case)
    then show ?thesis using False by auto
  qed
qed simp

section \<open>The two threads\<close>

text \<open>\<open>thread_1\<close> of \<open>unreg.c\<close> makes one round of the calls that \<open>thread_1\<close> of \<open>uthread.c\<close> repeats.\<close>

lemma unreg_thread_1_once: "unreg_thread_1 dm hook tid tbl w = thread_1 dm hook tid tbl 1 w"
  by (simp add: unreg_thread_1_def thread_1_def split: prod.splits option.splits)

lemma unreg_thread_1_sees:
  assumes "(a, dm) \<in> {(I386, ILP32), (X86_64, LP64)}" and "serves dm (good_env a) call_frame e tbl 10"
    and "0 < tid" "tid < 2147483648"
  shows "fst (unreg_thread_1 dm (if seen then probe_hook a Counts e else no_hook) tid tbl (s, m)) =
    (if seen then Returned 0 else Returned (- 1))"
proof (cases seen)
  case True
  then show ?thesis
    using assms thread_1_i386 [of e tbl tid 1 s m] thread_1_x86_64 [of e tbl tid 1 s m]
    by (auto simp: unreg_thread_1_once)
next
  case False
  then show ?thesis
    using unprobed.thread_1_stop [OF serves_unprobed assms(3,4), of 0 1 dm tbl s m]
    by (simp add: unreg_thread_1_once)
qed

lemma unreg_thread_2_blind:
  assumes "(a, dm) \<in> {(I386, ILP32), (X86_64, LP64)}" and "serves dm (good_env a) call_frame e tbl 10"
    and "0 < tid" "tid < 2147483648"
  shows "fst (unreg_thread_2 dm (if gone then no_hook else probe_hook a Counts e) tid tbl (s, m)) = Returned 0"
proof (cases gone)
  case True
  then show ?thesis using unprobed.unreg_thread_2_all [OF serves_unprobed assms(3,4), of dm tbl s m] by simp
next
  case False
  then show ?thesis
    using assms i386.unreg_thread_2_first [of e tbl tid s m] x86_64.unreg_thread_2_first [of e tbl tid s m]
    by (auto simp: lp64_ret_def)
qed

section \<open>The verdict\<close>

text \<open>(C14) The verdict of the \<open>unreg\<close> test, on the 32-bit and the 64-bit build and for any number of threads and
  rounds: PASSED exactly when every \<open>thread_1\<close> of every round ran with the breakpoints in place. Which
  breakpoints were still there when \<open>thread_2\<close> ran makes no difference: a first hit returns 0, and the
  thread passes this on as its result.\<close>

theorem unreg_verdict:
  assumes "(a, dm) \<in> {(I386, ILP32), (X86_64, LP64)}"
    and "parse_args argv = Some (num_threads, niter)" and "num_threads \<le> 1000"
    and "\<And>j i. i < nat num_threads \<Longrightarrow>
      serves dm (good_env a) call_frame (env j i) (tbl j i) 10 \<and> 0 < tid j i \<and> tid j i < 2147483648"
    and "\<And>j i. i < nat num_threads \<Longrightarrow>
      serves dm (good_env a) call_frame (env' j i) (tbl' j i) 10 \<and> 0 < tid' j i \<and> tid' j i < 2147483648"
  shows "unreg_main argv (\<lambda>_. True) (\<lambda>_. True)
      (\<lambda>j i. fst (unreg_thread_1 dm (if seen j i then probe_hook a Counts (env j i) else no_hook)
        (tid j i) (tbl j i) (s j i, m j i)))
      (\<lambda>j i. fst (unreg_thread_2 dm (if gone j i then no_hook else probe_hook a Counts (env' j i))
        (tid' j i) (tbl' j i) (s' j i, m' j i)))
    = (if \<forall>j < nat niter. \<forall>i < nat num_threads. seen j i then report_pass else report_fail)"
proof -
  have n: "nat num_threads \<le> MAX_THREADS" using assms(3) by simp
  let ?o1 = "\<lambda>j i. fst (unreg_thread_1 dm (if seen j i then probe_hook a Counts (env j i) else no_hook)
      (tid j i) (tbl j i) (s j i, m j i))"
  let ?o2 = "\<lambda>j i. fst (unreg_thread_2 dm (if gone j i then no_hook else probe_hook a Counts (env' j i))
      (tid' j i) (tbl' j i) (s' j i, m' j i))"
  have 1: "\<forall>j \<in> set [0..<nat niter]. \<forall>i < nat num_threads. ?o1 j i = (if seen j i then Returned 0 else Returned (- 1))"
    using unreg_thread_1_sees [OF assms(1)] assms(4) by blast
  have 2: "\<forall>j \<in> set [0..<nat niter]. \<forall>i < nat num_threads. ?o2 j i = Returned 0"
    using unreg_thread_2_blind [OF assms(1)] assms(5) by blast
  have "unreg_main argv (\<lambda>_. True) (\<lambda>_. True) ?o1 ?o2 =
      unreg_rounds (\<lambda>_. True) (\<lambda>_. True) (nat num_threads) ?o1 ?o2 [0..<nat niter]"
    using assms(2) by (simp add: unreg_main_def)
  then show ?thesis unfolding unreg_rounds_verdict [OF n 1 2] by auto
qed

theorem unreg_verdict_witness:
  "unreg_main [''unreg'', ''2'', ''3''] (\<lambda>_. True) (\<lambda>_. True)
      (\<lambda>j i. fst (unreg_thread_1 LP64 (probe_hook X86_64 Counts (sample_env (501 + int i) 65536)) (501 + int i)
        4096 (pmod_zero, (\<lambda>_. 0))))
      (\<lambda>j i. fst (unreg_thread_2 LP64 (probe_hook X86_64 Counts (sample_env (501 + int i) 65536)) (501 + int i)
        4096 (pmod_zero, (\<lambda>_. 0)))) = report_pass"
proof -
  have args: "parse_args [''unreg'', ''2'', ''3''] = Some (2, 3)"
    by (simp add: atoi_def is_space_def is_digit_def wrap_s_def)
  have srv: "serves LP64 (good_env X86_64) call_frame (sample_env (501 + int i) 65536) 4096 10
      \<and> 0 < 501 + int i \<and> 501 + int i < 2147483648" if "i < nat 2" for i
    using sample_env_serves [of "501 + int i" 4096 65536 X86_64] that by simp
  show ?thesis
    using unreg_verdict [where a = X86_64 and dm = LP64 and env = "\<lambda>j i. sample_env (501 + int i) 65536"
        and env' = "\<lambda>j i. sample_env (501 + int i) 65536" and tbl = "\<lambda>_ _. 4096" and tbl' = "\<lambda>_ _. 4096"
        and tid = "\<lambda>j i. 501 + int i" and tid' = "\<lambda>j i. 501 + int i" and s = "\<lambda>_ _. pmod_zero"
        and s' = "\<lambda>_ _. pmod_zero" and m = "\<lambda>_ _ _. 0" and m' = "\<lambda>_ _ _. 0" and seen = "\<lambda>_ _. True"
        and gone = "\<lambda>_ _. False", OF _ args _ srv srv] by simp
qed

end
