(* ===== verification/Probe5.thy ===== *)
theory Probe5
  imports Legacy_Module
begin

text \<open>
  \<open>uprobes.existing/probe5.c\<close>, \<open>probe5ag.c\<close> and \<open>probe5lim.c\<close>: one probe on a function; an array of
  probes on the same address; one probe that unregisters itself after a number of hits.
\<close>

section \<open>probe5\<close>

record probe5 = udbg +
  ncalls :: int
  usp_pid :: int
  usp_vaddr :: int

abbreviation usp :: uobj where
  "usp \<equiv> Uobj ''usp'' 0"

definition probe5_add_inst :: "kernel \<Rightarrow> params \<Rightarrow> 'a probe5_scheme \<Rightarrow> 'a probe5_scheme" where
  "probe5_add_inst K P s =
     (let s = (if par_verbose P \<noteq> 0 then pr K (''add() called'' @ nl) [] s else s)
      in s\<lparr>ncalls := c_int (ncalls s + 1)\<rparr>)"

definition probe5_child_exit :: "kernel \<Rightarrow> 'a probe5_scheme \<Rightarrow> 'a probe5_scheme" where
  "probe5_child_exit K s = pr K (''ncalls=%d'' @ nl) [ArgD (ncalls s)] s"

text \<open>\<open>usp.pid = pid; if (vaddr) usp.vaddr = vaddr;\<close>\<close>

definition set_usp :: "params \<Rightarrow> 'a probe5_scheme \<Rightarrow> 'a probe5_scheme" where
  "set_usp P s =
     (let s = s\<lparr>usp_pid := par_pid P\<rparr>
      in if par_vaddr P \<noteq> 0 then s\<lparr>usp_vaddr := par_vaddr P\<rparr> else s)"

definition probe5_init_module :: "kernel \<Rightarrow> params \<Rightarrow> 'a probe5_scheme \<Rightarrow> int \<times> 'a probe5_scheme" where
  "probe5_init_module K P s =
     (case u_dbfs_init K ''probe5'' s of (r, s) \<Rightarrow>
        if r \<noteq> 0 then (- 1, s)
        else
          let s = set_usp P s;
              s = pr K (''Registering uprobe on pid %d, vaddr %#lx'' @ nl)
                    [ArgD (usp_pid s), ArgX (usp_vaddr s)] s
          in register_or_fail K usp (usp_pid s) (usp_vaddr s) s)"

definition probe5_cleanup_module :: "kernel \<Rightarrow> 'a probe5_scheme \<Rightarrow> 'a probe5_scheme" where
  "probe5_cleanup_module K s = u_dbfs_cleanup K (kdo K (Unregister_uprobe usp) s)"

section \<open>probe5lim\<close>

text \<open>The callback that the kernel runs when a registration or an unregistration completes exists in the
  configuration \<open>UPROBES_REG_CALLBACK\<close> only; \<open>reg\<close> and \<open>result\<close> are its arguments.\<close>

record probe5lim = probe5 +
  lim_limit :: int
  registered :: int

definition probe5lim_reg_callback :: "kernel \<Rightarrow> bool \<Rightarrow> int \<Rightarrow> probe5lim \<Rightarrow> probe5lim" where
  "probe5lim_reg_callback K reg result s =
     (let s = pr K ''%sregistration of uprobe on pid %d, vaddr %#lx was ''
                [ArgS (if reg then '''' else ''un''), ArgD (usp_pid s), ArgX (usp_vaddr s)] s
      in if result = 0 then pr K (''successful'' @ nl) [] s
         else pr K (''unsuccessful; status = %d'' @ nl) [ArgD result] s)"

definition probe5lim_add_inst :: "kernel \<Rightarrow> params \<Rightarrow> probe5lim \<Rightarrow> probe5lim" where
  "probe5lim_add_inst K P s =
     (let s = (if par_verbose P \<noteq> 0 then pr K (''add() called'' @ nl) [] s else s);
          s = s\<lparr>ncalls := c_int (ncalls s + 1)\<rparr>
      in if registered s \<noteq> 0 \<and> lim_limit s \<le> ncalls s
         then
           let s = pr K (''Unregistering uprobe on pid %d, vaddr %#lx'' @ nl)
                     [ArgD (usp_pid s), ArgX (usp_vaddr s)] s;
               s = kdo K (Unregister_uprobe usp) s
           in s\<lparr>registered := 0\<rparr>
         else s)"

definition probe5lim_child_exit :: "kernel \<Rightarrow> probe5lim \<Rightarrow> probe5lim" where
  "probe5lim_child_exit K s = pr K (''ncalls=%d'' @ nl) [ArgD (ncalls s)] s"

definition probe5lim_init_module :: "kernel \<Rightarrow> params \<Rightarrow> probe5lim \<Rightarrow> int \<times> probe5lim" where
  "probe5lim_init_module K P s =
     (case u_dbfs_init K ''probe5lim'' s of (r, s) \<Rightarrow>
        if r \<noteq> 0 then (- 1, s)
        else
          let s = set_usp P s;
              s = (if lim_limit s = 0 then s\<lparr>lim_limit := 100\<rparr> else s);
              s = pr K (''Registering uprobe on pid %d, vaddr %#lx'' @ nl)
                    [ArgD (usp_pid s), ArgX (usp_vaddr s)] s
          in (case register_or_fail K usp (usp_pid s) (usp_vaddr s) s of (r, s) \<Rightarrow>
                (r, if r = 0 then s\<lparr>registered := 1\<rparr> else s)))"

definition probe5lim_cleanup_module :: "kernel \<Rightarrow> probe5lim \<Rightarrow> probe5lim" where
  "probe5lim_cleanup_module K s =
     (let s = (if registered s \<noteq> 0 then kdo K (Unregister_uprobe usp) s else s)
      in u_dbfs_cleanup K s)"

section \<open>probe5ag\<close>

text \<open>\<open>ag_vaddrs\<close> are the \<open>vaddr\<close> members of the array that \<open>ag_probes\<close> points to.\<close>

record probe5ag = udbg +
  nhits :: int
  nprobes :: int
  ag_probes :: int
  ag_vaddrs :: "nat \<Rightarrow> int"

abbreviation ag_obj :: "nat \<Rightarrow> uobj" where
  "ag_obj i \<equiv> Uobj ''probes'' i"

definition probe5ag_add_inst :: "kernel \<Rightarrow> params \<Rightarrow> probe5ag \<Rightarrow> probe5ag" where
  "probe5ag_add_inst K P s =
     (let s = (if par_verbose P \<noteq> 0 then pr K (''add() called'' @ nl) [] s else s)
      in s\<lparr>nhits := c_int (nhits s + 1)\<rparr>)"

definition probe5ag_child_exit :: "kernel \<Rightarrow> probe5ag \<Rightarrow> probe5ag" where
  "probe5ag_child_exit K s = pr K (''nhits=%d'' @ nl) [ArgD (nhits s)] s"

text \<open>\<open>shut_down\<close> takes \<open>vaddr != 0\<close> for the mark of a registered probe.\<close>

definition ag_unregister :: "kernel \<Rightarrow> nat \<Rightarrow> probe5ag \<Rightarrow> probe5ag" where
  "ag_unregister K i s = (if ag_vaddrs s i \<noteq> 0 then kdo K (Unregister_uprobe (ag_obj i)) s else s)"

definition shut_down :: "kernel \<Rightarrow> probe5ag \<Rightarrow> probe5ag" where
  "shut_down K s =
     (let s = fold (ag_unregister K) [0..<nat (nprobes s)] s
      in kdo K (Kfree (ag_probes s)) s)"

definition ag_register :: "kernel \<Rightarrow> params \<Rightarrow> nat \<Rightarrow> probe5ag \<Rightarrow> int option \<times> probe5ag" where
  "ag_register K P i s =
     (let s = s\<lparr>ag_vaddrs := (ag_vaddrs s)(i := par_vaddr P)\<rparr>
      in (case kapi K (Register_uprobe (ag_obj i) (par_pid P) (par_vaddr P)) s of (ret, s) \<Rightarrow>
            if ret \<noteq> 0 then (Some ret, u_dbfs_cleanup K (shut_down K s)) else (None, s)))"

definition probe5ag_init_module :: "kernel \<Rightarrow> params \<Rightarrow> probe5ag \<Rightarrow> int \<times> probe5ag" where
  "probe5ag_init_module K P s =
     (case u_dbfs_init K ''probe5ag'' s of (r, s) \<Rightarrow>
        if r \<noteq> 0 then (- 1, s)
        else
          let s = pr K (''Registering %d uprobes on pid %d, vaddr %#lx'' @ nl)
                    [ArgD (nprobes s), ArgD (par_pid P), ArgX (par_vaddr P)] s
          in (case kapi K (Kzalloc (int (wrap_u 8 (nprobes s * k_sizeof K ''uprobe'')))) s of (p, s) \<Rightarrow>
                let s = s\<lparr>ag_probes := p, ag_vaddrs := (\<lambda>_. 0)\<rparr> in
                if p = 0 then (- 1, u_dbfs_cleanup K s)
                else (case each (ag_register K P) [0..<nat (nprobes s)] s of
                        (Some ret, s) \<Rightarrow> (ret, s)
                      | (None, s) \<Rightarrow> (0, s))))"

definition probe5ag_cleanup_module :: "kernel \<Rightarrow> probe5ag \<Rightarrow> probe5ag" where
  "probe5ag_cleanup_module K s = u_dbfs_cleanup K (shut_down K s)"

section \<open>Frames\<close>

lemma probe5_frame [frame_simps]:
  "ncalls (pr K fmt args s) = ncalls s" "usp_pid (pr K fmt args s) = usp_pid s"
  "usp_vaddr (pr K fmt args s) = usp_vaddr s"
  "ncalls (kdo K c s) = ncalls s" "usp_pid (kdo K c s) = usp_pid s" "usp_vaddr (kdo K c s) = usp_vaddr s"
  by (simp_all add: test_printk_def kapi_def split: prod.splits)

lemma keeps_ncalls [simp, intro]: "keeps s (s\<lparr>ncalls := n\<rparr>)" "keeps s (set_usp P s)"
  by (simp_all add: keeps_def handles_def dbfs_ready_def set_usp_def Let_def)

lemmas loaded_set_usp [simp] = loaded_keeps [OF _ keeps_ncalls(2)]

lemma probe5_var_frame [frame_simps]:
  "klog (s\<lparr>ncalls := n\<rparr>) = klog s" "klog (set_usp P s) = klog s" "ncalls (set_usp P s) = ncalls s"
  by (simp_all add: set_usp_def Let_def)

lemma probe5_more: "udbg.more s = udbg.more t \<Longrightarrow> ncalls s = ncalls t"
  by (cases s; cases t) simp

section \<open>probe5 takes its probe back\<close>

lemma probe5_load:
  assumes "probe5_init_module K P s = (r, t)" and "live_dentries (klog s) = {}"
  shows "r = - 1 \<and> live_probes (klog t) = live_probes (klog s)
    \<or> r = 0 \<and> loaded s t \<and> live_probes (klog t) = insert (Object_probe usp) (live_probes (klog s))
      \<and> ncalls t = ncalls s"
proof (rule prologue [OF assms(1) [unfolded probe5_init_module_def] assms(2)], goal_cases fails set_up)
  case fails
  then show ?thesis by blast
next
  case (set_up s1)
  define s2 where "s2 = pr K (''Registering uprobe on pid %d, vaddr %#lx'' @ nl)
    [ArgD (usp_pid (set_usp P s1)), ArgX (usp_vaddr (set_usp P s1))] (set_usp P s1)"
  have s2: "loaded s s2" "live_probes (klog s2) = live_probes (klog s)" "ncalls s2 = ncalls s"
    using set_up(1,2) probe5_more [OF set_up(3)]
    by (simp_all add: s2_def frame_simps)
  have "register_or_fail K usp (usp_pid s2) (usp_vaddr s2) s2 = (r, t)"
    using set_up(4) by (simp add: Let_def s2_def)
  then show ?case
    by (rule register_or_fail_cases [OF _ s2(1)]) (use s2 in \<open>auto simp: frame_simps\<close>)
qed

definition probe5_events :: "kernel \<Rightarrow> params \<Rightarrow> 'h event list \<Rightarrow> 'a probe5_scheme \<Rightarrow> 'a probe5_scheme" where
  "probe5_events K P = run_events K (\<lambda>_. probe5_add_inst K P) (probe5_child_exit K)"

lemma probe5_add_inst_effect:
  "keeps s (probe5_add_inst K P s)" "klog (probe5_add_inst K P s) = klog s"
  by (auto simp: probe5_add_inst_def Let_def frame_simps intro: keeps_trans [OF keeps_pr])

lemma probe5_run:
  assumes "loaded s t"
  shows "loaded s (probe5_events K P evs t)"
    "live_probes (klog (probe5_events K P evs t)) = live_probes (klog t)"
proof -
  have "loaded s (probe5_events K P evs t)
    \<and> live_probes (klog (probe5_events K P evs t)) = live_probes (klog t)"
    unfolding probe5_events_def
    by (rule loaded_events [where Q = "\<lambda>_ u. live_probes (klog u) = live_probes (klog t)"])
      (use assms in \<open>auto simp: probe5_add_inst_effect probe5_child_exit_def frame_simps
        live_probes_kdo quiet_neutral\<close>)
  then show "loaded s (probe5_events K P evs t)"
    "live_probes (klog (probe5_events K P evs t)) = live_probes (klog t)" by simp_all
qed

lemma probe5_cleanup:
  assumes "loaded s t"
  shows "live_probes (klog (probe5_cleanup_module K t)) = live_probes (klog t) - {Object_probe usp}"
    "live_dentries (klog (probe5_cleanup_module K t)) = {}"
    "oopsed (probe5_cleanup_module K t) = oopsed s"
  using loaded_cleanup [OF loaded_kdo [OF _ assms, of "Unregister_uprobe usp" K]]
  by (simp_all add: probe5_cleanup_module_def log_simps)

text \<open>A load starts with fresh static variables.\<close>

definition fresh_probe5 :: "'a probe5_scheme \<Rightarrow> 'a probe5_scheme" where
  "fresh_probe5 s = (zero_statics s)\<lparr>ncalls := 0, usp_pid := 0, usp_vaddr := 0x080484a8\<rparr>"

lemma fresh_probe5_frame [frame_simps]:
  "klog (fresh_probe5 s) = klog s" "oopsed (fresh_probe5 s) = oopsed s" "ncalls (fresh_probe5 s) = 0"
  by (simp_all add: fresh_probe5_def frame_simps)

text \<open>The kernel, the module parameters, and what happens while the module is loaded.\<close>

type_synonym session = "kernel \<times> params \<times> unit event list"

abbreviation probe5_insmod :: "session \<Rightarrow> probe5 \<Rightarrow> int \<times> probe5" where
  "probe5_insmod \<equiv> \<lambda>(K, P, evs) s. probe5_init_module K P (fresh_probe5 s)"

abbreviation probe5_work :: "session \<Rightarrow> probe5 \<Rightarrow> probe5" where
  "probe5_work \<equiv> \<lambda>(K, P, evs). probe5_events K P evs"

abbreviation probe5_rmmod :: "session \<Rightarrow> probe5 \<Rightarrow> probe5" where
  "probe5_rmmod \<equiv> \<lambda>(K, P, evs). probe5_cleanup_module K"

interpretation p5: clean_module probe5_insmod probe5_work probe5_rmmod "\<lambda>_. {Object_probe usp}"
  "\<lambda>s. live_dentries (klog s)" "\<lambda>s. live_probes (klog s)" oopsed
proof (unfold_locales, goal_cases)
  case (1 e s r t)
  obtain K P evs where e: "e = (K, P, evs)" by (cases e)
  show ?case
    using 1 probe5_load [of K P "fresh_probe5 s" r t] by (auto simp: e frame_simps)
next
  case (2 e s t)
  obtain K P evs where e: "e = (K, P, evs)" by (cases e)
  then have l: "loaded (fresh_probe5 s) t"
    "live_probes (klog t) = insert (Object_probe usp) (live_probes (klog s))"
    using 2 probe5_load [of K P "fresh_probe5 s" 0 t] by (simp_all add: frame_simps)
  note run = probe5_run [OF l(1), of K P evs]
  show ?case
    using 2 l(2) run(2) probe5_cleanup [OF run(1), of K] by (auto simp: e frame_simps)
qed

text \<open>Loading \<open>probe5\<close>, any hits, reads and writes of its files, and unloading it leave no probe
  behind, whether or not the load succeeded; after a load that succeeded there is no debugfs entry
  and no stray access either.\<close>

theorem probe5_leaves_no_probe:
  assumes "live_dentries (klog s) = {}" and "Object_probe usp \<notin> live_probes (klog s)"
  shows "let s' = load_cycle probe5_insmod probe5_work probe5_rmmod (K, P, evs) s
    in live_probes (klog s') = live_probes (klog s)
      \<and> (fst (probe5_init_module K P (fresh_probe5 s)) = 0
           \<longrightarrow> live_dentries (klog s') = {} \<and> oopsed s' = oopsed s)"
  using p5.cycle_probes [of s "(K, P, evs)"] p5.cycle_ok [of "(K, P, evs)" s] assms
  by (simp add: Let_def)

definition probe5_zero :: probe5 where
  "probe5_zero = udbg.extend udbg_zero \<lparr>ncalls = 0, usp_pid = 0, usp_vaddr = 0\<rparr>"

theorem probe5_leaves_no_probe_witness:
  "live_probes (klog (load_cycle probe5_insmod probe5_work probe5_rmmod
     (granting_kernel, \<lparr>par_pid = 7, par_verbose = 1, par_vaddr = 0\<rparr>, [Hit (), Cleanup_written 2]) probe5_zero)) = {}"
  using probe5_leaves_no_probe [of probe5_zero granting_kernel
      "\<lparr>par_pid = 7, par_verbose = 1, par_vaddr = 0\<rparr>" "[Hit (), Cleanup_written 2]"]
  by (simp add: probe5_zero_def udbg_zero_def udbg.defs Let_def)

section \<open>probe5lim stops at its limit\<close>

lemma lim_frame [frame_simps]:
  "lim_limit (pr K fmt args s) = lim_limit s" "registered (pr K fmt args s) = registered s"
  "lim_limit (kdo K c s) = lim_limit s" "registered (kdo K c s) = registered s"
  "lim_limit (set_usp P s) = lim_limit s" "registered (set_usp P s) = registered s"
  by (simp_all add: test_printk_def kapi_def set_usp_def Let_def split: prod.splits)

lemma keeps_lim [simp, intro]: "keeps s (s\<lparr>lim_limit := l\<rparr>)" "keeps s (s\<lparr>registered := x\<rparr>)"
  by (simp_all add: keeps_def handles_def dbfs_ready_def)

lemmas loaded_lim [simp] = loaded_keeps [OF _ keeps_lim(1)] loaded_keeps [OF _ keeps_lim(2)]

lemma lim_more:
  "udbg.more s = udbg.more t \<Longrightarrow>
   ncalls s = ncalls t \<and> lim_limit s = lim_limit t \<and> registered s = registered t"
  by (cases s; cases t) simp

definition effective_limit :: "int \<Rightarrow> int" where
  "effective_limit l = (if l = 0 then 100 else l)"

lemma probe5lim_load:
  assumes "probe5lim_init_module K P s = (r, t)" and "live_dentries (klog s) = {}"
  shows "r = - 1 \<and> live_probes (klog t) = live_probes (klog s)
    \<or> r = 0 \<and> loaded s t \<and> live_probes (klog t) = insert (Object_probe usp) (live_probes (klog s))
      \<and> ncalls t = ncalls s \<and> lim_limit t = effective_limit (lim_limit s) \<and> registered t = 1"
proof (rule prologue [OF assms(1) [unfolded probe5lim_init_module_def] assms(2)], goal_cases fails set_up)
  case fails
  then show ?case by blast
next
  case (set_up s1)
  define s2 where "s2 = (set_usp P s1)\<lparr>lim_limit := effective_limit (lim_limit s1)\<rparr>"
  define s3 where "s3 = pr K (''Registering uprobe on pid %d, vaddr %#lx'' @ nl)
    [ArgD (usp_pid s2), ArgX (usp_vaddr s2)] s2"
  have s3: "loaded s s3" "live_probes (klog s3) = live_probes (klog s)" "ncalls s3 = ncalls s"
    "lim_limit s3 = effective_limit (lim_limit s)"
    using set_up(1,2) lim_more [OF set_up(3)] by (simp_all add: s3_def s2_def frame_simps)
  have s2': "(if lim_limit (set_usp P s1) = 0 then (set_usp P s1)\<lparr>lim_limit := 100\<rparr> else set_usp P s1) = s2"
    by (simp add: s2_def effective_limit_def frame_simps)
  obtain r' u where u: "register_or_fail K usp (usp_pid s3) (usp_vaddr s3) s3 = (r', u)" by fastforce
  have t: "r = r'" "t = (if r' = 0 then u\<lparr>registered := 1\<rparr> else u)"
    using set_up(4) u by (auto simp: Let_def s2' s3_def)
  show ?case
    by (rule register_or_fail_cases [OF u s3(1)]) (use s3 t in \<open>auto simp: frame_simps\<close>)
qed

text \<open>The invariant of a loaded \<open>probe5lim\<close> after \<open>n\<close> hits: \<open>registered\<close> mirrors the kernel's view of
  the probe at all times, and the limit decides it as long as \<open>ncalls\<close> has not wrapped around.\<close>

definition lim_inv :: "int \<Rightarrow> registration set \<Rightarrow> nat \<Rightarrow> probe5lim \<Rightarrow> bool" where
  "lim_inv L R n s \<longleftrightarrow>
     lim_limit s = L
     \<and> live_probes (klog s) = (if registered s \<noteq> 0 then insert (Object_probe usp) R else R)
     \<and> (n < 2147483648 \<longrightarrow> ncalls s = int n \<and> (registered s \<noteq> 0 \<longleftrightarrow> n = 0 \<or> int n < L))"

lemma lim_inv_frame:
  "lim_inv L R n s \<Longrightarrow> lim_inv L R n (pr K fmt args s)"
  "lim_inv L R n s \<Longrightarrow> lim_inv L R n (s\<lparr>entry := x\<rparr>)"
  "quiet c \<Longrightarrow> lim_inv L R n s \<Longrightarrow> lim_inv L R n (kdo K c s)"
  using quiet_neutral [of c] by (simp_all add: lim_inv_def frame_simps live_probes_kdo)

lemma lim_inv_add_inst:
  assumes "Object_probe usp \<notin> R" and "lim_inv L R n s"
  shows "keeps s (probe5lim_add_inst K P s)" "lim_inv L R (Suc n) (probe5lim_add_inst K P s)"
proof -
  define s1 where "s1 = (if par_verbose P \<noteq> 0 then pr K (''add() called'' @ nl) [] s else s)"
  define s2 where "s2 = s1\<lparr>ncalls := c_int (ncalls s1 + 1)\<rparr>"
  define s3 where "s3 = pr K (''Unregistering uprobe on pid %d, vaddr %#lx'' @ nl)
    [ArgD (usp_pid s2), ArgX (usp_vaddr s2)] s2"
  have eq: "probe5lim_add_inst K P s =
      (if registered s2 \<noteq> 0 \<and> lim_limit s2 \<le> ncalls s2
       then (kdo K (Unregister_uprobe usp) s3)\<lparr>registered := 0\<rparr> else s2)"
    by (simp add: probe5lim_add_inst_def Let_def s1_def s2_def s3_def)
  have k: "keeps s s2" by (auto simp: s1_def s2_def intro: keeps_trans [OF keeps_pr])
  have k3: "keeps s (kdo K (Unregister_uprobe usp) s3)"
    using k by (simp add: s3_def keeps_kdo_after keeps_pr_after)
  show "keeps s (probe5lim_add_inst K P s)"
    using k keeps_trans [OF k3 keeps_lim(2)] by (simp add: eq)
  have "lim_inv L R n s1" using assms(2) by (simp add: s1_def lim_inv_frame)
  then have s2: "lim_limit s2 = L" "Suc n < 2147483648 \<Longrightarrow> ncalls s2 = int (Suc n)"
    "live_probes (klog s2) = (if registered s2 \<noteq> 0 then insert (Object_probe usp) R else R)"
    "Suc n < 2147483648 \<Longrightarrow> registered s2 \<noteq> 0 \<longleftrightarrow> n = 0 \<or> int n < L"
    using c_int_of_small [of "Suc n"] by (simp_all add: s2_def lim_inv_def frame_simps add.commute)
  show "lim_inv L R (Suc n) (probe5lim_add_inst K P s)"
  proof (cases "registered s2 \<noteq> 0 \<and> lim_limit s2 \<le> ncalls s2")
    case True
    then have "live_probes (klog (kdo K (Unregister_uprobe usp) s3)) = R"
      using s2(3) assms(1) by (simp add: s3_def log_simps frame_simps)
    with True s2 show ?thesis
      by (auto simp: eq lim_inv_def s3_def frame_simps)
  next
    case False
    with s2 show ?thesis by (auto simp: eq lim_inv_def)
  qed
qed

definition probe5lim_events :: "kernel \<Rightarrow> params \<Rightarrow> 'h event list \<Rightarrow> probe5lim \<Rightarrow> probe5lim" where
  "probe5lim_events K P = run_events K (\<lambda>_. probe5lim_add_inst K P) (probe5lim_child_exit K)"

lemma probe5lim_run:
  assumes "loaded s t" and "lim_inv L R 0 t" and "Object_probe usp \<notin> R"
  shows "loaded s (probe5lim_events K P evs t) \<and> lim_inv L R (hits evs) (probe5lim_events K P evs t)"
  unfolding probe5lim_events_def
  by (rule loaded_events)
    (use assms lim_inv_add_inst in \<open>auto simp: probe5lim_child_exit_def lim_inv_frame\<close>)

lemma probe5lim_cleanup:
  assumes "loaded s t" and "lim_inv L R n t" and "Object_probe usp \<notin> R"
  shows "live_probes (klog (probe5lim_cleanup_module K t)) = R"
    "live_dentries (klog (probe5lim_cleanup_module K t)) = {}"
    "oopsed (probe5lim_cleanup_module K t) = oopsed s"
  using assms loaded_cleanup [OF assms(1), of K]
    loaded_cleanup [OF loaded_kdo [OF _ assms(1), of "Unregister_uprobe usp" K]]
  by (simp_all add: probe5lim_cleanup_module_def lim_inv_def log_simps Let_def)

text \<open>A load starts with fresh static variables; \<open>l\<close> is the module parameter \<open>limit\<close>.\<close>

definition fresh_probe5lim :: "int \<Rightarrow> probe5lim \<Rightarrow> probe5lim" where
  "fresh_probe5lim l s = (fresh_probe5 s)\<lparr>lim_limit := l, registered := 0\<rparr>"

lemma fresh_probe5lim_frame [frame_simps]:
  "klog (fresh_probe5lim l s) = klog s" "oopsed (fresh_probe5lim l s) = oopsed s"
  "ncalls (fresh_probe5lim l s) = 0" "lim_limit (fresh_probe5lim l s) = l"
  by (simp_all add: fresh_probe5lim_def frame_simps)

lemma probe5lim_loaded:
  assumes "probe5lim_init_module K P (fresh_probe5lim l s) = (0, t)" and "live_dentries (klog s) = {}"
    and "Object_probe usp \<notin> live_probes (klog s)"
  shows "loaded (fresh_probe5lim l s) t" "lim_inv (effective_limit l) (live_probes (klog s)) 0 t"
  using probe5lim_load [OF assms(1)] assms(2) by (simp_all add: frame_simps lim_inv_def)

abbreviation probe5lim_insmod :: "int \<times> session \<Rightarrow> probe5lim \<Rightarrow> int \<times> probe5lim" where
  "probe5lim_insmod \<equiv> \<lambda>(l, K, P, evs) s. probe5lim_init_module K P (fresh_probe5lim l s)"

abbreviation probe5lim_work :: "int \<times> session \<Rightarrow> probe5lim \<Rightarrow> probe5lim" where
  "probe5lim_work \<equiv> \<lambda>(l, K, P, evs). probe5lim_events K P evs"

abbreviation probe5lim_rmmod :: "int \<times> session \<Rightarrow> probe5lim \<Rightarrow> probe5lim" where
  "probe5lim_rmmod \<equiv> \<lambda>(l, K, P, evs). probe5lim_cleanup_module K"

interpretation p5lim: clean_module probe5lim_insmod probe5lim_work probe5lim_rmmod
  "\<lambda>_. {Object_probe usp}" "\<lambda>s. live_dentries (klog s)" "\<lambda>s. live_probes (klog s)" oopsed
proof (unfold_locales, goal_cases)
  case (1 e s r t)
  obtain l K P evs where e: "e = (l, K, P, evs)" by (cases e)
  show ?case
    using 1 probe5lim_load [of K P "fresh_probe5lim l s" r t] by (auto simp: e frame_simps)
next
  case (2 e s t)
  obtain l K P evs where e: "e = (l, K, P, evs)" by (cases e)
  have l: "loaded (fresh_probe5lim l s) t" "lim_inv (effective_limit l) (live_probes (klog s)) 0 t"
    using 2 probe5lim_loaded [of K P l s t] by (simp_all add: e)
  have no: "Object_probe usp \<notin> live_probes (klog s)" using 2 by simp
  obtain "loaded (fresh_probe5lim l s) (probe5lim_events K P evs t)"
    "lim_inv (effective_limit l) (live_probes (klog s)) (hits evs) (probe5lim_events K P evs t)"
    using probe5lim_run [OF l no] by blast
  from probe5lim_cleanup [OF this no, of K] show ?case by (simp add: e frame_simps)
qed

text \<open>(C26) The handler of \<open>probe5lim\<close> takes its own probe back at the limit and not before: after \<open>n\<close>
  hits (fewer than \<open>2 ^ 31\<close>, whatever else happens in between) the counter is \<open>n\<close> and the probe is
  registered exactly when \<open>n\<close> is 0 or below the limit, where a limit of 0 stands for 100. Unloading
  leaves no probe in either case.\<close>

theorem probe5lim_stops_at_limit:
  assumes "probe5lim_init_module K P (fresh_probe5lim l s) = (0, t)" and "live_dentries (klog s) = {}"
    and "Object_probe usp \<notin> live_probes (klog s)" and "hits evs < 2147483648"
  shows "ncalls (probe5lim_events K P evs t) = int (hits evs)
    \<and> (Object_probe usp \<in> live_probes (klog (probe5lim_events K P evs t))
        \<longleftrightarrow> hits evs = 0 \<or> int (hits evs) < (if l = 0 then 100 else l))
    \<and> live_probes (klog (probe5lim_cleanup_module K (probe5lim_events K P evs t))) = live_probes (klog s)"
proof -
  obtain "loaded (fresh_probe5lim l s) (probe5lim_events K P evs t)"
    "lim_inv (effective_limit l) (live_probes (klog s)) (hits evs) (probe5lim_events K P evs t)"
    using probe5lim_run [OF probe5lim_loaded [OF assms(1-3)] assms(3)] by blast
  with probe5lim_cleanup [OF this assms(3), of K] show ?thesis
    using assms(3,4) by (auto simp: lim_inv_def effective_limit_def)
qed

definition probe5lim_zero :: probe5lim where
  "probe5lim_zero = probe5.extend probe5_zero \<lparr>lim_limit = 0, registered = 0\<rparr>"

theorem probe5lim_stops_at_limit_witness:
  "Object_probe usp \<notin> live_probes (klog (probe5lim_events granting_kernel
      \<lparr>par_pid = 7, par_verbose = 0, par_vaddr = 0\<rparr> [Hit (), Data_read 4096 0, Hit ()]
      (snd (probe5lim_init_module granting_kernel \<lparr>par_pid = 7, par_verbose = 0, par_vaddr = 0\<rparr>
        (fresh_probe5lim 2 probe5lim_zero)))))"
proof -
  let ?P = "\<lparr>par_pid = 7, par_verbose = 0, par_vaddr = 0\<rparr>"
  let ?s = "probe5lim_zero"
  let ?r = "probe5lim_init_module granting_kernel ?P (fresh_probe5lim 2 ?s)"
  have ok: "?r = (0, snd ?r)"
    by (simp add: prod_eq_iff probe5lim_init_module_def granting_kernel_loads case_prod_unfold Let_def)
  show ?thesis
    using probe5lim_stops_at_limit [OF ok, of "[Hit (), Data_read 4096 0, Hit ()]"]
    by (simp add: probe5lim_zero_def probe5_zero_def udbg_zero_def udbg.defs probe5.defs)
qed

section \<open>probe5ag and the address zero\<close>

lemma ag_frame [frame_simps]:
  "nhits (pr K fmt args s) = nhits s" "nprobes (pr K fmt args s) = nprobes s"
  "ag_probes (pr K fmt args s) = ag_probes s" "ag_vaddrs (pr K fmt args s) = ag_vaddrs s"
  "nhits (kdo K c s) = nhits s" "nprobes (kdo K c s) = nprobes s"
  "ag_probes (kdo K c s) = ag_probes s" "ag_vaddrs (kdo K c s) = ag_vaddrs s"
  by (simp_all add: test_printk_def kapi_def split: prod.splits)

lemma keeps_ag [simp, intro]:
  "keeps s (s\<lparr>nhits := n\<rparr>)" "keeps s (s\<lparr>ag_probes := p\<rparr>)" "keeps s (s\<lparr>ag_vaddrs := v\<rparr>)"
  by (simp_all add: keeps_def handles_def dbfs_ready_def)

lemmas loaded_ag [simp] = loaded_keeps [OF _ keeps_ag(1)] loaded_keeps [OF _ keeps_ag(2)]
  loaded_keeps [OF _ keeps_ag(3)]

lemma ag_more: "udbg.more s = udbg.more t \<Longrightarrow> nhits s = nhits t \<and> nprobes s = nprobes t"
  by (cases s; cases t) simp

text \<open>The probes of the array up to an index, as \<open>shut_down\<close> sees them.\<close>

definition ag_set :: "nat \<Rightarrow> registration set" where
  "ag_set n = Object_probe ` ag_obj ` {..<n}"

lemma ag_set_simps [simp]: "ag_set 0 = {}" "ag_set (Suc n) = insert (Object_probe (ag_obj n)) (ag_set n)"
  by (simp_all add: ag_set_def lessThan_Suc)

lemma ag_unregister_fold:
  assumes "loaded s t"
  shows "loaded s (fold (ag_unregister K) [0..<n] t)"
    "ag_vaddrs (fold (ag_unregister K) [0..<n] t) = ag_vaddrs t"
    "ag_probes (fold (ag_unregister K) [0..<n] t) = ag_probes t"
    "live_probes (klog (fold (ag_unregister K) [0..<n] t)) =
       live_probes (klog t) - {Object_probe (ag_obj i) |i. i < n \<and> ag_vaddrs t i \<noteq> 0}"
  using assms
  by (induction n) (auto simp: ag_unregister_def frame_simps log_simps loaded_kdo less_Suc_eq)

lemma shut_down_effect:
  assumes "loaded s t"
  shows "loaded s (shut_down K t)"
    "live_probes (klog (shut_down K t)) =
       live_probes (klog t) - {Object_probe (ag_obj i) |i. i < nat (nprobes t) \<and> ag_vaddrs t i \<noteq> 0}"
    "live_allocs (klog (shut_down K t)) (ag_probes t) = None"
  using ag_unregister_fold [OF assms, where n = "nat (nprobes t)" and K = K]
  by (simp_all add: shut_down_def log_simps loaded_kdo)

text \<open>The array after the first \<open>m\<close> registrations.\<close>

definition ag_inv :: "params \<Rightarrow> registration set \<Rightarrow> nat \<Rightarrow> int \<Rightarrow> nat \<Rightarrow> probe5ag \<Rightarrow> bool" where
  "ag_inv P R n p m t \<longleftrightarrow>
     nat (nprobes t) = n \<and> ag_probes t = p \<and> ag_vaddrs t = (\<lambda>j. if j < m then par_vaddr P else 0)
     \<and> live_probes (klog t) = R \<union> ag_set m"

lemma ag_register_cases:
  assumes "loaded s t" and "ag_inv P R n p m t" and "m < n" and "R \<inter> ag_set n = {}"
    and "ag_register K P m t = (rc, u)"
  shows "rc = None \<and> loaded s u \<and> ag_inv P R n p (Suc m) u
    \<or> (\<exists>ret. rc = Some ret \<and> ret \<noteq> 0) \<and> (par_vaddr P \<noteq> 0 \<longrightarrow> live_probes (klog u) = R)"
proof -
  let ?c = "Register_uprobe (ag_obj m) (par_pid P) (par_vaddr P)"
  define t1 where "t1 = t\<lparr>ag_vaddrs := (ag_vaddrs t)(m := par_vaddr P)\<rparr>"
  define t2 where "t2 = kdo K ?c t1"
  have l: "loaded s t2" using assms(1) by (simp add: t2_def t1_def loaded_kdo)
  have t2: "nat (nprobes t2) = n" "ag_probes t2 = p"
    "ag_vaddrs t2 = (\<lambda>j. if j < Suc m then par_vaddr P else 0)"
    using assms(2) by (auto simp: t2_def t1_def ag_inv_def frame_simps fun_eq_iff less_Suc_eq)
  have k: "kapi K ?c t1 = (k_api K (klog t) ?c, t2)"
    by (simp add: kapi_def t2_def t1_def)
  show ?thesis
  proof (cases "k_api K (klog t) ?c = 0")
    case True
    then have "rc = None" "u = t2" using assms(5) k by (simp_all add: ag_register_def t1_def Let_def)
    moreover have "live_probes (klog t2) = R \<union> ag_set (Suc m)"
      using assms(2) True by (simp add: t2_def t1_def log_simps ag_inv_def kapi_def)
    ultimately show ?thesis using l t2 by (simp add: ag_inv_def)
  next
    case False
    then have rc: "rc = Some (k_api K (klog t) ?c)" "u = u_dbfs_cleanup K (shut_down K t2)"
      using assms(5) k by (simp_all add: ag_register_def t1_def Let_def)
    have "live_probes (klog t2) = R \<union> ag_set m"
      using assms(2) False by (simp add: t2_def t1_def log_simps ag_inv_def kapi_def)
    moreover have "{Object_probe (ag_obj i) |i. i < nat (nprobes t2) \<and> ag_vaddrs t2 i \<noteq> 0} = ag_set (Suc m)"
      if "par_vaddr P \<noteq> 0"
      using that t2 assms(3) unfolding ag_set_def by auto
    moreover have "R \<inter> ag_set (Suc m) = {}" using assms(3,4) unfolding ag_set_def by auto
    ultimately have "live_probes (klog u) = R" if "par_vaddr P \<noteq> 0"
      using that shut_down_effect(2) [OF l, of K] by (auto simp: rc log_simps)
    with rc False show ?thesis by simp
  qed
qed

lemma ag_register_each:
  assumes "loaded s t \<and> ag_inv P R n p 0 t" and "R \<inter> ag_set n = {}"
    and "each (ag_register K P) [0..<n] t = (rc, u)"
  shows "rc = None \<and> (loaded s u \<and> ag_inv P R n p n u)
    \<or> (\<exists>ret. rc = Some ret \<and> ret \<noteq> 0 \<and> (par_vaddr P \<noteq> 0 \<longrightarrow> live_probes (klog u) = R))"
  by (rule each_stages [where I = "\<lambda>m u. loaded s u \<and> ag_inv P R n p m u", OF _ assms(1,3)])
    (use ag_register_cases assms(2) in blast)

lemma probe5ag_load:
  assumes "probe5ag_init_module K P s = (r, t)" and "live_dentries (klog s) = {}"
    and "live_probes (klog s) \<inter> ag_set (nat (nprobes s)) = {}"
  shows "r = 0 \<and> loaded s t
      \<and> ag_inv P (live_probes (klog s)) (nat (nprobes s)) (ag_probes t) (nat (nprobes s)) t
    \<or> r \<noteq> 0 \<and> (par_vaddr P \<noteq> 0 \<longrightarrow> live_probes (klog t) = live_probes (klog s))"
proof (rule prologue [OF assms(1) [unfolded probe5ag_init_module_def] assms(2)], goal_cases fails set_up)
  case fails
  then show ?case by simp
next
  case (set_up s1)
  define s2 where "s2 = pr K (''Registering %d uprobes on pid %d, vaddr %#lx'' @ nl)
    [ArgD (nprobes s1), ArgD (par_pid P), ArgX (par_vaddr P)] s1"
  define z where "z = kapi K (Kzalloc (int (wrap_u 8 (nprobes s2 * k_sizeof K ''uprobe'')))) s2"
  define s3 where "s3 = (snd z)\<lparr>ag_probes := fst z, ag_vaddrs := (\<lambda>_. 0)\<rparr>"
  define p where "p = fst z"
  have s3: "loaded s s3" "live_probes (klog s3) = live_probes (klog s)" "nprobes s3 = nprobes s"
    "ag_probes s3 = p" "ag_vaddrs s3 = (\<lambda>_. 0)"
    using set_up(1,2) ag_more [OF set_up(3)]
    by (simp_all add: s3_def z_def p_def s2_def frame_simps log_simps loaded_kdo)
  have b: "(if p = 0 then (- 1, u_dbfs_cleanup K s3)
      else (case each (ag_register K P) [0..<nat (nprobes s3)] s3 of
        (Some ret, s) \<Rightarrow> (ret, s) | (None, s) \<Rightarrow> (0, s))) = (r, t)"
    using set_up(4) by (simp only: s2_def [symmetric] z_def s3_def p_def Let_def case_prod_unfold)
  obtain rc u where e: "each (ag_register K P) [0..<nat (nprobes s)] s3 = (rc, u)" by fastforce
  have inv: "loaded s s3 \<and> ag_inv P (live_probes (klog s)) (nat (nprobes s)) p 0 s3"
    using s3 by (simp add: ag_inv_def)
  show ?case
  proof (cases "p = 0")
    case True
    then have "r = - 1" "t = u_dbfs_cleanup K s3" using b by simp_all
    then show ?thesis using s3(2) by (simp add: log_simps(1) u_dbfs_cleanup_log)
  next
    case False
    then have b': "(case rc of Some ret \<Rightarrow> (ret, u) | None \<Rightarrow> (0, u)) = (r, t)"
      using b unfolding s3(3) e by (simp split: option.splits)
    from ag_register_each [OF inv assms(3) e]
    show ?thesis
    proof (elim disjE conjE exE)
      assume "rc = None" "loaded s u"
        and i: "ag_inv P (live_probes (klog s)) (nat (nprobes s)) p (nat (nprobes s)) u"
      moreover have "ag_probes u = p" using i by (simp add: ag_inv_def)
      ultimately show ?thesis using b' by auto
    qed (use b' in auto)
  qed
qed

lemma probe5ag_add_inst_effect:
  "keeps s (probe5ag_add_inst K P s)" "klog (probe5ag_add_inst K P s) = klog s"
  "nprobes (probe5ag_add_inst K P s) = nprobes s" "ag_probes (probe5ag_add_inst K P s) = ag_probes s"
  "ag_vaddrs (probe5ag_add_inst K P s) = ag_vaddrs s"
  by (auto simp: probe5ag_add_inst_def Let_def frame_simps intro: keeps_trans [OF keeps_pr])

definition probe5ag_events :: "kernel \<Rightarrow> params \<Rightarrow> 'h event list \<Rightarrow> probe5ag \<Rightarrow> probe5ag" where
  "probe5ag_events K P = run_events K (\<lambda>_. probe5ag_add_inst K P) (probe5ag_child_exit K)"

lemma probe5ag_run:
  assumes "loaded s t" and "ag_inv P R n p m t"
  shows "loaded s (probe5ag_events K P evs t) \<and> ag_inv P R n p m (probe5ag_events K P evs t)"
  unfolding probe5ag_events_def
  by (rule loaded_events [where Q = "\<lambda>_. ag_inv P R n p m"])
    (use assms in \<open>auto simp: ag_inv_def probe5ag_add_inst_effect probe5ag_child_exit_def frame_simps
      live_probes_kdo quiet_neutral\<close>)

definition fresh_probe5ag :: "int \<Rightarrow> probe5ag \<Rightarrow> probe5ag" where
  "fresh_probe5ag n s =
     (zero_statics s)\<lparr>nhits := 0, nprobes := n, ag_probes := 0, ag_vaddrs := (\<lambda>_. 0)\<rparr>"

lemma fresh_probe5ag_frame [frame_simps]:
  "klog (fresh_probe5ag n s) = klog s" "oopsed (fresh_probe5ag n s) = oopsed s"
  "nprobes (fresh_probe5ag n s) = n"
  by (simp_all add: fresh_probe5ag_def frame_simps)

text \<open>(C27) \<open>probe5ag\<close> marks a registered probe by a nonzero address. With a nonzero \<open>vaddr\<close> loading it,
  hits and unloading leave no probe, and the array is freed. With its default \<open>vaddr=0\<close> unloading
  frees the array too, but leaves every one of the \<open>nprobes\<close> probes in it registered.\<close>

theorem probe5ag_unload:
  assumes "probe5ag_init_module K P (fresh_probe5ag n s) = (0, t)" and "live_dentries (klog s) = {}"
    and "\<forall>i. Object_probe (ag_obj i) \<notin> live_probes (klog s)"
  shows "live_probes (klog (probe5ag_cleanup_module K (probe5ag_events K P evs t))) =
      (if par_vaddr P \<noteq> 0 then live_probes (klog s)
       else live_probes (klog s) \<union> {Object_probe (ag_obj i) |i. i < nat n})
    \<and> live_allocs (klog (shut_down K (probe5ag_events K P evs t))) (ag_probes t) = None"
proof -
  let ?R = "live_probes (klog s)" and ?u = "probe5ag_events K P evs t"
  have dis: "?R \<inter> ag_set (nat n) = {}" using assms(3) unfolding ag_set_def by auto
  obtain "loaded (fresh_probe5ag n s) t" "ag_inv P ?R (nat n) (ag_probes t) (nat n) t"
    using probe5ag_load [OF assms(1)] assms(2) dis by (auto simp: frame_simps)
  then obtain l: "loaded (fresh_probe5ag n s) ?u"
    and i: "nat (nprobes ?u) = nat n" "ag_probes ?u = ag_probes t"
      "ag_vaddrs ?u = (\<lambda>j. if j < nat n then par_vaddr P else 0)" "live_probes (klog ?u) = ?R \<union> ag_set (nat n)"
    using probe5ag_run [of "fresh_probe5ag n s" t P ?R "nat n" "ag_probes t" "nat n" K evs]
    by (auto simp: ag_inv_def)
  note sd = shut_down_effect(2,3) [OF l, of K]
  have set: "{Object_probe (ag_obj i) |i. i < nat n} = ag_set (nat n)"
    "{Object_probe (ag_obj i) |i. i < nat n \<and> (if i < nat n then par_vaddr P else 0) \<noteq> 0} =
       (if par_vaddr P \<noteq> 0 then ag_set (nat n) else {})"
    unfolding ag_set_def by auto
  show ?thesis
    using sd dis i by (auto simp: probe5ag_cleanup_module_def log_simps set)
qed

definition probe5ag_zero :: probe5ag where
  "probe5ag_zero = udbg.extend udbg_zero \<lparr>nhits = 0, nprobes = 0, ag_probes = 0, ag_vaddrs = (\<lambda>_. 0)\<rparr>"

lemma granting_kernel_ag: "fst (each (ag_register granting_kernel P) is s) = None"
proof (induction "is" arbitrary: s)
  case (Cons i "is")
  then show ?case by (simp add: ag_register_def kapi_def Let_def)
qed simp

theorem probe5ag_unload_witness:
  "live_probes (klog (probe5ag_cleanup_module granting_kernel
      (probe5ag_events granting_kernel \<lparr>par_pid = 7, par_verbose = 0, par_vaddr = 0\<rparr> [Hit ()]
        (snd (probe5ag_init_module granting_kernel \<lparr>par_pid = 7, par_verbose = 0, par_vaddr = 0\<rparr>
          (fresh_probe5ag 2 probe5ag_zero)))))) =
    {Object_probe (ag_obj i) |i. i < 2}"
proof -
  let ?P = "\<lparr>par_pid = 7, par_verbose = 0, par_vaddr = 0\<rparr>"
  let ?r = "probe5ag_init_module granting_kernel ?P (fresh_probe5ag 2 probe5ag_zero)"
  have "fst (kapi granting_kernel (Kzalloc m) t) \<noteq> 0" for m and t :: probe5ag
    by (simp add: kapi_def)
  then have "?r = (0, snd ?r)"
    by (simp add: prod_eq_iff probe5ag_init_module_def granting_kernel_loads granting_kernel_ag
        case_prod_unfold Let_def)
  from probe5ag_unload [OF this, of "[Hit ()]"] show ?thesis
    by (simp add: probe5ag_zero_def udbg_zero_def udbg.defs)
qed

end
