(* ===== verification/Probe6.thy ===== *)
theory Probe6
  imports Probe5
begin

text \<open>
  \<open>uprobes.existing/probe6.c\<close>, \<open>rprobe6.c\<close> and \<open>suicide.c\<close>: one probe on each function of a table, all
  registered or none. The table \<open>infos\<close> is the array \<open>probes\<close> without the NULL entry that ends it;
  \<open>find_vaddr\<close> comes from a generated file and is the parameter \<open>fv\<close>. The modules share their loops,
  which are stated once over the operations that register and unregister one entry; the locale
  \<open>probe_set\<close> is what the loops rely on, and it is interpreted on the operations of each module.
\<close>

section \<open>State\<close>

record probe_info =
  fname :: string
  pi_ncalls :: int
  pi_registered :: int
  u_pid :: int
  u_vaddr :: int

record rprobe_info = probe_info +
  pi_nret :: int
  rp_pid :: int
  rp_vaddr :: int

record 'i p6 = udbg +
  infos :: "'i probe_info_scheme list"

abbreviation pi_obj :: "nat \<Rightarrow> uobj" where
  "pi_obj i \<equiv> Uobj ''probes'' i"

definition set_info ::
  "nat \<Rightarrow> ('i probe_info_scheme \<Rightarrow> 'i probe_info_scheme) \<Rightarrow> 'i p6 \<Rightarrow> 'i p6" where
  "set_info i f s = s\<lparr>infos := (infos s)[i := f (infos s ! i)]\<rparr>"

section \<open>The loops the modules share\<close>

text \<open>\<open>unregp\<close> takes one entry back; \<open>unregister_all\<close> does so for every registered one.\<close>

definition unregister_entries :: "(nat \<Rightarrow> 'i p6 \<Rightarrow> 'i p6) \<Rightarrow> 'i p6 \<Rightarrow> 'i p6" where
  "unregister_entries unregp s =
     fold (\<lambda>i s. if pi_registered (infos s ! i) \<noteq> 0 then unregp i s else s) [0..<length (infos s)] s"

definition reset_registered :: "'i p6 \<Rightarrow> 'i p6" where
  "reset_registered s = s\<lparr>infos := map (\<lambda>p. p\<lparr>pi_registered := 0\<rparr>) (infos s)\<rparr>"

text \<open>\<open>regp\<close> is \<open>register_probes\<close>.\<close>

definition register_entry ::
  "kernel \<Rightarrow> (nat \<Rightarrow> 'i p6 \<Rightarrow> int \<times> 'i p6) \<Rightarrow> (nat \<Rightarrow> 'i p6 \<Rightarrow> 'i p6) \<Rightarrow> nat \<Rightarrow> 'i p6 \<Rightarrow>
   int option \<times> 'i p6" where
  "register_entry K regp unregp i s =
     (case regp i (pr K (''Registering probes for %s'' @ nl) [ArgS (fname (infos s ! i))] s) of (r, s) \<Rightarrow>
        if r \<noteq> 0 then (Some (- 1), u_dbfs_cleanup K (unregister_entries unregp s)) else (None, s))"

definition register_entries ::
  "kernel \<Rightarrow> (nat \<Rightarrow> 'i p6 \<Rightarrow> int \<times> 'i p6) \<Rightarrow> (nat \<Rightarrow> 'i p6 \<Rightarrow> 'i p6) \<Rightarrow> 'i p6 \<Rightarrow> int \<times> 'i p6" where
  "register_entries K regp unregp s =
     (let s = reset_registered s
      in (case each (register_entry K regp unregp) [0..<length (infos s)] s of
            (Some rc, s) \<Rightarrow> (rc, s)
          | (None, s) \<Rightarrow> (0, s)))"

section \<open>probe6\<close>

definition probe6_u_handler :: "kernel \<Rightarrow> params \<Rightarrow> nat \<Rightarrow> 'i p6 \<Rightarrow> 'i p6" where
  "probe6_u_handler K P i s =
     (let s = set_info i (\<lambda>p. p\<lparr>pi_ncalls := c_int (pi_ncalls p + 1)\<rparr>) s
      in if par_verbose P \<noteq> 0 then pr K (''%s called'' @ nl) [ArgS (fname (infos s ! i))] s else s)"

text \<open>The part of \<open>register_probes\<close> that the three modules have in common: everything up to the mark.\<close>

definition register_u ::
  "kernel \<Rightarrow> params \<Rightarrow> (string \<Rightarrow> int) \<Rightarrow> nat \<Rightarrow> 'i p6 \<Rightarrow> int \<times> 'i p6" where
  "register_u K P fv i s =
     (let s = set_info i (\<lambda>p. p\<lparr>u_pid := par_pid P, u_vaddr := fv (fname p)\<rparr>) s in
      if u_vaddr (infos s ! i) = 0
      then (- 1, pr K (''Unknown function %s'' @ nl) [ArgS (fname (infos s ! i))] s)
      else
        (case kapi K (Register_uprobe (pi_obj i) (u_pid (infos s ! i)) (u_vaddr (infos s ! i))) s of (ret, s) \<Rightarrow>
           if ret \<noteq> 0
           then (- 1, pr K (''register_uprobe for %s returned %d'' @ nl)
                        [ArgS (fname (infos s ! i)), ArgD ret] s)
           else (0, s)))"

definition probe6_register_probes ::
  "kernel \<Rightarrow> params \<Rightarrow> (string \<Rightarrow> int) \<Rightarrow> nat \<Rightarrow> 'i p6 \<Rightarrow> int \<times> 'i p6" where
  "probe6_register_probes K P fv i s =
     (case register_u K P fv i s of (r, s) \<Rightarrow>
        if r \<noteq> 0 then (r, s) else (0, set_info i (\<lambda>p. p\<lparr>pi_registered := 1\<rparr>) s))"

definition probe6_unregister :: "kernel \<Rightarrow> nat \<Rightarrow> 'i p6 \<Rightarrow> 'i p6" where
  "probe6_unregister K i s = kdo K (Unregister_uprobe (pi_obj i)) s"

definition probe6_child_exit :: "kernel \<Rightarrow> 'i p6 \<Rightarrow> 'i p6" where
  "probe6_child_exit K s =
     fold (\<lambda>p. pr K (''probe6 %s=%d calls'' @ nl) [ArgS (fname p), ArgD (pi_ncalls p)]) (infos s) s"

definition probe6_init :: "kernel \<Rightarrow> params \<Rightarrow> (string \<Rightarrow> int) \<Rightarrow> 'i p6 \<Rightarrow> int \<times> 'i p6" where
  "probe6_init K P fv s =
     (case u_dbfs_init K ''probe6'' s of (r, s) \<Rightarrow>
        if r \<noteq> 0 then (- 1, s)
        else register_entries K (probe6_register_probes K P fv) (probe6_unregister K) s)"

definition probe6_exit :: "kernel \<Rightarrow> 'i p6 \<Rightarrow> 'i p6" where
  "probe6_exit K s = u_dbfs_cleanup K (unregister_entries (probe6_unregister K) s)"

section \<open>suicide\<close>

text \<open>Its handler calls \<open>do_exit(SIGFPE)\<close> and returns to nobody; \<open>child_exit\<close> only calls \<open>printk\<close>.
  \<open>register_probes\<close> and \<open>unregister_all\<close> are those of \<open>probe6\<close>, over a table of one entry.\<close>

definition suicide_init :: "kernel \<Rightarrow> params \<Rightarrow> (string \<Rightarrow> int) \<Rightarrow> 'i p6 \<Rightarrow> int \<times> 'i p6" where
  "suicide_init K P fv s =
     (case u_dbfs_init K ''suicide'' s of (r, s) \<Rightarrow>
        if r \<noteq> 0 then (- 1, s)
        else register_entries K (probe6_register_probes K P fv) (probe6_unregister K) s)"

text \<open>The part of a handler's run that the module sees: \<open>Some code\<close> when it ends with \<open>do_exit(code)\<close>, and
  the state.\<close>

definition suicide_u_handler :: "nat \<Rightarrow> 'i p6 \<Rightarrow> int option \<times> 'i p6" where
  "suicide_u_handler i s = (Some SIGFPE, s)"

definition suicide_child_exit :: "'i p6 \<Rightarrow> 'i p6" where
  "suicide_child_exit s = s"

text \<open>The tables as the sources declare them, and the two modules as the kernel sees them.\<close>

definition probe6_names :: "string list" where
  "probe6_names = [''add'', ''bye'', ''adios'', ''au_revoir'', ''auf_wiedersehen'', ''arrivederci'']"

definition suicide_names :: "string list" where
  "suicide_names = [''add'']"

record 'i table_ops =
  t_names :: "string list"
  t_init :: "kernel \<Rightarrow> params \<Rightarrow> (string \<Rightarrow> int) \<Rightarrow> 'i p6 \<Rightarrow> int \<times> 'i p6"
  t_handler :: "kernel \<Rightarrow> params \<Rightarrow> nat \<Rightarrow> 'i p6 \<Rightarrow> int option \<times> 'i p6"
  t_child_exit :: "kernel \<Rightarrow> 'i p6 \<Rightarrow> 'i p6"
  t_exit :: "kernel \<Rightarrow> 'i p6 \<Rightarrow> 'i p6"

definition probe6_ops :: "unit table_ops" where
  "probe6_ops = \<lparr>t_names = probe6_names, t_init = probe6_init,
     t_handler = (\<lambda>K P i s. (None, probe6_u_handler K P i s)), t_child_exit = probe6_child_exit,
     t_exit = probe6_exit\<rparr>"

text \<open>\<open>suicide_exit\<close> has the text of \<open>probe6_exit\<close>.\<close>

definition suicide_ops :: "unit table_ops" where
  "suicide_ops = \<lparr>t_names = suicide_names, t_init = suicide_init, t_handler = (\<lambda>K P. suicide_u_handler),
     t_child_exit = (\<lambda>K. suicide_child_exit), t_exit = probe6_exit\<rparr>"

section \<open>rprobe6\<close>

text \<open>The configuration: whether the architecture has return probes, and whether they need a
  trampoline address to be set first.\<close>

record uretconf =
  arch_supports_uretprobes :: bool
  uprobes_init_uretprobes :: bool

type_synonym rp6 = "\<lparr>pi_nret :: int, rp_pid :: int, rp_vaddr :: int\<rparr> p6"

definition rp_handler :: "kernel \<Rightarrow> params \<Rightarrow> int \<Rightarrow> nat \<Rightarrow> rp6 \<Rightarrow> rp6" where
  "rp_handler K P eax i s =
     (let s = set_info i (\<lambda>p. p\<lparr>pi_nret := c_int (pi_nret p + 1)\<rparr>) s
      in if par_verbose P \<noteq> 0
         then pr K (''%s returns %#lx'' @ nl) [ArgS (fname (infos s ! i)), ArgX eax] s else s)"

definition rprobe6_register_probes ::
  "uretconf \<Rightarrow> kernel \<Rightarrow> params \<Rightarrow> (string \<Rightarrow> int) \<Rightarrow> nat \<Rightarrow> rp6 \<Rightarrow> int \<times> rp6" where
  "rprobe6_register_probes c K P fv i s =
     (case register_u K P fv i s of (r, s) \<Rightarrow>
        if r \<noteq> 0 then (r, s)
        else if \<not> arch_supports_uretprobes c
        then (0, set_info i (\<lambda>p. p\<lparr>pi_registered := 1\<rparr>) s)
        else
          let s = set_info i (\<lambda>p. p\<lparr>rp_pid := par_pid P, rp_vaddr := u_vaddr p\<rparr>) s
          in (case kapi K (Register_uretprobe (pi_obj i) (rp_pid (infos s ! i)) (rp_vaddr (infos s ! i))) s of
                (ret, s) \<Rightarrow>
                if ret \<noteq> 0
                then
                  let s = pr K (''register_uretprobe for %s returned %d'' @ nl)
                            [ArgS (fname (infos s ! i)), ArgD ret] s
                  in (- 1, kdo K (Unregister_uprobe (pi_obj i)) s)
                else (0, set_info i (\<lambda>p. p\<lparr>pi_registered := 1\<rparr>) s)))"

definition rprobe6_unregister :: "uretconf \<Rightarrow> kernel \<Rightarrow> nat \<Rightarrow> 'i p6 \<Rightarrow> 'i p6" where
  "rprobe6_unregister c K i s =
     (let s = kdo K (Unregister_uprobe (pi_obj i)) s
      in if arch_supports_uretprobes c then kdo K (Unregister_uretprobe (pi_obj i)) s else s)"

text \<open>\<open>u_handler\<close> and the loop of \<open>unregister_all\<close> have the text of \<open>probe6\<close>.\<close>

abbreviation rprobe6_u_handler :: "kernel \<Rightarrow> params \<Rightarrow> nat \<Rightarrow> rp6 \<Rightarrow> rp6" where
  "rprobe6_u_handler \<equiv> probe6_u_handler"

abbreviation rprobe6_unregister_all :: "uretconf \<Rightarrow> kernel \<Rightarrow> rp6 \<Rightarrow> rp6" where
  "rprobe6_unregister_all c K \<equiv> unregister_entries (rprobe6_unregister c K)"

definition rprobe6_child_exit :: "kernel \<Rightarrow> rp6 \<Rightarrow> rp6" where
  "rprobe6_child_exit K s =
     fold (\<lambda>p. pr K (''rprobe6 %s=%d, calls=%d returns'' @ nl)
        [ArgS (fname p), ArgD (pi_ncalls p), ArgD (pi_nret p)]) (infos s) s"

text \<open>The trampoline, in the configuration that needs it; \<open>None\<close> means that \<open>rprobe6_init\<close> goes on.\<close>

definition set_trampoline ::
  "uretconf \<Rightarrow> kernel \<Rightarrow> params \<Rightarrow> (string \<Rightarrow> int) \<Rightarrow> rp6 \<Rightarrow> int option \<times> rp6" where
  "set_trampoline c K P fv s =
     (if \<not> (arch_supports_uretprobes c \<and> uprobes_init_uretprobes c) then (None, s)
      else if fv ''main'' = 0 then (Some (- 1), u_dbfs_cleanup K s)
      else
        (case kapi K (Init_uretprobes (par_pid P) (fv ''main'')) s of (result, s) \<Rightarrow>
           if result \<noteq> 0 then (Some (- 1), u_dbfs_cleanup K s) else (None, s)))"

definition rprobe6_init ::
  "uretconf \<Rightarrow> kernel \<Rightarrow> params \<Rightarrow> (string \<Rightarrow> int) \<Rightarrow> rp6 \<Rightarrow> int \<times> rp6" where
  "rprobe6_init c K P fv s =
     (case u_dbfs_init K ''rprobe6'' s of (r, s) \<Rightarrow>
        if r \<noteq> 0 then (- 1, s)
        else
          (case set_trampoline c K P fv s of
             (Some rc, s) \<Rightarrow> (rc, s)
           | (None, s) \<Rightarrow>
               register_entries K (rprobe6_register_probes c K P fv) (rprobe6_unregister c K) s))"

definition rprobe6_exit :: "uretconf \<Rightarrow> kernel \<Rightarrow> rp6 \<Rightarrow> rp6" where
  "rprobe6_exit c K s = u_dbfs_cleanup K (rprobe6_unregister_all c K s)"

section \<open>All or nothing\<close>

lemma p6_frame [frame_simps]:
  "infos (pr K fmt args s) = infos s" "infos (kdo K c s) = infos s"
  by (simp_all add: test_printk_def kapi_def split: prod.splits)

lemma p6_more: "udbg.more s = udbg.more t \<Longrightarrow> infos s = infos t"
  by (cases s; cases t) simp

lemma keeps_infos [simp, intro]: "keeps s (s\<lparr>infos := x\<rparr>)"
  by (simp add: keeps_def handles_def dbfs_ready_def)

lemmas loaded_infos [simp] = loaded_keeps [OF _ keeps_infos]

lemma set_info_simps [simp]:
  "keeps s (set_info i f s)" "klog (set_info i f s) = klog s"
  "infos (set_info i f s) = (infos s)[i := f (infos s ! i)]"
  by (simp_all add: set_info_def)

text \<open>The marks, which decide what \<open>unregister_all\<close> does.\<close>

definition marks :: "'i p6 \<Rightarrow> int list" where
  "marks s = map pi_registered (infos s)"

lemma marks_frame [frame_simps]:
  "marks (pr K fmt args s) = marks s" "marks (kdo K c s) = marks s"
  by (simp_all add: marks_def frame_simps)

lemma marks_set_info [simp]:
  "(\<And>p. pi_registered (f p) = pi_registered p) \<Longrightarrow> marks (set_info i f s) = marks s"
  "marks (set_info i (\<lambda>p. p\<lparr>pi_registered := x\<rparr>) s) = (marks s)[i := x]"
  by (cases "i < length (infos s)"; auto simp: marks_def map_update list_eq_iff_nth_eq nth_list_update)+

text \<open>
  What the loops rely on: \<open>unregp\<close> takes back exactly what \<open>regp\<close> registers for an entry, and a failing
  \<open>regp\<close> leaves the registrations as they were. \<open>own e i\<close> is what entry \<open>i\<close> registers.
\<close>

locale probe_set =
  fixes regp :: "'e \<Rightarrow> nat \<Rightarrow> 'i p6 \<Rightarrow> int \<times> 'i p6"
    and unregp :: "'e \<Rightarrow> nat \<Rightarrow> 'i p6 \<Rightarrow> 'i p6"
    and own :: "'e \<Rightarrow> nat \<Rightarrow> registration set"
  assumes own_disjoint: "i \<noteq> j \<Longrightarrow> own e i \<inter> own e j = {}"
    and unreg_keeps: "keeps s (unregp e i s)"
    and unreg_marks: "marks (unregp e i s) = marks s"
    and unreg_live: "live_probes (klog (unregp e i s)) = live_probes (klog s) - own e i"
    and reg_keeps: "regp e i s = (r, t) \<Longrightarrow> dbfs_ready s \<Longrightarrow> keeps s t"
    and reg_ok: "regp e i s = (0, t) \<Longrightarrow>
          live_probes (klog t) = live_probes (klog s) \<union> own e i \<and> marks t = (marks s)[i := 1]"
    and reg_fail: "regp e i s = (r, t) \<Longrightarrow> r \<noteq> 0 \<Longrightarrow> live_probes (klog s) \<inter> own e i = {} \<Longrightarrow>
          live_probes (klog t) = live_probes (klog s) \<and> marks t = marks s"
begin

lemma unregister_entries_effect:
  "keeps s (unregister_entries (unregp e) s)"
  "live_probes (klog (unregister_entries (unregp e) s)) =
     live_probes (klog s) - (\<Union>i \<in> {i. i < length (marks s) \<and> marks s ! i \<noteq> 0}. own e i)"
proof -
  let ?f = "\<lambda>i s. if pi_registered (infos s ! i) \<noteq> 0 then unregp e i s else s"
  have "keeps s (fold ?f [0..<n] s) \<and> marks (fold ?f [0..<n] s) = marks s
      \<and> live_probes (klog (fold ?f [0..<n] s)) =
          live_probes (klog s) - (\<Union>i \<in> {i. i < n \<and> marks s ! i \<noteq> 0}. own e i)"
    if "n \<le> length (marks s)" for n
    using that
  proof (induction n)
    case 0
    then show ?case by simp
  next
    case (Suc n)
    let ?t = "fold ?f [0..<n] s"
    have IH: "keeps s ?t" "marks ?t = marks s" "live_probes (klog ?t) =
          live_probes (klog s) - (\<Union>i \<in> {i. i < n \<and> marks s ! i \<noteq> 0}. own e i)"
      using Suc by simp_all
    have l: "length (infos ?t) = length (marks s)"
      using arg_cong [OF IH(2), of length] by (simp add: marks_def)
    then have "pi_registered (infos ?t ! n) = marks s ! n"
      using IH(2) Suc.prems by (simp add: marks_def list_eq_iff_nth_eq)
    moreover have "{i. i < Suc n \<and> marks s ! i \<noteq> 0} =
        (if marks s ! n \<noteq> 0 then insert n {i. i < n \<and> marks s ! i \<noteq> 0} else {i. i < n \<and> marks s ! i \<noteq> 0})"
      by (auto simp: less_Suc_eq)
    ultimately show ?case
      using IH keeps_trans [OF IH(1) unreg_keeps [of ?t e n]] unreg_marks [of e n ?t] unreg_live [of e n ?t]
      by auto
  qed
  from this [of "length (infos s)"] show "keeps s (unregister_entries (unregp e) s)"
    "live_probes (klog (unregister_entries (unregp e) s)) =
     live_probes (klog s) - (\<Union>i \<in> {i. i < length (marks s) \<and> marks s ! i \<noteq> 0}. own e i)"
    by (simp_all add: unregister_entries_def marks_def)
qed

text \<open>The loop of the load, from a state with no entry marked.\<close>

definition so_far :: "'e \<Rightarrow> registration set \<Rightarrow> nat \<Rightarrow> nat \<Rightarrow> 'i p6 \<Rightarrow> bool" where
  "so_far e R n m s \<longleftrightarrow> marks s = map (\<lambda>i. if i < m then 1 else 0) [0..<n]
     \<and> live_probes (klog s) = R \<union> (\<Union>i<m. own e i)"

lemma register_entry_cases:
  assumes "loaded b s" and "so_far e R n m s" and "m < n" and "R \<inter> (\<Union>i<n. own e i) = {}"
    and "register_entry K (regp e) (unregp e) m s = (rc, t)"
  shows "rc = None \<and> loaded b t \<and> so_far e R n (Suc m) t
    \<or> rc = Some (- 1) \<and> live_probes (klog t) = R"
proof -
  let ?s = "pr K (''Registering probes for %s'' @ nl) [ArgS (fname (infos s ! m))] s"
  obtain r u where u: "regp e m ?s = (r, u)" by fastforce
  have l: "loaded b ?s" using assms(1) by simp
  then have lu: "loaded b u" using reg_keeps [OF u] loaded_keeps by (simp add: loaded_def) blast
  show ?thesis
  proof (cases "r = 0")
    case True
    then have t: "rc = None" "t = u" using assms(5) u by (simp_all add: register_entry_def)
    have "(map (\<lambda>i. if i < m then 1 else 0) [0..<n])[m := 1] =
        map (\<lambda>i. if i < Suc m then 1 else (0::int)) [0..<n]"
      by (auto simp: list_eq_iff_nth_eq nth_list_update less_Suc_eq)
    then have "so_far e R n (Suc m) u"
      using reg_ok [OF u [unfolded True]] assms(2) by (auto simp: so_far_def frame_simps lessThan_Suc)
    with t lu show ?thesis by simp
  next
    case False
    have "(\<Union>i<m. own e i) \<inter> own e m = {}" using own_disjoint [of _ m e] by fastforce
    moreover have "R \<inter> own e m = {}" using assms(3,4) by blast
    ultimately have dis: "live_probes (klog ?s) \<inter> own e m = {}"
      using assms(2) by (simp add: so_far_def Int_Un_distrib2)
    have "rc = Some (- 1)" "t = u_dbfs_cleanup K (unregister_entries (unregp e) u)"
      using False assms(5) u by (simp_all add: register_entry_def)
    moreover have mu: "marks u = map (\<lambda>i. if i < m then 1 else 0) [0..<n]"
      "live_probes (klog u) = R \<union> (\<Union>i<m. own e i)"
      using reg_fail [OF u False dis] assms(2) by (simp_all add: so_far_def frame_simps)
    moreover have "{i. i < length (marks u) \<and> marks u ! i \<noteq> 0} = {..<m}"
      using assms(3) by (auto simp: mu(1) split: if_splits)
    moreover have "R \<inter> (\<Union>i<m. own e i) = {}" using assms(3,4) by fastforce
    ultimately show ?thesis
      using unregister_entries_effect(2) [of e u] by (auto simp: log_simps)
  qed
qed

lemma register_entries_all_or_nothing:
  assumes "loaded b s" and "live_probes (klog s) \<inter> (\<Union>i<length (infos s). own e i) = {}"
    and "register_entries K (regp e) (unregp e) s = (r, t)"
  shows "r = 0 \<and> loaded b t \<and> so_far e (live_probes (klog s)) (length (infos s)) (length (infos s)) t
    \<or> r = - 1 \<and> live_probes (klog t) = live_probes (klog s)"
proof -
  let ?R = "live_probes (klog s)" and ?n = "length (infos s)"
  let ?s = "reset_registered s" and ?body = "register_entry K (regp e) (unregp e)"
  have "marks ?s = map (\<lambda>i. 0) [0..<?n]"
    by (rule nth_equalityI) (simp_all add: marks_def reset_registered_def)
  then have "so_far e ?R ?n 0 ?s" by (simp add: so_far_def) (simp add: reset_registered_def)
  moreover have "loaded b ?s" using assms(1) by (simp add: reset_registered_def)
  ultimately have start: "loaded b ?s \<and> so_far e ?R ?n 0 ?s" by simp
  have n: "length (infos ?s) = ?n" by (simp add: reset_registered_def)
  obtain rc u where e: "each ?body [0..<?n] ?s = (rc, u)" by fastforce
  have "rc = None \<and> (loaded b u \<and> so_far e ?R ?n ?n u)
      \<or> (\<exists>v. rc = Some v \<and> v = - 1 \<and> live_probes (klog u) = ?R)"
  proof (rule each_stages [where I = "\<lambda>m u. loaded b u \<and> so_far e ?R ?n m u", OF _ start e])
    show "rc = None \<and> loaded b w \<and> so_far e ?R ?n (Suc m) w
        \<or> (\<exists>v. rc = Some v \<and> v = - 1 \<and> live_probes (klog w) = ?R)"
      if "m < ?n" "loaded b u \<and> so_far e ?R ?n m u" "?body m u = (rc, w)" for m u rc w
      using register_entry_cases [OF _ _ that(1) assms(2) that(3), of b] that(2) by simp
  qed
  moreover have "register_entries K (regp e) (unregp e) s =
      (case rc of Some rc \<Rightarrow> (rc, u) | None \<Rightarrow> (0, u))"
    unfolding register_entries_def Let_def n e by (simp split: option.split)
  then have "(case rc of Some rc \<Rightarrow> (rc, u) | None \<Rightarrow> (0, u)) = (r, t)" using assms(3) by simp
  ultimately show ?thesis by (cases rc) simp_all
qed

lemma unregister_entries_restores:
  assumes "so_far e R n n t" and "R \<inter> (\<Union>i<n. own e i) = {}"
  shows "live_probes (klog (unregister_entries (unregp e) t)) = R"
proof -
  have "{i. i < length (marks t) \<and> marks t ! i \<noteq> 0} = {..<n}"
    using assms(1) by (auto simp: so_far_def)
  then show ?thesis
    using assms unregister_entries_effect(2) [of e t] by (auto simp: so_far_def)
qed

end

lemma register_u_effect:
  assumes "register_u K P fv i s = (r, t)"
  shows "keeps s t" "marks t = marks s"
    "r = 0 \<Longrightarrow> live_probes (klog t) = insert (Object_probe (pi_obj i)) (live_probes (klog s))"
    "r \<noteq> 0 \<Longrightarrow> live_probes (klog t) = live_probes (klog s)"
proof -
  define s1 where "s1 = set_info i (\<lambda>p. p\<lparr>u_pid := par_pid P, u_vaddr := fv (fname p)\<rparr>) s"
  let ?c = "Register_uprobe (pi_obj i) (u_pid (infos s1 ! i)) (u_vaddr (infos s1 ! i))"
  have k1: "keeps s s1" "marks s1 = marks s" "klog s1 = klog s" by (simp_all add: s1_def)
  define s2 where "s2 = kdo K ?c s1"
  have k2: "keeps s s2" "marks s2 = marks s" "klog s2 = klog s @ [(?c, k_api K (klog s) ?c)]"
    using k1 by (simp_all add: s2_def keeps_kdo_after frame_simps) (simp add: kapi_def)
  consider (unknown) fmt args where "r = - 1" "t = pr K fmt args s1"
    | (refused) fmt args where "r = - 1" "t = pr K fmt args s2" "k_api K (klog s) ?c \<noteq> 0"
    | (granted) "r = 0" "t = s2" "k_api K (klog s) ?c = 0"
    using assms k1(3) unfolding register_u_def
    by (auto simp: Let_def s1_def [symmetric] case_prod_unfold s2_def [symmetric] split: if_splits)
      (simp_all add: kapi_def)
  then have "keeps s t \<and> marks t = marks s
    \<and> (r = 0 \<longrightarrow> live_probes (klog t) = insert (Object_probe (pi_obj i)) (live_probes (klog s)))
    \<and> (r \<noteq> 0 \<longrightarrow> live_probes (klog t) = live_probes (klog s))"
    by cases (use k1 k2 in \<open>auto simp: frame_simps\<close>)
  then show "keeps s t" "marks t = marks s"
    "r = 0 \<Longrightarrow> live_probes (klog t) = insert (Object_probe (pi_obj i)) (live_probes (klog s))"
    "r \<noteq> 0 \<Longrightarrow> live_probes (klog t) = live_probes (klog s)" by simp_all
qed

section \<open>The operations of the modules\<close>

abbreviation p6_own :: "kernel \<times> params \<times> (string \<Rightarrow> int) \<Rightarrow> nat \<Rightarrow> registration set" where
  "p6_own \<equiv> \<lambda>e i. {Object_probe (pi_obj i)}"

lemma probe6_register_cases:
  assumes "probe6_register_probes K P fv i s = (r, t)"
  shows "keeps s t \<and> (if r = 0
    then live_probes (klog t) = insert (Object_probe (pi_obj i)) (live_probes (klog s)) \<and> marks t = (marks s)[i := 1]
    else live_probes (klog t) = live_probes (klog s) \<and> marks t = marks s)"
proof -
  obtain r1 t1 where u: "register_u K P fv i s = (r1, t1)" by fastforce
  note e = register_u_effect [OF u]
  show ?thesis
  proof (cases "r1 = 0")
    case True
    then have "r = 0" "t = set_info i (\<lambda>p. p\<lparr>pi_registered := 1\<rparr>) t1"
      using assms u by (simp_all add: probe6_register_probes_def)
    with e(1,2) e(3) [OF True] show ?thesis
      using keeps_trans [OF e(1) set_info_simps(1)] by simp
  next
    case False
    then have "r = r1" "t = t1" using assms u by (simp_all add: probe6_register_probes_def)
    with e(1,2) e(4) [OF False] False show ?thesis by simp
  qed
qed

interpretation p6: probe_set "\<lambda>(K, P, fv). probe6_register_probes K P fv" "\<lambda>(K, P, fv). probe6_unregister K" p6_own
proof (unfold_locales, goal_cases)
  case (5 e i s r t)
  obtain K P fv where e: "e = (K, P, fv)" by (cases e)
  show ?case using 5 probe6_register_cases [of K P fv i s r t] by (simp add: e)
next
  case (6 e i s t)
  obtain K P fv where e: "e = (K, P, fv)" by (cases e)
  show ?case using 6 probe6_register_cases [of K P fv i s 0 t] by (simp add: e)
next
  case (7 e i s r t)
  obtain K P fv where e: "e = (K, P, fv)" by (cases e)
  show ?case using 7 probe6_register_cases [of K P fv i s r t] by (simp add: e)
qed (auto simp: probe6_unregister_def frame_simps log_simps keeps_kdo)

abbreviation rp6_own :: "uretconf \<times> kernel \<times> params \<times> (string \<Rightarrow> int) \<Rightarrow> nat \<Rightarrow> registration set" where
  "rp6_own \<equiv> \<lambda>(c, e) i.
     {Object_probe (pi_obj i)} \<union> (if arch_supports_uretprobes c then {Object_retprobe (pi_obj i)} else {})"

text \<open>What \<open>register_probes\<close> of \<open>rprobe6\<close> does once the first probe is registered.\<close>

lemma rprobe6_register_cases:
  assumes "rprobe6_register_probes c K P fv i s = (r, t)" and "register_u K P fv i s = (0, u)"
  shows "keeps u t"
    "r = 0 \<Longrightarrow> marks t = (marks u)[i := 1] \<and> live_probes (klog t) =
       live_probes (klog u) \<union> (if arch_supports_uretprobes c then {Object_retprobe (pi_obj i)} else {})"
    "r \<noteq> 0 \<Longrightarrow> marks t = marks u \<and> live_probes (klog t) = live_probes (klog u) - {Object_probe (pi_obj i)}"
proof -
  define u1 where "u1 = set_info i (\<lambda>p. p\<lparr>rp_pid := par_pid P, rp_vaddr := u_vaddr p\<rparr>) u"
  let ?c = "Register_uretprobe (pi_obj i) (rp_pid (infos u1 ! i)) (rp_vaddr (infos u1 ! i))"
  define u2 where "u2 = kdo K ?c u1"
  have k1: "keeps u u1" "marks u1 = marks u" "klog u1 = klog u" by (simp_all add: u1_def)
  have k2: "keeps u u2" "marks u2 = marks u" "klog u2 = klog u @ [(?c, k_api K (klog u) ?c)]"
    using k1 by (simp_all add: u2_def keeps_kdo_after frame_simps) (simp add: kapi_def)
  consider (no_arch) "\<not> arch_supports_uretprobes c" "r = 0" "t = set_info i (\<lambda>p. p\<lparr>pi_registered := 1\<rparr>) u"
    | (refused) fmt args where "arch_supports_uretprobes c" "r = - 1"
        "t = kdo K (Unregister_uprobe (pi_obj i)) (pr K fmt args u2)" "k_api K (klog u) ?c \<noteq> 0"
    | (granted) "arch_supports_uretprobes c" "r = 0" "t = set_info i (\<lambda>p. p\<lparr>pi_registered := 1\<rparr>) u2"
        "k_api K (klog u) ?c = 0"
    using assms k1(3) unfolding rprobe6_register_probes_def
    by (auto simp: Let_def u1_def [symmetric] case_prod_unfold u2_def [symmetric] split: if_splits)
      (simp_all add: kapi_def)
  then have "keeps u t \<and> (r = 0 \<longrightarrow> marks t = (marks u)[i := 1] \<and> live_probes (klog t) =
       live_probes (klog u) \<union> (if arch_supports_uretprobes c then {Object_retprobe (pi_obj i)} else {}))
    \<and> (r \<noteq> 0 \<longrightarrow> marks t = marks u \<and> live_probes (klog t) = live_probes (klog u) - {Object_probe (pi_obj i)})"
    by cases (use k2 keeps_trans [OF k2(1) set_info_simps(1)] in
        \<open>auto simp: frame_simps log_simps keeps_kdo_after keeps_pr_after\<close>)
  then show "keeps u t"
    "r = 0 \<Longrightarrow> marks t = (marks u)[i := 1] \<and> live_probes (klog t) =
       live_probes (klog u) \<union> (if arch_supports_uretprobes c then {Object_retprobe (pi_obj i)} else {})"
    "r \<noteq> 0 \<Longrightarrow> marks t = marks u \<and> live_probes (klog t) = live_probes (klog u) - {Object_probe (pi_obj i)}"
    by simp_all
qed

interpretation rp6: probe_set "\<lambda>(c, K, P, fv). rprobe6_register_probes c K P fv"
  "\<lambda>(c, K, P, fv). rprobe6_unregister c K" rp6_own
proof (unfold_locales, goal_cases)
  case (5 e i s r t)
  obtain c K P fv where e: "e = (c, K, P, fv)" by (cases e)
  obtain r1 t1 where u: "register_u K P fv i s = (r1, t1)" by fastforce
  show ?case
  proof (cases "r1 = 0")
    case True
    with 5 u show ?thesis
      using keeps_trans [OF register_u_effect(1) [OF u] rprobe6_register_cases(1) [of c K P fv i s r t t1]]
      by (simp add: e)
  next
    case False
    then show ?thesis using 5 u register_u_effect(1) [OF u] by (simp add: e rprobe6_register_probes_def)
  qed
next
  case (6 e i s t)
  obtain c K P fv where e: "e = (c, K, P, fv)" by (cases e)
  obtain r1 t1 where u: "register_u K P fv i s = (r1, t1)" by fastforce
  then have "r1 = 0" using 6 by (auto simp: e rprobe6_register_probes_def split: if_splits)
  with u show ?case
    using 6 register_u_effect(2,3) [OF u] rprobe6_register_cases(2) [of c K P fv i s 0 t t1] by (simp add: e)
next
  case (7 e i s r t)
  obtain c K P fv where e: "e = (c, K, P, fv)" by (cases e)
  obtain r1 t1 where u: "register_u K P fv i s = (r1, t1)" by fastforce
  show ?case
  proof (cases "r1 = 0")
    case True
    with 7 u show ?thesis
      using register_u_effect(2,3) [OF u] rprobe6_register_cases(3) [of c K P fv i s r t t1] by (simp add: e)
  next
    case False
    then show ?thesis
      using 7 u register_u_effect(2,4) [OF u] by (simp add: e rprobe6_register_probes_def)
  qed
qed (auto simp: rprobe6_unregister_def frame_simps log_simps Let_def keeps_kdo keeps_kdo_after split: if_splits)

section \<open>Loading, use, unloading\<close>

text \<open>A table as the sources declare it.\<close>

definition fresh_info :: "string \<Rightarrow> probe_info" where
  "fresh_info n = \<lparr>fname = n, pi_ncalls = 0, pi_registered = 0, u_pid = 0, u_vaddr = 0\<rparr>"

definition fresh_rinfo :: "string \<Rightarrow> rprobe_info" where
  "fresh_rinfo n = probe_info.extend (fresh_info n) \<lparr>pi_nret = 0, rp_pid = 0, rp_vaddr = 0\<rparr>"

definition fresh_p6 :: "'i probe_info_scheme list \<Rightarrow> 'i p6 \<Rightarrow> 'i p6" where
  "fresh_p6 table s = (zero_statics s)\<lparr>infos := table\<rparr>"

lemma fresh_p6_frame [frame_simps]:
  "klog (fresh_p6 table s) = klog s" "oopsed (fresh_p6 table s) = oopsed s"
  "infos (fresh_p6 table s) = table"
  by (simp_all add: fresh_p6_def frame_simps)

lemma loaded_fresh [simp]: "loaded (fresh_p6 table s) t = loaded s t"
  by (simp add: loaded_def frame_simps)

definition p6_events ::
  "kernel \<Rightarrow> params \<Rightarrow> ('i p6 \<Rightarrow> 'i p6) \<Rightarrow> nat event list \<Rightarrow> 'i p6 \<Rightarrow> 'i p6" where
  "p6_events K P child_exit = run_events K (probe6_u_handler K P) child_exit"

lemma probe6_u_handler_effect:
  "keeps s (probe6_u_handler K P i s)" "klog (probe6_u_handler K P i s) = klog s"
  "marks (probe6_u_handler K P i s) = marks s"
  by (simp_all add: probe6_u_handler_def Let_def frame_simps keeps_pr_after)

lemma fold_pr_effect:
  "keeps s (fold (\<lambda>p. pr K (fmt p) (args p)) xs s)" "klog (fold (\<lambda>p. pr K (fmt p) (args p)) xs s) = klog s"
  "marks (fold (\<lambda>p. pr K (fmt p) (args p)) xs s) = marks s"
proof -
  have "keeps s t \<Longrightarrow> keeps s (fold (\<lambda>p. pr K (fmt p) (args p)) xs t)
    \<and> klog (fold (\<lambda>p. pr K (fmt p) (args p)) xs t) = klog t
    \<and> marks (fold (\<lambda>p. pr K (fmt p) (args p)) xs t) = marks t" for t
    by (induction xs arbitrary: t) (simp_all add: frame_simps keeps_pr_after)
  from this [OF keeps_refl] show
    "keeps s (fold (\<lambda>p. pr K (fmt p) (args p)) xs s)" "klog (fold (\<lambda>p. pr K (fmt p) (args p)) xs s) = klog s"
    "marks (fold (\<lambda>p. pr K (fmt p) (args p)) xs s) = marks s" by simp_all
qed

context probe_set
begin

lemma so_far_run:
  assumes "loaded b t" and "so_far e R n n t"
    and hit: "\<And>i u. keeps u (hit i u) \<and> klog (hit i u) = klog u \<and> marks (hit i u) = marks u"
    and exit: "\<And>u. keeps u (child_exit u) \<and> klog (child_exit u) = klog u \<and> marks (child_exit u) = marks u"
  shows "loaded b (run_events K hit child_exit evs t) \<and> so_far e R n n (run_events K hit child_exit evs t)"
  by (rule loaded_events [where Q = "\<lambda>_. so_far e R n n"])
    (use assms in \<open>auto simp: so_far_def frame_simps live_probes_kdo quiet_neutral marks_def\<close>)

text \<open>Unloading a module whose table is fully registered.\<close>

lemma unload:
  assumes "loaded b t" and "so_far e R n n t" and "R \<inter> (\<Union>i<n. own e i) = {}"
  shows "live_probes (klog (u_dbfs_cleanup K (unregister_entries (unregp e) t))) = R"
    "live_dentries (klog (u_dbfs_cleanup K (unregister_entries (unregp e) t))) = {}"
    "oopsed (u_dbfs_cleanup K (unregister_entries (unregp e) t)) = oopsed b"
  using loaded_cleanup [OF loaded_keeps [OF assms(1) unregister_entries_effect(1)], of K e]
    unregister_entries_restores [OF assms(2,3)] by (simp_all add: log_simps)

end

lemma p6_load:
  assumes "(case u_dbfs_init K name s of (r, s) \<Rightarrow>
        if r \<noteq> 0 then (- 1, s)
        else register_entries K (probe6_register_probes K P fv) (probe6_unregister K) s) = (r, t)"
    and "live_dentries (klog s) = {}"
    and "live_probes (klog s) \<inter> (\<Union>i<length (infos s). p6_own (K, P, fv) i) = {}"
  shows "r = 0 \<and> loaded s t
      \<and> p6.so_far (K, P, fv) (live_probes (klog s)) (length (infos s)) (length (infos s)) t
    \<or> r = - 1 \<and> live_probes (klog t) = live_probes (klog s)"
proof (rule prologue [OF assms(1,2)], goal_cases fails set_up)
  case fails
  then show ?case by simp
next
  case (set_up s1)
  have "infos s1 = infos s" using p6_more [OF set_up(3)] .
  then show ?case
    using p6.register_entries_all_or_nothing [OF set_up(1), where e = "(K, P, fv)" and K = K] set_up(2,4) assms(3)
    by simp
qed

lemma rprobe6_load:
  assumes "rprobe6_init c K P fv s = (r, t)" and "live_dentries (klog s) = {}"
    and "live_probes (klog s) \<inter> (\<Union>i<length (infos s). rp6_own (c, K, P, fv) i) = {}"
  shows "r = 0 \<and> loaded s t
      \<and> rp6.so_far (c, K, P, fv) (live_probes (klog s)) (length (infos s)) (length (infos s)) t
    \<or> r = - 1 \<and> live_probes (klog t) = live_probes (klog s)"
proof (rule prologue [OF assms(1) [unfolded rprobe6_init_def] assms(2)], goal_cases fails set_up)
  case fails
  then show ?case by simp
next
  case (set_up s1)
  have i: "infos s1 = infos s" using p6_more [OF set_up(3)] .
  obtain rc s2 where tr: "set_trampoline c K P fv s1 = (rc, s2)" by fastforce
  have "rc = Some (- 1) \<and> live_probes (klog s2) = live_probes (klog s1)
      \<or> rc = None \<and> keeps s1 s2 \<and> infos s2 = infos s1 \<and> live_probes (klog s2) = live_probes (klog s1)"
    using tr by (auto simp: set_trampoline_def case_prod_unfold log_simps frame_simps keeps_kdo split: if_splits)
  then show ?case
  proof (elim disjE conjE)
    assume s2: "rc = None" "keeps s1 s2" "infos s2 = infos s1" "live_probes (klog s2) = live_probes (klog s1)"
    then have "register_entries K (rprobe6_register_probes c K P fv) (rprobe6_unregister c K) s2 = (r, t)"
      using set_up(4) tr by simp
    then show ?case
      using rp6.register_entries_all_or_nothing [OF loaded_keeps [OF set_up(1) s2(2)], where e = "(c, K, P, fv)" and K = K]
        set_up(2) s2 i assms(3) by simp
  qed (use set_up tr in simp)
qed

section \<open>Properties\<close>

lemma p6_used:
  assumes "loaded b t" and "p6.so_far (K, P, fv) R n n t" and "R \<inter> (\<Union>i<n. p6_own (K, P, fv) i) = {}"
    and "\<And>u. keeps u (child_exit u) \<and> klog (child_exit u) = klog u \<and> marks (child_exit u) = marks u"
  shows "live_probes (klog (probe6_exit K (p6_events K P child_exit evs t))) = R"
    "live_dentries (klog (probe6_exit K (p6_events K P child_exit evs t))) = {}"
    "oopsed (probe6_exit K (p6_events K P child_exit evs t)) = oopsed b"
proof -
  have "loaded b (p6_events K P child_exit evs t) \<and> p6.so_far (K, P, fv) R n n (p6_events K P child_exit evs t)"
    unfolding p6_events_def
    by (rule p6.so_far_run [OF assms(1,2) _ assms(4)]) (simp add: probe6_u_handler_effect)
  from p6.unload [OF conjunct1 [OF this] conjunct2 [OF this] assms(3), of K]
  show "live_probes (klog (probe6_exit K (p6_events K P child_exit evs t))) = R"
    "live_dentries (klog (probe6_exit K (p6_events K P child_exit evs t))) = {}"
    "oopsed (probe6_exit K (p6_events K P child_exit evs t)) = oopsed b"
    by (simp_all add: probe6_exit_def)
qed

type_synonym 'h session6 = "kernel \<times> params \<times> (string \<Rightarrow> int) \<times> 'h event list"

abbreviation probe6_insmod :: "nat session6 \<Rightarrow> unit p6 \<Rightarrow> int \<times> unit p6" where
  "probe6_insmod \<equiv> \<lambda>(K, P, fv, evs) s. probe6_init K P fv (fresh_p6 (map fresh_info probe6_names) s)"

abbreviation probe6_work :: "nat session6 \<Rightarrow> unit p6 \<Rightarrow> unit p6" where
  "probe6_work \<equiv> \<lambda>(K, P, fv, evs). p6_events K P (probe6_child_exit K) evs"

abbreviation probe6_rmmod :: "nat session6 \<Rightarrow> unit p6 \<Rightarrow> unit p6" where
  "probe6_rmmod \<equiv> \<lambda>(K, P, fv, evs). probe6_exit K"

lemma probe6_child_exit_effect:
  "keeps s (probe6_child_exit K s)" "klog (probe6_child_exit K s) = klog s"
  "marks (probe6_child_exit K s) = marks s"
  by (simp_all add: probe6_child_exit_def fold_pr_effect)

lemma length_names [simp]: "length probe6_names = 6" "length suicide_names = 1"
  by (simp_all add: probe6_names_def suicide_names_def)

interpretation m6: clean_module probe6_insmod probe6_work probe6_rmmod
  "\<lambda>_. \<Union>i<6. {Object_probe (pi_obj i)}" "\<lambda>s. live_dentries (klog s)" "\<lambda>s. live_probes (klog s)" oopsed
proof (unfold_locales, goal_cases)
  case (1 e s r t)
  obtain K P fv evs where e: "e = (K, P, fv, evs)" by (cases e)
  have "probe6_init K P fv (fresh_p6 (map fresh_info probe6_names) s) = (r, t)" using 1(1) by (simp add: e)
  from p6_load [OF this [unfolded probe6_init_def]] 1(2-4) show ?case by (simp add: frame_simps)
next
  case (2 e s t)
  obtain K P fv evs where e: "e = (K, P, fv, evs)" by (cases e)
  let ?s = "fresh_p6 (map fresh_info probe6_names) s" and ?R = "live_probes (klog s)"
  have i: "probe6_init K P fv ?s = (0, t)" using 2(1) by (simp add: e)
  have "loaded ?s t \<and> p6.so_far (K, P, fv) ?R 6 6 t"
    using p6_load [OF i [unfolded probe6_init_def]] 2(2,3) by (simp add: frame_simps)
  from p6_used [OF conjunct1 [OF this] conjunct2 [OF this], of "probe6_child_exit K" evs] 2(3)
  show ?case by (simp add: e probe6_child_exit_effect frame_simps)
qed

text \<open>A session with either module: hits by any tasks, reads of \<open>data\<close>, writes to \<open>cleanup\<close>.\<close>

definition table_events :: "unit table_ops \<Rightarrow> kernel \<Rightarrow> params \<Rightarrow> nat event list \<Rightarrow> unit p6 \<Rightarrow> unit p6" where
  "table_events M K P = run_events K (\<lambda>i s. snd (t_handler M K P i s)) (t_child_exit M K)"

lemma table_hit_effect:
  assumes "M \<in> {probe6_ops, suicide_ops}"
  shows "keeps u (snd (t_handler M K P i u)) \<and> klog (snd (t_handler M K P i u)) = klog u
      \<and> marks (snd (t_handler M K P i u)) = marks u"
    "keeps u (t_child_exit M K u) \<and> klog (t_child_exit M K u) = klog u \<and> marks (t_child_exit M K u) = marks u"
  using assms
  by (auto simp: probe6_ops_def suicide_ops_def probe6_u_handler_effect suicide_u_handler_def
      suicide_child_exit_def probe6_child_exit_effect)

text \<open>(C28) \<open>probe6\<close> and \<open>suicide\<close> register a probe on every function of their table or, when one is
  unknown or refused, on none; what a successful load registered is gone after any use of the module
  and its unloading. A hit of \<open>suicide\<close> ends the task with SIGFPE.\<close>

theorem probe6_all_or_nothing:
  assumes "M \<in> {probe6_ops, suicide_ops}"
    and "t_init M K P fv (fresh_p6 (map fresh_info (t_names M)) s) = (r, t)" and "live_dentries (klog s) = {}"
    and "\<forall>i. Object_probe (pi_obj i) \<notin> live_probes (klog s)"
  shows "(if r = 0
     then live_probes (klog t) = live_probes (klog s) \<union> {Object_probe (pi_obj i) |i. i < length (t_names M)}
       \<and> live_probes (klog (t_exit M K (table_events M K P evs t))) = live_probes (klog s)
     else r = - 1 \<and> live_probes (klog t) = live_probes (klog s))
    \<and> fst (t_handler suicide_ops K P i u) = Some SIGFPE"
proof -
  let ?s = "fresh_p6 (map fresh_info (t_names M)) s" and ?n = "length (t_names M)"
  have "\<exists>name. t_init M K P fv = (\<lambda>s. case u_dbfs_init K name s of (r, s) \<Rightarrow> if r \<noteq> 0 then (- 1, s)
      else register_entries K (probe6_register_probes K P fv) (probe6_unregister K) s)"
    using assms(1) by (auto simp: fun_eq_iff probe6_ops_def suicide_ops_def probe6_init_def suicide_init_def)
  then obtain name where l: "(case u_dbfs_init K name ?s of (r, s) \<Rightarrow> if r \<noteq> 0 then (- 1, s)
      else register_entries K (probe6_register_probes K P fv) (probe6_unregister K) s) = (r, t)"
    using assms(2) by auto
  have dis: "live_probes (klog s) \<inter> (\<Union>i<?n. p6_own (K, P, fv) i) = {}" using assms(4) by auto
  have cases: "r = 0 \<and> loaded ?s t \<and> p6.so_far (K, P, fv) (live_probes (klog s)) ?n ?n t
      \<or> r = - 1 \<and> live_probes (klog t) = live_probes (klog s)"
    using p6_load [OF l] assms(3) dis by (simp add: frame_simps)
  have ex: "t_exit M K u = u_dbfs_cleanup K (unregister_entries (probe6_unregister K) u)" for u
    using assms(1) by (auto simp: probe6_ops_def suicide_ops_def probe6_exit_def)
  have gone: "live_probes (klog (t_exit M K (table_events M K P evs t))) = live_probes (klog s)"
    if "loaded ?s t" "p6.so_far (K, P, fv) (live_probes (klog s)) ?n ?n t"
  proof -
    have "loaded ?s (table_events M K P evs t)
        \<and> p6.so_far (K, P, fv) (live_probes (klog s)) ?n ?n (table_events M K P evs t)"
      unfolding table_events_def by (rule p6.so_far_run [OF that]) (rule table_hit_effect [OF assms(1)])+
    from p6.unload(1) [OF conjunct1 [OF this] conjunct2 [OF this] dis, of K] show ?thesis by (simp add: ex)
  qed
  have "(\<Union>i<?n. p6_own (K, P, fv) i) = {Object_probe (pi_obj i) |i. i < ?n}" by auto
  then have "if r = 0
     then live_probes (klog t) = live_probes (klog s) \<union> {Object_probe (pi_obj i) |i. i < ?n}
       \<and> live_probes (klog (t_exit M K (table_events M K P evs t))) = live_probes (klog s)
     else r = - 1 \<and> live_probes (klog t) = live_probes (klog s)"
    using cases gone by (auto simp: p6.so_far_def)
  then show ?thesis by (simp add: suicide_ops_def suicide_u_handler_def)
qed

definition p6_zero :: "'i p6" where
  "p6_zero = udbg.extend udbg_zero \<lparr>infos = []\<rparr>"

lemma p6_zero_log [simp]: "klog p6_zero = []"
  by (simp add: p6_zero_def udbg_zero_def udbg.defs)

lemma granting_register_u:
  "i < length (infos s) \<Longrightarrow> fv (fname (infos s ! i)) \<noteq> 0 \<Longrightarrow>
   fst (probe6_register_probes granting_kernel P fv i s) = 0"
  by (simp add: probe6_register_probes_def register_u_def kapi_def Let_def)

lemma suicide_loads:
  "fst (suicide_init granting_kernel P (\<lambda>_. 64) (fresh_p6 (map fresh_info suicide_names) p6_zero)) = 0"
proof -
  let ?s = "fresh_p6 (map fresh_info suicide_names) (p6_zero :: unit p6)"
  obtain r u where u: "u_dbfs_init granting_kernel ''suicide'' ?s = (r, u)" by fastforce
  have "r = 0" using granting_kernel_loads(1) [of "''suicide''" ?s] u by simp
  moreover have "length (infos u) = 1"
    using p6_more [OF u_dbfs_init_only(2) [OF u]] by (simp add: frame_simps)
  ultimately show ?thesis
    by (simp add: suicide_init_def u register_entries_def Let_def register_entry_def reset_registered_def
        granting_register_u case_prod_unfold frame_simps)
qed

theorem probe6_all_or_nothing_witness:
  "live_probes (klog (snd (suicide_init granting_kernel \<lparr>par_pid = 7, par_verbose = 1, par_vaddr = 0\<rparr>
     (\<lambda>_. 64) (fresh_p6 (map fresh_info suicide_names) p6_zero)))) = {Object_probe (pi_obj 0)}"
proof -
  let ?P = "\<lparr>par_pid = 7, par_verbose = 1, par_vaddr = 0\<rparr>"
  let ?r = "suicide_init granting_kernel ?P (\<lambda>_. 64) (fresh_p6 (map fresh_info suicide_names) p6_zero)"
  have "?r = (0, snd ?r)" using suicide_loads by (simp add: prod_eq_iff)
  then show ?thesis
    using probe6_all_or_nothing [where M = suicide_ops and K = granting_kernel and P = ?P and fv = "\<lambda>_. 64"
        and s = p6_zero and r = 0 and t = "snd ?r" and evs = "[]"] by (simp add: suicide_ops_def)
qed

section \<open>rprobe6\<close>

text \<open>The handlers: an entry, or a return with the value found in \<open>eax\<close>.\<close>

datatype r6_hit = Entry nat | Return nat int

fun run_r6_hit :: "kernel \<Rightarrow> params \<Rightarrow> r6_hit \<Rightarrow> rp6 \<Rightarrow> rp6" where
  "run_r6_hit K P (Entry i) = rprobe6_u_handler K P i"
| "run_r6_hit K P (Return i eax) = rp_handler K P eax i"

definition rp6_events :: "kernel \<Rightarrow> params \<Rightarrow> r6_hit event list \<Rightarrow> rp6 \<Rightarrow> rp6" where
  "rp6_events K P = run_events K (run_r6_hit K P) (rprobe6_child_exit K)"

lemma run_r6_hit_effect:
  "keeps s (run_r6_hit K P h s) \<and> klog (run_r6_hit K P h s) = klog s \<and> marks (run_r6_hit K P h s) = marks s"
  by (cases h) (simp_all add: probe6_u_handler_effect rp_handler_def Let_def frame_simps keeps_pr_after)

lemma rprobe6_child_exit_effect:
  "keeps s (rprobe6_child_exit K s) \<and> klog (rprobe6_child_exit K s) = klog s
   \<and> marks (rprobe6_child_exit K s) = marks s"
  by (simp add: rprobe6_child_exit_def fold_pr_effect)

lemma rp6_used:
  assumes "loaded b t" and "rp6.so_far (c, K, P, fv) R n n t" and "R \<inter> (\<Union>i<n. rp6_own (c, K, P, fv) i) = {}"
  shows "live_probes (klog (rprobe6_exit c K (rp6_events K P evs t))) = R"
    "live_dentries (klog (rprobe6_exit c K (rp6_events K P evs t))) = {}"
    "oopsed (rprobe6_exit c K (rp6_events K P evs t)) = oopsed b"
proof -
  have "loaded b (rp6_events K P evs t) \<and> rp6.so_far (c, K, P, fv) R n n (rp6_events K P evs t)"
    unfolding rp6_events_def by (rule rp6.so_far_run [OF assms(1,2) run_r6_hit_effect rprobe6_child_exit_effect])
  from rp6.unload [OF conjunct1 [OF this] conjunct2 [OF this] assms(3), of K]
  show "live_probes (klog (rprobe6_exit c K (rp6_events K P evs t))) = R"
    "live_dentries (klog (rprobe6_exit c K (rp6_events K P evs t))) = {}"
    "oopsed (rprobe6_exit c K (rp6_events K P evs t)) = oopsed b"
    by (simp_all add: rprobe6_exit_def)
qed

abbreviation rprobe6_insmod :: "uretconf \<times> r6_hit session6 \<Rightarrow> rp6 \<Rightarrow> int \<times> rp6" where
  "rprobe6_insmod \<equiv> \<lambda>(c, K, P, fv, evs) s. rprobe6_init c K P fv (fresh_p6 (map fresh_rinfo probe6_names) s)"

abbreviation rprobe6_work :: "uretconf \<times> r6_hit session6 \<Rightarrow> rp6 \<Rightarrow> rp6" where
  "rprobe6_work \<equiv> \<lambda>(c, K, P, fv, evs). rp6_events K P evs"

abbreviation rprobe6_rmmod :: "uretconf \<times> r6_hit session6 \<Rightarrow> rp6 \<Rightarrow> rp6" where
  "rprobe6_rmmod \<equiv> \<lambda>(c, K, P, fv, evs). rprobe6_exit c K"

interpretation rm6: clean_module rprobe6_insmod rprobe6_work rprobe6_rmmod
  "\<lambda>(c, K, P, fv, evs). \<Union>i<6. rp6_own (c, K, P, fv) i"
  "\<lambda>s. live_dentries (klog s)" "\<lambda>s. live_probes (klog s)" oopsed
proof (unfold_locales, goal_cases)
  case (1 e s r t)
  obtain c K P fv evs where e: "e = (c, K, P, fv, evs)" by (cases e)
  have "rprobe6_init c K P fv (fresh_p6 (map fresh_rinfo probe6_names) s) = (r, t)" using 1(1) by (simp add: e)
  from rprobe6_load [OF this] 1(2-4) show ?case by (simp add: frame_simps e)
next
  case (2 e s t)
  obtain c K P fv evs where e: "e = (c, K, P, fv, evs)" by (cases e)
  let ?s = "fresh_p6 (map fresh_rinfo probe6_names) s" and ?R = "live_probes (klog s)"
  have i: "rprobe6_init c K P fv ?s = (0, t)" using 2(1) by (simp add: e)
  have "loaded ?s t \<and> rp6.so_far (c, K, P, fv) ?R 6 6 t"
    using rprobe6_load [OF i] 2(2,3) by (simp add: frame_simps e)
  from rp6_used [OF conjunct1 [OF this] conjunct2 [OF this], of evs] 2(3)
  show ?case by (simp add: e frame_simps)
qed

text \<open>(C29) In every configuration, \<open>rprobe6\<close> leaves no entry probe and no return probe behind: neither when
  a load fails half way, after some entries have both probes and one has only the first, nor after a
  load that succeeded, any calls and returns of the probed functions, and the unload.\<close>

theorem rprobe6_leaves_no_probe:
  assumes "live_dentries (klog s) = {}"
    and "\<forall>i. Object_probe (pi_obj i) \<notin> live_probes (klog s) \<and> Object_retprobe (pi_obj i) \<notin> live_probes (klog s)"
  shows "let s' = load_cycle rprobe6_insmod rprobe6_work rprobe6_rmmod (c, K, P, fv, evs) s
    in live_probes (klog s') = live_probes (klog s)
      \<and> (fst (rprobe6_insmod (c, K, P, fv, evs) s) = 0
           \<longrightarrow> live_dentries (klog s') = {} \<and> oopsed s' = oopsed s)"
proof -
  have "live_probes (klog s) \<inter> (\<Union>i<6. rp6_own (c, K, P, fv) i) = {}" using assms(2) by (auto split: if_splits)
  then show ?thesis
    using rm6.cycle_probes [of s "(c, K, P, fv, evs)"] rm6.cycle_ok [of "(c, K, P, fv, evs)" s] assms(1)
    by (simp add: Let_def)
qed

theorem rprobe6_leaves_no_probe_witness:
  "live_probes (klog (load_cycle rprobe6_insmod rprobe6_work rprobe6_rmmod
     (\<lparr>arch_supports_uretprobes = True, uprobes_init_uretprobes = False\<rparr>, granting_kernel,
      \<lparr>par_pid = 7, par_verbose = 1, par_vaddr = 0\<rparr>, \<lambda>n. if n = ''bye'' then 0 else 64, [Hit (Entry 0)]) p6_zero)) = {}"
  using rprobe6_leaves_no_probe [of p6_zero "\<lparr>arch_supports_uretprobes = True, uprobes_init_uretprobes = False\<rparr>"
      granting_kernel "\<lparr>par_pid = 7, par_verbose = 1, par_vaddr = 0\<rparr>" "\<lambda>n. if n = ''bye'' then 0 else 64"
      "[Hit (Entry 0)]"]
  by (simp add: Let_def)

end
