(* ===== verification/Blink.thy ===== *)
theory Blink
  imports Legacy_Module
begin

text \<open>
  \<open>uprobes.existing/blink.c\<close> and \<open>blink2.c\<close>: a steady handler that registers a second probe at every
  third hit while it is not registered, and a handler of that second probe that unregisters it at
  every fifth. \<open>blink.c\<close> places both at one address, \<open>blink2.c\<close> at two functions of the probed program.
\<close>

section \<open>State and handlers\<close>

record blink = udbg +
  bl_ncalls :: int
  blink_registered :: int
  steady_pid :: int
  steady_vaddr :: int
  blink_pid :: int
  blink_vaddr :: int

abbreviation usp_steady :: uobj where
  "usp_steady \<equiv> Uobj ''usp_steady'' 0"

abbreviation usp_blink :: uobj where
  "usp_blink \<equiv> Uobj ''usp_blink'' 0"

text \<open>\<open>reg_callback\<close> of the two modules; \<open>pid\<close> and \<open>vaddr\<close> are those of the probe.\<close>

definition blink_reg_callback :: "kernel \<Rightarrow> params \<Rightarrow> int \<Rightarrow> int \<Rightarrow> bool \<Rightarrow> int \<Rightarrow> blink \<Rightarrow> blink" where
  "blink_reg_callback K P pid vaddr reg result s =
     (if par_verbose P = 0 then s
      else
        let s = pr K ''%sregistration of uprobe on pid %d, vaddr %#lx was ''
                  [ArgS (if reg then '''' else ''un''), ArgD pid, ArgX vaddr] s
        in if result = 0 then pr K (''successful'' @ nl) [] s
           else pr K (''unsuccessful; status = %d'' @ nl) [ArgD result] s)"

definition blink_handler :: "kernel \<Rightarrow> params \<Rightarrow> blink \<Rightarrow> blink" where
  "blink_handler K P s =
     (if bl_ncalls s mod 5 = 0
      then
        let s = (if par_verbose P \<noteq> 0
                 then pr K (''ncalls = %d: Unregistering blink handler'' @ nl) [ArgD (bl_ncalls s)] s else s);
            s = kdo K (Unregister_uprobe usp_blink) s
        in s\<lparr>blink_registered := 0\<rparr>
      else s)"

definition register_blink :: "kernel \<Rightarrow> blink \<Rightarrow> blink" where
  "register_blink K s =
     (case kapi K (Register_uprobe usp_blink (blink_pid s) (blink_vaddr s)) s of (result, s) \<Rightarrow>
        if result \<noteq> - EINPROGRESS
        then pr K (''steady handler'' @ [CHR 0x27] @ ''s register_uprobe() failed; returned %d'' @ nl) [ArgD result] s
        else s\<lparr>blink_registered := 1\<rparr>)"

definition steady :: "regconf \<Rightarrow> kernel \<Rightarrow> params \<Rightarrow> blink \<Rightarrow> blink" where
  "steady c K P s =
     (let s = s\<lparr>bl_ncalls := c_int (bl_ncalls s + 1)\<rparr> in
      if blink_registered s = 0 \<and> bl_ncalls s mod 3 = 0
      then
        let s = (if par_verbose P \<noteq> 0
                 then pr K (''ncalls = %d: Registering blink handler'' @ nl) [ArgD (bl_ncalls s)] s else s)
        in if uprobes_reg_callback c then register_blink K s else s
      else s)"

definition blink_child_exit :: "kernel \<Rightarrow> blink \<Rightarrow> blink" where
  "blink_child_exit K s = pr K (''ncalls=%d'' @ nl) [ArgD (bl_ncalls s)] s"

section \<open>Loading and unloading\<close>

definition blink_init_module :: "kernel \<Rightarrow> params \<Rightarrow> blink \<Rightarrow> int \<times> blink" where
  "blink_init_module K P s =
     (case u_dbfs_init K ''blink'' s of (r, s) \<Rightarrow>
        if r \<noteq> 0 then (- 1, s)
        else
          let s = s\<lparr>steady_pid := par_pid P\<rparr>;
              s = (if par_vaddr P \<noteq> 0 then s\<lparr>steady_vaddr := par_vaddr P\<rparr> else s);
              s = pr K (''Registering steady handler on pid %d, vaddr %#lx'' @ nl)
                    [ArgD (steady_pid s), ArgX (steady_vaddr s)] s
          in (case register_or_fail K usp_steady (steady_pid s) (steady_vaddr s) s of (r, s) \<Rightarrow>
                (r, if r = 0 then s\<lparr>blink_pid := steady_pid s, blink_vaddr := steady_vaddr s\<rparr> else s)))"

text \<open>\<open>find_vaddr\<close> of \<open>blink2.c\<close> comes from a generated file and is the parameter \<open>fv\<close>.\<close>

definition blink2_init_module :: "kernel \<Rightarrow> params \<Rightarrow> (string \<Rightarrow> int) \<Rightarrow> blink \<Rightarrow> int \<times> blink" where
  "blink2_init_module K P fv s =
     (case u_dbfs_init K ''blink2'' s of (r, s) \<Rightarrow>
        if r \<noteq> 0 then (- 1, s)
        else
          let s = s\<lparr>steady_pid := par_pid P, steady_vaddr := fv ''add''\<rparr> in
          if steady_vaddr s = 0 then (- 1, u_dbfs_cleanup K s)
          else
            let s = s\<lparr>blink_pid := par_pid P, blink_vaddr := fv ''subtract''\<rparr> in
            if blink_vaddr s = 0 then (- 1, u_dbfs_cleanup K s)
            else
              let s = pr K (''Registering steady handler on pid %d, vaddr %#lx'' @ nl)
                        [ArgD (steady_pid s), ArgX (steady_vaddr s)] s
              in register_or_fail K usp_steady (steady_pid s) (steady_vaddr s) s)"

text \<open>\<open>cleanup_module\<close> of both modules.\<close>

definition blink_cleanup_module :: "kernel \<Rightarrow> blink \<Rightarrow> blink" where
  "blink_cleanup_module K s =
     (let s = kdo K (Unregister_uprobe usp_steady) s;
          s = (if blink_registered s \<noteq> 0 then kdo K (Unregister_uprobe usp_blink) s else s)
      in u_dbfs_cleanup K s)"

section \<open>The two modules\<close>

text \<open>The functions of each module. Those of \<open>blink2.c\<close> but \<open>init_module\<close> have the text of \<open>blink.c\<close>.\<close>

record blink_ops =
  bo_init :: "kernel \<Rightarrow> params \<Rightarrow> (string \<Rightarrow> int) \<Rightarrow> blink \<Rightarrow> int \<times> blink"
  bo_steady :: "regconf \<Rightarrow> kernel \<Rightarrow> params \<Rightarrow> blink \<Rightarrow> blink"
  bo_blink :: "kernel \<Rightarrow> params \<Rightarrow> blink \<Rightarrow> blink"
  bo_callback :: "kernel \<Rightarrow> params \<Rightarrow> int \<Rightarrow> int \<Rightarrow> bool \<Rightarrow> int \<Rightarrow> blink \<Rightarrow> blink"
  bo_child_exit :: "kernel \<Rightarrow> blink \<Rightarrow> blink"
  bo_cleanup :: "kernel \<Rightarrow> blink \<Rightarrow> blink"

definition blink_module :: blink_ops where
  "blink_module = \<lparr>bo_init = (\<lambda>K P fv. blink_init_module K P), bo_steady = steady, bo_blink = blink_handler,
     bo_callback = blink_reg_callback, bo_child_exit = blink_child_exit, bo_cleanup = blink_cleanup_module\<rparr>"

definition blink2_module :: blink_ops where
  "blink2_module = \<lparr>bo_init = blink2_init_module, bo_steady = steady, bo_blink = blink_handler,
     bo_callback = blink_reg_callback, bo_child_exit = blink_child_exit, bo_cleanup = blink_cleanup_module\<rparr>"

section \<open>The flag and the registration\<close>

text \<open>A run of one of the two handlers, or of the registration callback.\<close>

datatype blink_hit = Steady | Blinks | Completed int int bool int

fun run_blink_hit :: "regconf \<Rightarrow> kernel \<Rightarrow> params \<Rightarrow> blink_hit \<Rightarrow> blink \<Rightarrow> blink" where
  "run_blink_hit c K P Steady s = steady c K P s"
| "run_blink_hit c K P Blinks s = blink_handler K P s"
| "run_blink_hit c K P (Completed pid vaddr reg result) s = blink_reg_callback K P pid vaddr reg result s"

definition blink_events :: "regconf \<Rightarrow> kernel \<Rightarrow> params \<Rightarrow> blink_hit event list \<Rightarrow> blink \<Rightarrow> blink" where
  "blink_events c K P = run_events K (run_blink_hit c K P) (blink_child_exit K)"

text \<open>The same for either module.\<close>

fun module_hit :: "blink_ops \<Rightarrow> regconf \<Rightarrow> kernel \<Rightarrow> params \<Rightarrow> blink_hit \<Rightarrow> blink \<Rightarrow> blink" where
  "module_hit M c K P Steady s = bo_steady M c K P s"
| "module_hit M c K P Blinks s = bo_blink M K P s"
| "module_hit M c K P (Completed pid vaddr reg result) s = bo_callback M K P pid vaddr reg result s"

definition blink_session :: "blink_ops \<Rightarrow> regconf \<Rightarrow> kernel \<Rightarrow> params \<Rightarrow> blink_hit event list \<Rightarrow> blink \<Rightarrow> blink" where
  "blink_session M c K P = run_events K (module_hit M c K P) (bo_child_exit M K)"

lemma blink_modules:
  assumes "M \<in> {blink_module, blink2_module}"
  shows "blink_session M = blink_events" "bo_cleanup M = blink_cleanup_module"
    "bo_init M K P fv s = (r, t) \<Longrightarrow> blink_init_module K P s = (r, t) \<or> blink2_init_module K P fv s = (r, t)"
proof -
  have hit: "module_hit M c K P h s = run_blink_hit c K P h s" for c K P h s
    using assms by (cases h) (auto simp: blink_module_def blink2_module_def)
  have "module_hit M = run_blink_hit" by (intro ext) (rule hit)
  moreover have "bo_child_exit M = blink_child_exit"
    using assms by (auto simp: blink_module_def blink2_module_def)
  ultimately show "blink_session M = blink_events"
    by (intro ext) (simp add: blink_session_def blink_events_def)
  show "bo_cleanup M = blink_cleanup_module"
    "bo_init M K P fv s = (r, t) \<Longrightarrow> blink_init_module K P s = (r, t) \<or> blink2_init_module K P fv s = (r, t)"
    using assms by (auto simp: blink_module_def blink2_module_def)
qed

lemma blink_frame [frame_simps]:
  "bl_ncalls (pr K fmt args s) = bl_ncalls s" "blink_registered (pr K fmt args s) = blink_registered s"
  "bl_ncalls (kdo K c s) = bl_ncalls s" "blink_registered (kdo K c s) = blink_registered s"
  by (simp_all add: test_printk_def kapi_def split: prod.splits)

lemma keeps_blink [simp, intro]:
  "keeps s (s\<lparr>bl_ncalls := n\<rparr>)" "keeps s (s\<lparr>blink_registered := n\<rparr>)" "keeps s (s\<lparr>steady_pid := n\<rparr>)"
  "keeps s (s\<lparr>steady_vaddr := n\<rparr>)" "keeps s (s\<lparr>blink_pid := n\<rparr>)" "keeps s (s\<lparr>blink_vaddr := n\<rparr>)"
  by (simp_all add: keeps_def handles_def dbfs_ready_def)

lemma keeps_blink_after [simp, intro]:
  "keeps s t \<Longrightarrow> keeps s (t\<lparr>bl_ncalls := n\<rparr>)" "keeps s t \<Longrightarrow> keeps s (t\<lparr>blink_registered := n\<rparr>)"
  "keeps s t \<Longrightarrow> keeps s (t\<lparr>steady_pid := n\<rparr>)" "keeps s t \<Longrightarrow> keeps s (t\<lparr>steady_vaddr := n\<rparr>)"
  "keeps s t \<Longrightarrow> keeps s (t\<lparr>blink_pid := n\<rparr>)" "keeps s t \<Longrightarrow> keeps s (t\<lparr>blink_vaddr := n\<rparr>)"
  by (rule keeps_trans, assumption, simp)+

definition blink_sync :: "regconf \<Rightarrow> kernel \<Rightarrow> registration set \<Rightarrow> blink \<Rightarrow> bool" where
  "blink_sync c K R s \<longleftrightarrow>
     claims (klog s) = (if blink_registered s \<noteq> 0 then insert (Object_probe usp_blink) R else R)
     \<and> (uprobes_reg_callback c \<longrightarrow> deferring K (klog s))"

lemma blink_sync_frame:
  "blink_sync c K R s \<Longrightarrow> blink_sync c K R (pr K fmt args s)"
  "blink_sync c K R s \<Longrightarrow> blink_sync c K R (s\<lparr>entry := x\<rparr>)"
  "blink_sync c K R s \<Longrightarrow> blink_sync c K R (s\<lparr>bl_ncalls := n\<rparr>)"
  "quiet q \<Longrightarrow> blink_sync c K R s \<Longrightarrow> blink_sync c K R (kdo K q s)"
  using quiet_neutral [of q] claims_neutral [of q K s]
  by (simp_all add: blink_sync_def frame_simps deferring_log kapi_log)

lemma register_blink_sync:
  assumes "blink_sync c K R s" and "Object_probe usp_blink \<notin> R" and "blink_registered s = 0"
    and "uprobes_reg_callback c"
  shows "keeps s (register_blink K s)" "blink_sync c K R (register_blink K s)"
proof -
  let ?c = "Register_uprobe usp_blink (blink_pid s) (blink_vaddr s)"
  define t where "t = kdo K ?c s"
  have t: "keeps s t" "klog t = klog s @ [(?c, k_api K (klog s) ?c)]" "blink_registered t = 0"
    using assms(3) by (simp_all add: t_def frame_simps keeps_kdo) (simp add: kapi_def)
  have d: "deferring K (klog s)" using assms(1,4) by (simp add: blink_sync_def)
  have r: "register_blink K s = (if k_api K (klog s) ?c \<noteq> - EINPROGRESS
      then pr K (''steady handler'' @ [CHR 0x27] @ ''s register_uprobe() failed; returned %d'' @ nl)
        [ArgD (k_api K (klog s) ?c)] t
      else t\<lparr>blink_registered := 1\<rparr>)"
    by (simp add: register_blink_def t_def kapi_def)
  show "keeps s (register_blink K s)" using t(1) by (simp add: r keeps_pr_after)
  show "blink_sync c K R (register_blink K s)"
    using assms t d deferring_api(1) [OF d] deferring_log [OF d]
    by (simp add: r blink_sync_def frame_simps)
qed

lemma run_blink_hit_sync:
  assumes "blink_sync c K R s" and "Object_probe usp_blink \<notin> R"
  shows "keeps s (run_blink_hit c K P h s) \<and> blink_sync c K R (run_blink_hit c K P h s)"
proof (cases h)
  case Steady
  define s1 where "s1 = s\<lparr>bl_ncalls := c_int (bl_ncalls s + 1)\<rparr>"
  define s2 where "s2 = (if par_verbose P \<noteq> 0
    then pr K (''ncalls = %d: Registering blink handler'' @ nl) [ArgD (bl_ncalls s1)] s1 else s1)"
  have s1: "keeps s s1" "blink_sync c K R s1" using assms(1) by (simp_all add: s1_def blink_sync_frame)
  then have s2: "keeps s s2" "blink_sync c K R s2" "blink_registered s2 = blink_registered s1"
    by (simp_all add: s2_def keeps_pr_after blink_sync_frame frame_simps)
  have "steady c K P s = (if blink_registered s1 = 0 \<and> bl_ncalls s1 mod 3 = 0
      then if uprobes_reg_callback c then register_blink K s2 else s2 else s1)"
    by (simp add: steady_def s1_def s2_def Let_def)
  then show ?thesis
    using Steady s1 s2 register_blink_sync [OF s2(2) assms(2)] keeps_trans [OF s2(1)] by simp
next
  case Blinks
  define s2 where "s2 = (if par_verbose P \<noteq> 0
    then pr K (''ncalls = %d: Unregistering blink handler'' @ nl) [ArgD (bl_ncalls s)] s else s)"
  have s2: "keeps s s2" "blink_sync c K R s2"
    using assms(1) by (simp_all add: s2_def keeps_pr_after blink_sync_frame)
  have "blink_handler K P s = (if bl_ncalls s mod 5 = 0
      then (kdo K (Unregister_uprobe usp_blink) s2)\<lparr>blink_registered := 0\<rparr> else s)"
    by (simp add: blink_handler_def s2_def Let_def)
  then show ?thesis
    using Blinks s2 assms
    by (auto simp: blink_sync_def keeps_kdo_after kapi_log deferring_log insert_absorb split: if_splits)
next
  case (Completed pid vaddr reg result)
  then show ?thesis
    using assms(1)
    by (simp add: blink_reg_callback_def Let_def blink_sync_frame keeps_pr_after)
qed

lemma blink_run:
  assumes "loaded b t" and "blink_sync c K R t" and "Object_probe usp_blink \<notin> R"
  shows "loaded b (blink_events c K P evs t) \<and> blink_sync c K R (blink_events c K P evs t)"
  unfolding blink_events_def
  by (rule loaded_events [where Q = "\<lambda>_. blink_sync c K R"])
    (use assms run_blink_hit_sync in \<open>auto simp: blink_sync_frame blink_child_exit_def\<close>)

lemma blink_cleanup:
  assumes "loaded b t" and "blink_sync c K R t" and "Object_probe usp_blink \<notin> R"
  shows "claims (klog (blink_cleanup_module K t)) = R - {Object_probe usp_steady}"
    "live_dentries (klog (blink_cleanup_module K t)) = {}" "oopsed (blink_cleanup_module K t) = oopsed b"
proof -
  define t1 where "t1 = kdo K (Unregister_uprobe usp_steady) t"
  have t1: "loaded b t1" "loaded b (kdo K (Unregister_uprobe usp_blink) t1)"
    using assms(1) by (simp_all add: t1_def loaded_kdo)
  show "claims (klog (blink_cleanup_module K t)) = R - {Object_probe usp_steady}"
    "live_dentries (klog (blink_cleanup_module K t)) = {}" "oopsed (blink_cleanup_module K t) = oopsed b"
    using assms(2,3) loaded_cleanup [OF t1(1), of K] loaded_cleanup [OF t1(2), of K]
    by (auto simp: blink_cleanup_module_def t1_def [symmetric] Let_def)
      (auto simp: t1_def frame_simps kapi_log blink_sync_def)
qed

section \<open>Loading\<close>

lemma blink_more:
  "udbg.more s = udbg.more t \<Longrightarrow> bl_ncalls s = bl_ncalls t \<and> blink_registered s = blink_registered t"
  by (cases s; cases t) simp

lemma buffer_frame:
  "buf_ok (kdo K c s) = buf_ok s" "printed (kdo K c s) = printed s" "room (kdo K c s) = room s"
  by (simp_all add: buf_ok_def printed_def room_def frame_simps)

lemma blink_buffer_frame [frame_simps]:
  "buf_ok (s\<lparr>bl_ncalls := x\<rparr>) = buf_ok s" "printed (s\<lparr>bl_ncalls := x\<rparr>) = printed s"
  "room (s\<lparr>bl_ncalls := x\<rparr>) = room s"
  "buf_ok (s\<lparr>steady_pid := x\<rparr>) = buf_ok s" "printed (s\<lparr>steady_pid := x\<rparr>) = printed s"
  "room (s\<lparr>steady_pid := x\<rparr>) = room s"
  "buf_ok (s\<lparr>steady_vaddr := x\<rparr>) = buf_ok s" "printed (s\<lparr>steady_vaddr := x\<rparr>) = printed s"
  "room (s\<lparr>steady_vaddr := x\<rparr>) = room s"
  "buf_ok (s\<lparr>blink_pid := x\<rparr>) = buf_ok s" "printed (s\<lparr>blink_pid := x\<rparr>) = printed s"
  "room (s\<lparr>blink_pid := x\<rparr>) = room s"
  "buf_ok (s\<lparr>blink_vaddr := x\<rparr>) = buf_ok s" "printed (s\<lparr>blink_vaddr := x\<rparr>) = printed s"
  "room (s\<lparr>blink_vaddr := x\<rparr>) = room s"
  by (simp_all add: buf_ok_def printed_def room_def)

abbreviation steady_msg :: string where
  "steady_msg \<equiv> ''Registering steady handler on pid %d, vaddr %#lx'' @ nl"

text \<open>The two functions print one message and register the steady probe.\<close>

definition steady_set_up :: "kernel \<Rightarrow> params \<Rightarrow> blink \<Rightarrow> blink \<Rightarrow> bool" where
  "steady_set_up K P s t \<longleftrightarrow>
     loaded s t \<and> claims (klog t) = insert (Object_probe usp_steady) (claims (klog s))
     \<and> bl_ncalls t = bl_ncalls s \<and> blink_registered t = blink_registered s
     \<and> (\<exists>s1 v. buf_ok s1 \<and> printed s1 = [] \<and> room s1 = DATA_BUF_SIZE
          \<and> buf_ok t = buf_ok (pr K steady_msg [ArgD (par_pid P), ArgX v] s1)
          \<and> printed t = printed (pr K steady_msg [ArgD (par_pid P), ArgX v] s1)
          \<and> room t = room (pr K steady_msg [ArgD (par_pid P), ArgX v] (s1 :: blink)))"

lemma steady_set_up_intro:
  assumes "loaded s s2" and "claims (klog s2) = claims (klog s)"
    and "bl_ncalls s2 = bl_ncalls s" and "blink_registered s2 = blink_registered s"
    and "steady_pid s2 = par_pid P" and "buf_ok s2" and "printed s2 = []" and "room s2 = DATA_BUF_SIZE"
    and "register_or_fail K usp_steady p v (pr K steady_msg [ArgD (par_pid P), ArgX w] s2) = (0, t)"
  shows "steady_set_up K P s t"
proof -
  let ?s3 = "pr K steady_msg [ArgD (par_pid P), ArgX w] s2"
  have l: "loaded s ?s3" using assms(1) by (rule loaded_pr)
  have t: "loaded s t" "t = kdo K (Register_uprobe usp_steady p v) ?s3"
    "claims (klog t) = insert (Object_probe usp_steady) (claims (klog ?s3))"
    by (rule register_or_fail_cases [OF assms(9) l]; simp)+
  have "buf_ok t = buf_ok ?s3" "printed t = printed ?s3" "room t = room ?s3"
    "bl_ncalls t = bl_ncalls s2" "blink_registered t = blink_registered s2"
    unfolding t(2) by (simp_all only: buffer_frame frame_simps)
  then show ?thesis
    using t(1,3) assms(2-4,6-8) unfolding steady_set_up_def by (simp only: claims_pr) blast
qed

lemma steady_set_up_update:
  "steady_set_up K P s (t\<lparr>blink_pid := p, blink_vaddr := v\<rparr>) = steady_set_up K P s t"
  by (simp add: steady_set_up_def frame_simps)
    (simp add: loaded_def handles_def dbfs_ready_def)

lemma blink_load:
  assumes "blink_init_module K P s = (0, t)" and "live_dentries (klog s) = {}"
  shows "steady_set_up K P s t"
proof (rule prologue [OF assms(1) [unfolded blink_init_module_def] assms(2)], goal_cases fails set_up)
  case (set_up s1)
  define s2 where "s2 = (if par_vaddr P \<noteq> 0 then s1\<lparr>steady_pid := par_pid P, steady_vaddr := par_vaddr P\<rparr>
    else s1\<lparr>steady_pid := par_pid P\<rparr>)"
  have s2: "loaded s s2" "claims (klog s2) = claims (klog s)" "bl_ncalls s2 = bl_ncalls s"
    "blink_registered s2 = blink_registered s" "steady_pid s2 = par_pid P"
    "buf_ok s2" "printed s2 = []" "room s2 = DATA_BUF_SIZE"
    using set_up blink_more [OF set_up(3)] loaded_keeps [OF set_up(1)]
    by (simp_all add: s2_def frame_simps)
  define s3 where "s3 = pr K steady_msg [ArgD (steady_pid s2), ArgX (steady_vaddr s2)] s2"
  obtain r u where u: "register_or_fail K usp_steady (steady_pid s3) (steady_vaddr s3) s3 = (r, u)" by fastforce
  have r: "r = 0" "t = u\<lparr>blink_pid := steady_pid u, blink_vaddr := steady_vaddr u\<rparr>"
    using set_up(4) u by (auto simp: Let_def s2_def s3_def split: if_splits)
  have "steady_set_up K P s u"
    by (rule steady_set_up_intro [OF s2]) (use u r(1) in \<open>simp add: s3_def s2(5)\<close>)
  then show ?case unfolding r(2) steady_set_up_update .
qed simp

lemma blink2_load:
  assumes "blink2_init_module K P fv s = (0, t)" and "live_dentries (klog s) = {}"
  shows "steady_set_up K P s t"
proof (rule prologue [OF assms(1) [unfolded blink2_init_module_def] assms(2)], goal_cases fails set_up)
  case (set_up s1)
  define s2 where "s2 = s1\<lparr>steady_pid := par_pid P, steady_vaddr := fv ''add'', blink_pid := par_pid P,
    blink_vaddr := fv ''subtract''\<rparr>"
  have s2: "loaded s s2" "claims (klog s2) = claims (klog s)" "bl_ncalls s2 = bl_ncalls s"
    "blink_registered s2 = blink_registered s" "steady_pid s2 = par_pid P"
    "buf_ok s2" "printed s2 = []" "room s2 = DATA_BUF_SIZE"
    using set_up blink_more [OF set_up(3)] loaded_keeps [OF set_up(1)]
    by (simp_all add: s2_def frame_simps)
  define s3 where "s3 = pr K steady_msg [ArgD (steady_pid s2), ArgX (steady_vaddr s2)] s2"
  have u: "register_or_fail K usp_steady (steady_pid s3) (steady_vaddr s3) s3 = (0, t)"
    using set_up(4) by (auto simp: Let_def s2_def s3_def split: if_splits)
  show ?case
    by (rule steady_set_up_intro [OF s2]) (use u in \<open>simp add: s3_def s2(5)\<close>)
qed simp

section \<open>Properties\<close>

lemma deferring_frame: "deferring K (klog s) \<Longrightarrow> deferring K (klog (kdo K c s))"
  by (simp add: kapi_log deferring_log)

text \<open>(C30) With \<open>UPROBES_REG_CALLBACK\<close> and a kernel that defers the registrations of handlers,
  \<open>blink_registered\<close> says at all times whether the second probe is claimed, in whatever order the two
  handlers and the completion callbacks run, so unloading takes back everything. Without
  \<open>UPROBES_REG_CALLBACK\<close> the same holds for every kernel.\<close>

theorem blink_flag_tells_claim:
  assumes "M \<in> {blink_module, blink2_module}" and "bo_init M K P fv s = (0, t)"
    and "live_dentries (klog s) = {}" and "blink_registered s = 0"
    and "Object_probe usp_steady \<notin> claims (klog s)" and "Object_probe usp_blink \<notin> claims (klog s)"
    and "uprobes_reg_callback c \<longrightarrow> deferring K (klog t)"
  shows "(blink_registered (blink_session M c K P evs t) \<noteq> 0
        \<longleftrightarrow> Object_probe usp_blink \<in> claims (klog (blink_session M c K P evs t)))
    \<and> claims (klog (bo_cleanup M K (blink_session M c K P evs t))) = claims (klog s)"
proof -
  let ?R = "insert (Object_probe usp_steady) (claims (klog s))"
  have t: "loaded s t" "claims (klog t) = ?R" "blink_registered t = 0"
    using blink_modules(3) [OF assms(1,2)] assms(3,4) blink_load blink2_load unfolding steady_set_up_def by metis+
  then have "blink_sync c K ?R t" using assms(7) by (simp add: blink_sync_def)
  from blink_run [OF t(1) this, of P evs] assms(6)
  have run: "loaded s (blink_events c K P evs t)" "blink_sync c K ?R (blink_events c K P evs t)" by simp_all
  show ?thesis
    unfolding blink_modules(1,2) [OF assms(1)]
    using blink_cleanup(1) [OF run] run(2) assms(5,6) by (auto simp: blink_sync_def)
qed

text \<open>A hit of the probed address: the steady handler, and the other one when it was registered before
  the hit, since a registration made by a handler takes effect later.\<close>

definition blink_pass :: "regconf \<Rightarrow> kernel \<Rightarrow> params \<Rightarrow> blink \<Rightarrow> blink" where
  "blink_pass c K P s =
     (let t = steady c K P s in if blink_registered s \<noteq> 0 then blink_handler K P t else t)"

definition blink_on :: "nat \<Rightarrow> bool" where
  "blink_on n \<longleftrightarrow> n mod 15 \<in> {3, 4, 6, 7, 8, 9, 12, 13, 14}"

lemma blink_on_Suc:
  "blink_on (Suc n) \<longleftrightarrow> (if blink_on n then Suc n mod 5 \<noteq> 0 else Suc n mod 3 = 0)"
proof -
  let ?S = "{3, 4, 6, 7, 8, 9, 12, 13, 14} :: nat set"
  define m where "m = n mod 15"
  have n: "Suc n mod 15 = Suc m mod 15" by (simp add: m_def mod_Suc_eq)
  have "Suc n mod 15 mod 5 = Suc n mod 5" "Suc n mod 15 mod 3 = Suc n mod 3"
    "Suc m mod 15 mod 5 = Suc m mod 5" "Suc m mod 15 mod 3 = Suc m mod 3"
    by (rule mod_mod_cancel; simp)+
  then have d: "Suc n mod 5 = Suc m mod 5" "Suc n mod 3 = Suc m mod 3" by (simp_all only: n)
  have "\<forall>m \<in> set [0..<15]. Suc m mod 15 \<in> ?S
      \<longleftrightarrow> (if m \<in> ?S then Suc m mod 5 \<noteq> 0 else Suc m mod 3 = 0)" by code_simp
  moreover have "m \<in> set [0..<15]" by (simp only: set_upt) (simp add: m_def)
  ultimately show ?thesis unfolding blink_on_def n d m_def [symmetric] by blast
qed

lemma blink_on_never_both: "\<not> blink_on 0" by (simp add: blink_on_def)

definition all_deferred :: "kernel \<Rightarrow> bool" where
  "all_deferred K \<longleftrightarrow> (\<forall>l p v. k_api K l (Register_uprobe usp_blink p v) = - EINPROGRESS)"

lemma blink_pass_step:
  assumes "uprobes_reg_callback c" and "all_deferred K" and "Suc n < 2147483648"
    and "bl_ncalls s = int n" and "blink_registered s = (if blink_on n then 1 else 0)"
  shows "bl_ncalls (blink_pass c K P s) = int (Suc n)
    \<and> blink_registered (blink_pass c K P s) = (if blink_on (Suc n) then 1 else 0)"
proof -
  define s1 where "s1 = s\<lparr>bl_ncalls := c_int (bl_ncalls s + 1)\<rparr>"
  have s1: "bl_ncalls s1 = int (Suc n)" "blink_registered s1 = (if blink_on n then 1 else 0)"
    using assms(3-5) c_int_of_small [of "Suc n"] by (simp_all add: s1_def add.commute)
  have m: "int (Suc n) mod 3 = 0 \<longleftrightarrow> Suc n mod 3 = 0" "int (Suc n) mod 5 = 0 \<longleftrightarrow> Suc n mod 5 = 0"
    by presburger+
  have r: "bl_ncalls (register_blink K u) = bl_ncalls u \<and> blink_registered (register_blink K u) = 1" for u
    using assms(2) by (simp add: register_blink_def all_deferred_def kapi_def)
  have st: "bl_ncalls (steady c K P s) = int (Suc n)
    \<and> blink_registered (steady c K P s) = (if blink_on n \<or> Suc n mod 3 = 0 then 1 else 0)"
    using assms(1) s1 m(1) r by (simp add: steady_def Let_def s1_def [symmetric] frame_simps)
  have bl: "bl_ncalls (blink_handler K P u) = bl_ncalls u
    \<and> blink_registered (blink_handler K P u) = (if bl_ncalls u mod 5 = 0 then 0 else blink_registered u)" for u
    by (simp add: blink_handler_def Let_def frame_simps)
  show ?thesis
    using st bl [of "steady c K P s"] m(2) assms(5) blink_on_Suc [of n]
    by (simp add: blink_pass_def Let_def)
qed

text \<open>(C31) With deferred registrations the second probe follows a pattern of period 15: after \<open>n\<close> hits it
  is registered exactly when \<open>n mod 15\<close> is 3, 4, 6, 7, 8, 9, 12, 13 or 14.\<close>

theorem blink_pattern:
  assumes "uprobes_reg_callback c" and "all_deferred K" and "n < 2147483648"
    and "bl_ncalls t = 0" and "blink_registered t = 0"
  shows "bl_ncalls ((blink_pass c K P ^^ n) t) = int n
    \<and> (blink_registered ((blink_pass c K P ^^ n) t) \<noteq> 0 \<longleftrightarrow> n mod 15 \<in> {3, 4, 6, 7, 8, 9, 12, 13, 14})"
proof -
  have "bl_ncalls ((blink_pass c K P ^^ n) t) = int n
    \<and> blink_registered ((blink_pass c K P ^^ n) t) = (if blink_on n then 1 else 0)"
    using assms(3)
  proof (induction n)
    case 0
    then show ?case using assms(4,5) blink_on_never_both by simp
  next
    case (Suc n)
    then show ?case using blink_pass_step [OF assms(1,2) Suc.prems] by simp
  qed
  then show ?thesis by (simp only: blink_on_def) simp
qed

text \<open>What the steady handler prints in \<open>n\<close> hits when it never gets to register.\<close>

definition steady_msgs :: "nat \<Rightarrow> (string \<times> farg list) list" where
  "steady_msgs n = map (\<lambda>k. (''ncalls = %d: Registering blink handler'' @ nl, [ArgD (int k)]))
     (filter (\<lambda>k. 3 dvd k) [1..<Suc n])"

lemma steady_msgs_Suc:
  "steady_msgs (Suc n) = steady_msgs n @
     (if 3 dvd Suc n then [(''ncalls = %d: Registering blink handler'' @ nl, [ArgD (int (Suc n))])] else [])"
  by (simp add: steady_msgs_def)

lemma pr_ncalls: "pr K fmt args (s\<lparr>bl_ncalls := x\<rparr>) = (pr K fmt args s)\<lparr>bl_ncalls := x\<rparr>"
  by (simp add: test_printk_def split: prod.splits)

lemma print_all_snoc: "print_all K (ms @ [(fmt, args)]) s = pr K fmt args (print_all K ms s)"
  by (simp add: print_all_def)

lemma steady_runs:
  assumes "\<not> uprobes_reg_callback c" and "par_verbose P \<noteq> 0" and "n < 2147483648"
    and "bl_ncalls t = 0" and "blink_registered t = 0"
  shows "(steady c K P ^^ n) t = (print_all K (steady_msgs n) t)\<lparr>bl_ncalls := int n\<rparr>"
  using assms(3)
proof (induction n)
  case 0
  then show ?case using assms(4) by (cases t) (simp add: steady_msgs_def print_all_def)
next
  case (Suc n)
  have reg: "blink_registered (print_all K ms t) = 0" for ms
    using assms(5) by (induction ms rule: rev_induct) (simp_all add: print_all_def frame_simps case_prod_unfold)
  have "c_int (int n + 1) = int (Suc n)"
    using Suc.prems c_int_of_small [of "Suc n"] by (simp add: add.commute)
  moreover have "int (Suc n) mod 3 = 0 \<longleftrightarrow> 3 dvd Suc n" by presburger
  ultimately show ?case
    using assms(1,2) Suc reg
    by (simp add: steady_def Let_def pr_ncalls steady_msgs_Suc print_all_snoc frame_simps)
qed

lemma no_claim_without_callback:
  "\<not> uprobes_reg_callback c \<Longrightarrow> klog ((steady c K P ^^ n) t) = klog t"
  by (induction n) (simp_all add: steady_def Let_def frame_simps)

text \<open>Without \<open>UPROBES_REG_CALLBACK\<close> the second probe is never registered: the steady handler announces
  the registration at every multiple of 3 and does nothing more. After \<open>n\<close> hits and the final write to
  \<open>cleanup\<close> the \<open>data\<close> file holds the set-up message, one announcement per multiple of 3 up to \<open>n\<close> and
  the count.\<close>

theorem blink_only_announces:
  assumes "vsnprintf_law K text" and "\<not> uprobes_reg_callback c" and "par_verbose P \<noteq> 0"
    and "blink_init_module K P s = (0, t) \<or> blink2_init_module K P fv s = (0, t)"
    and "live_dentries (klog s) = {}" and "bl_ncalls s = 0" and "blink_registered s = 0" and "n < 2147483648"
    and "\<And>v. length (text steady_msg [ArgD (par_pid P), ArgX v]
        @ concat (map (\<lambda>(fmt, args). text fmt args) (steady_msgs n)) @ text (''ncalls=%d'' @ nl) [ArgD (int n)])
      < DATA_BUF_SIZE"
  shows "(\<exists>v. printed (blink_child_exit K ((steady c K P ^^ n) t)) =
      text steady_msg [ArgD (par_pid P), ArgX v]
      @ concat (map (\<lambda>k. text (''ncalls = %d: Registering blink handler'' @ nl) [ArgD (int k)])
          (filter (\<lambda>k. 3 dvd k) [1..<Suc n]))
      @ text (''ncalls=%d'' @ nl) [ArgD (int n)])
    \<and> klog ((steady c K P ^^ n) t) = klog t"
proof -
  have su: "steady_set_up K P s t" using assms(4,5) blink_load blink2_load by blast
  then have z: "bl_ncalls t = 0" "blink_registered t = 0" using assms(6,7) by (simp_all add: steady_set_up_def)
  obtain s1 v where s1: "buf_ok s1" "printed s1 = []" "room s1 = DATA_BUF_SIZE"
    "buf_ok t = buf_ok (pr K steady_msg [ArgD (par_pid P), ArgX v] s1)"
    "printed t = printed (pr K steady_msg [ArgD (par_pid P), ArgX v] s1)"
    "room t = room (pr K steady_msg [ArgD (par_pid P), ArgX v] (s1 :: blink))"
    using su unfolding steady_set_up_def by blast
  let ?a = "text steady_msg [ArgD (par_pid P), ArgX v]"
  let ?b = "concat (map (\<lambda>(fmt, args). text fmt args) (steady_msgs n))"
  let ?t = "print_all K (steady_msgs n) t"
  have len: "length ?a + length ?b + length (text (''ncalls=%d'' @ nl) [ArgD (int n)]) < DATA_BUF_SIZE"
    using assms(9) [of v] by simp
  have "length ?a < room s1" using len s1(3) by simp
  note f = test_printk_fits [OF assms(1) s1(1) this]
  have t: "buf_ok t" "printed t = ?a" "room t = DATA_BUF_SIZE - length ?a"
    using f(1-3) s1 by simp_all
  have "length ?b < room t" using len t(3) by simp
  note g = print_all_fits [OF assms(1) t(1) this]
  have "room ?t = room t - length ?b"
    using dbg.puts_fit [of "(K, text)" t "steady_msgs n"] assms(1) t(1) \<open>length ?b < room t\<close>
    by (simp add: print_all_def)
  then have "length (text (''ncalls=%d'' @ nl) [ArgD (int n)]) < room ?t" using len t(3) by simp
  note h = test_printk_fits(2) [OF assms(1) g(1) this]
  have "printed (blink_child_exit K ((steady c K P ^^ n) t)) =
      printed (pr K (''ncalls=%d'' @ nl) [ArgD (int n)] ?t)"
    by (simp add: blink_child_exit_def steady_runs [OF assms(2,3,8) z] pr_ncalls frame_simps)
  also have "\<dots> = ?a @ ?b @ text (''ncalls=%d'' @ nl) [ArgD (int n)]"
    using h g(2) t(2) by simp
  also have "?b = concat (map (\<lambda>k. text (''ncalls = %d: Registering blink handler'' @ nl) [ArgD (int k)])
          (filter (\<lambda>k. 3 dvd k) [1..<Suc n]))"
    by (simp add: steady_msgs_def comp_def)
  finally show ?thesis using no_claim_without_callback [OF assms(2)] by blast
qed

section \<open>Closed examples\<close>

definition blink_zero :: blink where
  "blink_zero = udbg.extend udbg_zero
     \<lparr>bl_ncalls = 0, blink_registered = 0, steady_pid = 0, steady_vaddr = 0, blink_pid = 0, blink_vaddr = 0\<rparr>"

lemma blink_zero_simps [simp]:
  "klog blink_zero = []" "bl_ncalls blink_zero = 0" "blink_registered blink_zero = 0"
  by (simp_all add: blink_zero_def udbg_zero_def udbg.defs)

lemma deferring_kernel_loads:
  "fst (blink_init_module deferring_kernel sample_params blink_zero) = 0"
  "length (klog (snd (blink_init_module deferring_kernel sample_params blink_zero))) = 6"
  by (simp_all add: blink_init_module_def deferring_kernel_set_up case_prod_unfold Let_def frame_simps)

theorem blink_flag_tells_claim_witness:
  "claims (klog (blink_cleanup_module deferring_kernel
      (blink_events \<lparr>uprobes_reg_callback = True, init_uretprobes_needed = False\<rparr> deferring_kernel sample_params
        [Hit Steady, Hit Steady, Hit Steady, Hit (Completed 7 64 True 0), Cleanup_written 1]
        (snd (blink_init_module deferring_kernel sample_params blink_zero))))) = {}"
proof -
  let ?t = "snd (blink_init_module deferring_kernel sample_params blink_zero)"
  have "blink_init_module deferring_kernel sample_params blink_zero = (0, ?t)"
    by (simp add: prod_eq_iff deferring_kernel_loads)
  then have "bo_init blink_module deferring_kernel sample_params (\<lambda>_. 0) blink_zero = (0, ?t)"
    by (simp add: blink_module_def)
  then show ?thesis
    using blink_flag_tells_claim [where M = blink_module and t = ?t and K = deferring_kernel and s = blink_zero
        and P = sample_params and fv = "\<lambda>_. 0"]
      blink_modules(1,2) [of blink_module] deferring_kernel_defers deferring_kernel_loads(2) by simp
qed

theorem blink_pattern_witness:
  "blink_registered ((blink_pass \<lparr>uprobes_reg_callback = True, init_uretprobes_needed = False\<rparr>
     (refusing_kernel (\<lambda>_. True) (- EINPROGRESS)) sample_params ^^ 18) blink_zero) \<noteq> 0"
  using blink_pattern [of "\<lparr>uprobes_reg_callback = True, init_uretprobes_needed = False\<rparr>"
      "refusing_kernel (\<lambda>_. True) (- EINPROGRESS)" 18 blink_zero sample_params]
  by (simp add: all_deferred_def)

theorem blink_only_announces_witness:
  "printed (blink_child_exit granting_kernel
     ((steady \<lparr>uprobes_reg_callback = False, init_uretprobes_needed = False\<rparr> granting_kernel sample_params ^^ 7)
       (snd (blink_init_module granting_kernel sample_params blink_zero)))) =
   steady_msg @ (''ncalls = %d: Registering blink handler'' @ nl) @ (''ncalls = %d: Registering blink handler'' @ nl)
     @ (''ncalls=%d'' @ nl)"
proof -
  let ?c = "\<lparr>uprobes_reg_callback = False, init_uretprobes_needed = False\<rparr>"
  let ?t = "snd (blink_init_module granting_kernel sample_params blink_zero)"
  have "fst (blink_init_module granting_kernel sample_params blink_zero) = 0"
    by (simp add: blink_init_module_def granting_kernel_loads case_prod_unfold Let_def)
  then have "blink_init_module granting_kernel sample_params blink_zero = (0, ?t)"
    by (simp add: prod_eq_iff)
  moreover have "filter ((dvd) 3) [1..<Suc 7] = [3, 6 :: nat]" by code_simp
  moreover from this have "concat (map (\<lambda>(fmt, args). fmt) (steady_msgs 7)) =
      (''ncalls = %d: Registering blink handler'' @ nl) @ (''ncalls = %d: Registering blink handler'' @ nl)"
    by (simp add: steady_msgs_def)
  ultimately show ?thesis
    using blink_only_announces [OF granting_kernel_law, of ?c sample_params blink_zero ?t "\<lambda>_. 0" 7]
    by (simp add: nl_def)
qed

end
