(* ===== verification/Pong.thy ===== *)
theory Pong
  imports Legacy_Module
begin

text \<open>
  \<open>uprobes.existing/pong.c\<close>: an entry probe and a return probe on one function; the handler of each
  unregisters itself and registers the other. \<open>init_uretprobes\<close> is called in the configuration
  \<open>UPROBES_INIT_URETPROBES\<close> only. The handlers take every result of a registration but
  \<open>-EINPROGRESS\<close> for a failure.
\<close>

section \<open>State and handlers\<close>

record pong_params = params +
  par_tramp :: int

record pong = udbg +
  ncalls :: int
  nreturns :: int
  entry_probe_registered :: int
  return_probe_registered :: int
  trampoline_addr :: int
  entry_pid :: int
  entry_vaddr :: int
  return_pid :: int
  return_vaddr :: int

abbreviation entry_probe :: uobj where
  "entry_probe \<equiv> Uobj ''entry_probe'' 0"

abbreviation return_probe :: uobj where
  "return_probe \<equiv> Uobj ''return_probe'' 0"

text \<open>The part of \<open>reg_callback\<close> that prints; \<open>ret\<close> tells a return probe from an entry probe.\<close>

definition pong_report :: "kernel \<Rightarrow> bool \<Rightarrow> bool \<Rightarrow> int \<Rightarrow> 'a pong_scheme \<Rightarrow> 'a pong_scheme" where
  "pong_report K ret reg result s =
     (let s = pr K ''%sregistration of %s on pid %d, vaddr %#lx was ''
                [ArgS (if reg then '''' else ''un''), ArgS (if ret then ''uretprobe'' else ''uprobe''),
                 ArgD (if ret then return_pid s else entry_pid s),
                 ArgX (if ret then return_vaddr s else entry_vaddr s)] s
      in if result = 0 then pr K (''successful'' @ nl) [] s
         else pr K (''unsuccessful; status = %d'' @ nl) [ArgD result] s)"

definition pong_reg_callback ::
  "kernel \<Rightarrow> pong_params \<Rightarrow> bool \<Rightarrow> bool \<Rightarrow> int \<Rightarrow> 'a pong_scheme \<Rightarrow> 'a pong_scheme" where
  "pong_reg_callback K P ret reg result s =
     (if par_verbose P = 0 then s else pong_report K ret reg result s)"

text \<open>The two registrations, with what the handlers do with the result. \<open>failed\<close> is what else happens after
  a failure.\<close>

definition register_return ::
  "kernel \<Rightarrow> ('a pong_scheme \<Rightarrow> 'a pong_scheme) \<Rightarrow> 'a pong_scheme \<Rightarrow> 'a pong_scheme" where
  "register_return K failed s =
     (case kapi K (Register_uretprobe return_probe (return_pid s) (return_vaddr s)) s of (result, s) \<Rightarrow>
        if result \<noteq> - EINPROGRESS
        then failed (pr K (''Entry handler'' @ [CHR 0x27] @ ''s register_uretprobe() failed; returned %d'' @ nl)
               [ArgD result] s)
        else s\<lparr>return_probe_registered := 1\<rparr>)"

definition register_entry_probe ::
  "kernel \<Rightarrow> ('a pong_scheme \<Rightarrow> 'a pong_scheme) \<Rightarrow> 'a pong_scheme \<Rightarrow> 'a pong_scheme" where
  "register_entry_probe K failed s =
     (case kapi K (Register_uprobe entry_probe (entry_pid s) (entry_vaddr s)) s of (result, s) \<Rightarrow>
        if result \<noteq> - EINPROGRESS
        then failed (pr K (''Return handler'' @ [CHR 0x27] @ ''s register_uprobe() failed; returned %d'' @ nl)
               [ArgD result] s)
        else s\<lparr>entry_probe_registered := 1\<rparr>)"

abbreviation verbosely ::
  "kernel \<Rightarrow> pong_params \<Rightarrow> string \<Rightarrow> farg list \<Rightarrow> 'a pong_scheme \<Rightarrow> 'a pong_scheme" where
  "verbosely K P fmt args s \<equiv> (if par_verbose P \<noteq> 0 then pr K fmt args s else s)"

definition entry_handler :: "kernel \<Rightarrow> pong_params \<Rightarrow> 'a pong_scheme \<Rightarrow> 'a pong_scheme" where
  "entry_handler K P s =
     (let s = s\<lparr>ncalls := c_int (ncalls s + 1)\<rparr>;
          s = verbosely K P (''ncalls = %d: Registering return handler'' @ nl) [ArgD (ncalls s)] s;
          s = register_return K (\<lambda>s. s) s;
          s = verbosely K P (''Unregistering entry handler'' @ nl) [] s;
          s = kdo K (Unregister_uprobe entry_probe) s
      in s\<lparr>entry_probe_registered := 0\<rparr>)"

definition return_handler :: "kernel \<Rightarrow> pong_params \<Rightarrow> 'a pong_scheme \<Rightarrow> 'a pong_scheme" where
  "return_handler K P s =
     (let s = s\<lparr>nreturns := c_int (nreturns s + 1)\<rparr>;
          s = verbosely K P (''returns = %d: Unregistering return handler'' @ nl) [ArgD (nreturns s)] s;
          s = kdo K (Unregister_uretprobe return_probe) s;
          s = s\<lparr>return_probe_registered := 0\<rparr>;
          s = verbosely K P (''Registering entry handler'' @ nl) [] s
      in register_entry_probe K (\<lambda>s. s) s)"

definition pong_child_exit :: "kernel \<Rightarrow> 'a pong_scheme \<Rightarrow> 'a pong_scheme" where
  "pong_child_exit K s = pr K (''ncalls=%d, nreturns=%d'' @ nl) [ArgD (ncalls s), ArgD (nreturns s)] s"

section \<open>Loading and unloading\<close>

text \<open>The trampoline; \<open>None\<close> means that \<open>init_module\<close> goes on.\<close>

definition pong_trampoline :: "regconf \<Rightarrow> kernel \<Rightarrow> pong_params \<Rightarrow> 'a pong_scheme \<Rightarrow> int option \<times> 'a pong_scheme" where
  "pong_trampoline c K P s =
     (if \<not> init_uretprobes_needed c then (None, s)
      else
        let s = (if par_tramp P \<noteq> 0 then s\<lparr>trampoline_addr := par_tramp P\<rparr> else s)
        in (case kapi K (Init_uretprobes (par_pid P) (trampoline_addr s)) s of (ret, s) \<Rightarrow>
              if ret \<noteq> 0 then (Some (- 1), u_dbfs_cleanup K s) else (None, s)))"

text \<open>The two modules differ in the name of the directory only.\<close>

definition pong_init :: "string \<Rightarrow> regconf \<Rightarrow> kernel \<Rightarrow> pong_params \<Rightarrow> 'a pong_scheme \<Rightarrow> int \<times> 'a pong_scheme" where
  "pong_init name c K P s =
     (case u_dbfs_init K name s of (r, s) \<Rightarrow>
        if r \<noteq> 0 then (- 1, s)
        else
          (case pong_trampoline c K P s of
             (Some rc, s) \<Rightarrow> (rc, s)
           | (None, s) \<Rightarrow>
               let s = s\<lparr>entry_pid := par_pid P, return_pid := par_pid P\<rparr>;
                   s = (if par_vaddr P \<noteq> 0
                        then s\<lparr>entry_vaddr := par_vaddr P, return_vaddr := par_vaddr P\<rparr> else s);
                   s = pr K (''Registering entry handler on pid %d, vaddr %#lx'' @ nl)
                         [ArgD (entry_pid s), ArgX (entry_vaddr s)] s
               in (case register_or_fail K entry_probe (entry_pid s) (entry_vaddr s) s of (r, s) \<Rightarrow>
                     (r, if r = 0 then s\<lparr>entry_probe_registered := 1\<rparr> else s))))"

definition pong_init_module :: "regconf \<Rightarrow> kernel \<Rightarrow> pong_params \<Rightarrow> pong \<Rightarrow> int \<times> pong" where
  "pong_init_module = pong_init ''pong''"

definition pong_cleanup_module :: "kernel \<Rightarrow> 'a pong_scheme \<Rightarrow> 'a pong_scheme" where
  "pong_cleanup_module K s =
     (let s = (if entry_probe_registered s \<noteq> 0 then kdo K (Unregister_uprobe entry_probe) s else s);
          s = (if return_probe_registered s \<noteq> 0 then kdo K (Unregister_uretprobe return_probe) s else s)
      in u_dbfs_cleanup K s)"

section \<open>Frames\<close>

lemma pong_frame [frame_simps]:
  "entry_probe_registered (pr K fmt args s) = entry_probe_registered s"
  "return_probe_registered (pr K fmt args s) = return_probe_registered s"
  "entry_probe_registered (kdo K c s) = entry_probe_registered s"
  "return_probe_registered (kdo K c s) = return_probe_registered s"
  "ncalls (pr K fmt args s) = ncalls s" "ncalls (kdo K c s) = ncalls s"
  by (simp_all add: test_printk_def kapi_def split: prod.splits)

lemma keeps_pong [simp, intro]:
  "keeps s t \<Longrightarrow> keeps s (t\<lparr>ncalls := n\<rparr>)" "keeps s t \<Longrightarrow> keeps s (t\<lparr>nreturns := n\<rparr>)"
  "keeps s t \<Longrightarrow> keeps s (t\<lparr>entry_probe_registered := n\<rparr>)"
  "keeps s t \<Longrightarrow> keeps s (t\<lparr>return_probe_registered := n\<rparr>)"
  "keeps s t \<Longrightarrow> keeps s (t\<lparr>trampoline_addr := n\<rparr>)" "keeps s t \<Longrightarrow> keeps s (t\<lparr>entry_pid := n\<rparr>)"
  "keeps s t \<Longrightarrow> keeps s (t\<lparr>entry_vaddr := n\<rparr>)" "keeps s t \<Longrightarrow> keeps s (t\<lparr>return_pid := n\<rparr>)"
  "keeps s t \<Longrightarrow> keeps s (t\<lparr>return_vaddr := n\<rparr>)"
  by (rule keeps_trans, assumption, simp add: keeps_def handles_def dbfs_ready_def)+

lemma pong_more:
  "udbg.more s = udbg.more t \<Longrightarrow>
   entry_probe_registered s = entry_probe_registered t \<and> return_probe_registered s = return_probe_registered t
   \<and> ncalls s = ncalls t"
  by (cases s; cases t) simp

section \<open>Flags and claims\<close>

definition pong_claims :: "registration set \<Rightarrow> 'a pong_scheme \<Rightarrow> registration set" where
  "pong_claims R s = R \<union> (if entry_probe_registered s \<noteq> 0 then {Object_probe entry_probe} else {})
     \<union> (if return_probe_registered s \<noteq> 0 then {Object_retprobe return_probe} else {})"

definition pong_sync :: "kernel \<Rightarrow> registration set \<Rightarrow> 'a pong_scheme \<Rightarrow> bool" where
  "pong_sync K R s \<longleftrightarrow> claims (klog s) = pong_claims R s \<and> deferring K (klog s)
     \<and> Object_probe entry_probe \<notin> R \<and> Object_retprobe return_probe \<notin> R"

lemma pong_sync_frame:
  "pong_sync K R s \<Longrightarrow> pong_sync K R (pr K fmt args s)"
  "pong_sync K R s \<Longrightarrow> pong_sync K R (s\<lparr>entry := x\<rparr>)"
  "pong_sync K R s \<Longrightarrow> pong_sync K R (s\<lparr>ncalls := n\<rparr>)"
  "pong_sync K R s \<Longrightarrow> pong_sync K R (s\<lparr>nreturns := n\<rparr>)"
  "quiet q \<Longrightarrow> pong_sync K R s \<Longrightarrow> pong_sync K R (kdo K q s)"
  using quiet_neutral [of q] claims_neutral [of q K s]
  by (simp_all add: pong_sync_def pong_claims_def frame_simps deferring_log kapi_log)

lemma register_return_sync:
  assumes "pong_sync K R s" and "\<And>t. pong_sync K R t \<Longrightarrow> pong_sync K R (failed t)"
    and "\<And>t. keeps s t \<Longrightarrow> keeps s (failed t)"
  shows "keeps s (register_return K failed s)" "pong_sync K R (register_return K failed s)"
proof -
  let ?c = "Register_uretprobe return_probe (return_pid s) (return_vaddr s)"
  define t where "t = kdo K ?c s"
  have t: "keeps s t" "klog t = klog s @ [(?c, k_api K (klog s) ?c)]"
    "entry_probe_registered t = entry_probe_registered s" "return_probe_registered t = return_probe_registered s"
    by (simp_all add: t_def frame_simps keeps_kdo) (simp add: kapi_def)
  have d: "deferring K (klog s)" using assms(1) by (simp add: pong_sync_def)
  have r: "register_return K failed s = (if k_api K (klog s) ?c \<noteq> - EINPROGRESS
      then failed (pr K (''Entry handler'' @ [CHR 0x27] @ ''s register_uretprobe() failed; returned %d'' @ nl)
        [ArgD (k_api K (klog s) ?c)] t)
      else t\<lparr>return_probe_registered := 1\<rparr>)"
    by (simp add: register_return_def t_def kapi_def)
  show "keeps s (register_return K failed s)" using t(1) assms(3) by (simp add: r keeps_pr_after)
  have "pong_sync K R t" if "k_api K (klog s) ?c \<noteq> - EINPROGRESS"
    using that assms(1) t deferring_api(2) [OF d] deferring_log [OF d]
    by (simp add: pong_sync_def pong_claims_def)
  moreover have "pong_sync K R (t\<lparr>return_probe_registered := 1\<rparr>)" if "k_api K (klog s) ?c = - EINPROGRESS"
    using that assms(1) t deferring_log [OF d] by (auto simp: pong_sync_def pong_claims_def)
  ultimately show "pong_sync K R (register_return K failed s)"
    using assms(2) by (simp add: r pong_sync_frame)
qed

lemma register_entry_sync:
  assumes "pong_sync K R s" and "\<And>t. pong_sync K R t \<Longrightarrow> pong_sync K R (failed t)"
    and "\<And>t. keeps s t \<Longrightarrow> keeps s (failed t)"
  shows "keeps s (register_entry_probe K failed s)" "pong_sync K R (register_entry_probe K failed s)"
proof -
  let ?c = "Register_uprobe entry_probe (entry_pid s) (entry_vaddr s)"
  define t where "t = kdo K ?c s"
  have t: "keeps s t" "klog t = klog s @ [(?c, k_api K (klog s) ?c)]"
    "entry_probe_registered t = entry_probe_registered s" "return_probe_registered t = return_probe_registered s"
    by (simp_all add: t_def frame_simps keeps_kdo) (simp add: kapi_def)
  have d: "deferring K (klog s)" using assms(1) by (simp add: pong_sync_def)
  have r: "register_entry_probe K failed s = (if k_api K (klog s) ?c \<noteq> - EINPROGRESS
      then failed (pr K (''Return handler'' @ [CHR 0x27] @ ''s register_uprobe() failed; returned %d'' @ nl)
        [ArgD (k_api K (klog s) ?c)] t)
      else t\<lparr>entry_probe_registered := 1\<rparr>)"
    by (simp add: register_entry_probe_def t_def kapi_def)
  show "keeps s (register_entry_probe K failed s)" using t(1) assms(3) by (simp add: r keeps_pr_after)
  have "pong_sync K R t" if "k_api K (klog s) ?c \<noteq> - EINPROGRESS"
    using that assms(1) t deferring_api(1) [OF d] deferring_log [OF d]
    by (simp add: pong_sync_def pong_claims_def)
  moreover have "pong_sync K R (t\<lparr>entry_probe_registered := 1\<rparr>)" if "k_api K (klog s) ?c = - EINPROGRESS"
    using that assms(1) t deferring_log [OF d] by (auto simp: pong_sync_def pong_claims_def)
  ultimately show "pong_sync K R (register_entry_probe K failed s)"
    using assms(2) by (simp add: r pong_sync_frame)
qed

text \<open>Taking a probe back and clearing its flag.\<close>

lemma unregister_entry_sync:
  "pong_sync K R s \<Longrightarrow> pong_sync K R ((kdo K (Unregister_uprobe entry_probe) s)\<lparr>entry_probe_registered := 0\<rparr>)"
  by (auto simp: pong_sync_def pong_claims_def kapi_log deferring_log frame_simps)

lemma unregister_return_sync:
  "pong_sync K R s \<Longrightarrow> pong_sync K R ((kdo K (Unregister_uretprobe return_probe) s)\<lparr>return_probe_registered := 0\<rparr>)"
  by (auto simp: pong_sync_def pong_claims_def kapi_log deferring_log frame_simps)

lemma entry_handler_sync:
  assumes "pong_sync K R s"
  shows "keeps s (entry_handler K P s) \<and> pong_sync K R (entry_handler K P s)"
proof -
  define s2 where "s2 = verbosely K P (''ncalls = %d: Registering return handler'' @ nl)
    [ArgD (c_int (ncalls s + 1))] (s\<lparr>ncalls := c_int (ncalls s + 1)\<rparr>)"
  define s3 where "s3 = register_return K (\<lambda>s. s) s2"
  define s4 where "s4 = verbosely K P (''Unregistering entry handler'' @ nl) [] s3"
  have s2: "keeps s s2" "pong_sync K R s2"
    using assms by (simp_all add: s2_def pong_sync_frame keeps_pr_after)
  then have s3: "keeps s s3" "pong_sync K R s3"
    using register_return_sync [OF s2(2), of "\<lambda>s. s"] keeps_trans [OF s2(1)] by (simp_all add: s3_def)
  then have s4: "keeps s s4" "pong_sync K R s4"
    by (simp_all add: s4_def pong_sync_frame keeps_pr_after)
  have "entry_handler K P s = (kdo K (Unregister_uprobe entry_probe) s4)\<lparr>entry_probe_registered := 0\<rparr>"
    by (simp add: entry_handler_def s2_def s3_def s4_def Let_def)
  then show ?thesis using s4 unregister_entry_sync by (simp add: keeps_kdo_after)
qed

lemma return_handler_sync:
  assumes "pong_sync K R s"
  shows "keeps s (return_handler K P s) \<and> pong_sync K R (return_handler K P s)"
proof -
  define s2 where "s2 = verbosely K P (''returns = %d: Unregistering return handler'' @ nl)
    [ArgD (c_int (nreturns s + 1))] (s\<lparr>nreturns := c_int (nreturns s + 1)\<rparr>)"
  define s3 where "s3 = (kdo K (Unregister_uretprobe return_probe) s2)\<lparr>return_probe_registered := 0\<rparr>"
  define s4 where "s4 = verbosely K P (''Registering entry handler'' @ nl) [] s3"
  have s2: "keeps s s2" "pong_sync K R s2"
    using assms by (simp_all add: s2_def pong_sync_frame keeps_pr_after)
  then have s3: "keeps s s3" "pong_sync K R s3"
    using unregister_return_sync by (simp_all add: s3_def keeps_kdo_after)
  then have s4: "keeps s s4" "pong_sync K R s4"
    by (simp_all add: s4_def pong_sync_frame keeps_pr_after)
  have "return_handler K P s = register_entry_probe K (\<lambda>s. s) s4"
    by (simp add: return_handler_def s2_def s3_def s4_def Let_def)
  then show ?thesis
    using register_entry_sync [OF s4(2), of "\<lambda>s. s"] keeps_trans [OF s4(1)] by simp
qed

section \<open>Loading, use, unloading\<close>

lemma pong_load:
  assumes "pong_init name c K P s = (0, t)" and "live_dentries (klog s) = {}"
  shows "loaded s t" "claims (klog t) = insert (Object_probe entry_probe) (claims (klog s))"
    "entry_probe_registered t = 1" "return_probe_registered t = return_probe_registered s" "ncalls t = ncalls s"
proof -
  have "loaded s t \<and> claims (klog t) = insert (Object_probe entry_probe) (claims (klog s))
    \<and> entry_probe_registered t = 1 \<and> return_probe_registered t = return_probe_registered s \<and> ncalls t = ncalls s"
  proof (rule prologue [OF assms(1) [unfolded pong_init_def] assms(2)], goal_cases fails set_up)
    case (set_up s1)
    obtain rc s2 where tr: "pong_trampoline c K P s1 = (rc, s2)" by fastforce
    have rc: "rc = None" using set_up(4) tr
      by (auto simp: pong_trampoline_def case_prod_unfold Let_def split: option.splits if_splits)
    have "keeps s1 s2 \<and> claims (klog s2) = claims (klog s1)
        \<and> return_probe_registered s2 = return_probe_registered s1 \<and> ncalls s2 = ncalls s1"
      using tr unfolding rc pong_trampoline_def
      by (auto simp: Let_def case_prod_unfold frame_simps kapi_log keeps_kdo_after keeps_kdo split: if_splits)
    then have s2: "loaded s s2" "claims (klog s2) = claims (klog s)"
      "return_probe_registered s2 = return_probe_registered s" "ncalls s2 = ncalls s"
      using loaded_keeps [OF set_up(1)] set_up(5) pong_more [OF set_up(3)] by simp_all
    define s3 where "s3 = (if par_vaddr P \<noteq> 0
      then s2\<lparr>entry_pid := par_pid P, return_pid := par_pid P, entry_vaddr := par_vaddr P, return_vaddr := par_vaddr P\<rparr>
      else s2\<lparr>entry_pid := par_pid P, return_pid := par_pid P\<rparr>)"
    have s3: "loaded s s3" "claims (klog s3) = claims (klog s)"
      "return_probe_registered s3 = return_probe_registered s" "ncalls s3 = ncalls s"
      using s2 loaded_keeps [OF s2(1)] by (simp_all add: s3_def)
    define s4 where "s4 = pr K (''Registering entry handler on pid %d, vaddr %#lx'' @ nl)
      [ArgD (entry_pid s3), ArgX (entry_vaddr s3)] s3"
    have s4: "loaded s s4" "claims (klog s4) = claims (klog s)"
      "return_probe_registered s4 = return_probe_registered s" "ncalls s4 = ncalls s"
      using s3 by (simp_all add: s4_def frame_simps)
    obtain r u where u: "register_or_fail K entry_probe (entry_pid s4) (entry_vaddr s4) s4 = (r, u)" by fastforce
    have ru: "r = 0" "t = u\<lparr>entry_probe_registered := 1\<rparr>"
      using set_up(4) tr u unfolding rc by (auto simp: Let_def s3_def s4_def split: if_splits)
    have "loaded s u" "claims (klog u) = insert (Object_probe entry_probe) (claims (klog s4))"
      "return_probe_registered u = return_probe_registered s4" "ncalls u = ncalls s4"
      by (rule register_or_fail_cases [OF u s4(1)]; use ru(1) in \<open>simp add: frame_simps\<close>)+
    then show ?case
      using s4 loaded_keeps [OF _ keeps_pong(3) [OF keeps_refl]] by (simp add: ru(2))
  qed simp
  then show "loaded s t" "claims (klog t) = insert (Object_probe entry_probe) (claims (klog s))"
    "entry_probe_registered t = 1" "return_probe_registered t = return_probe_registered s"
    "ncalls t = ncalls s" by simp_all
qed

text \<open>The entry handler, the return handler and the completion callback.\<close>

datatype pong_hit = Entered | Returned | Completed bool bool int

fun run_pong_hit :: "kernel \<Rightarrow> pong_params \<Rightarrow> pong_hit \<Rightarrow> pong \<Rightarrow> pong" where
  "run_pong_hit K P Entered s = entry_handler K P s"
| "run_pong_hit K P Returned s = return_handler K P s"
| "run_pong_hit K P (Completed ret reg result) s = pong_reg_callback K P ret reg result s"

definition pong_events :: "kernel \<Rightarrow> pong_params \<Rightarrow> pong_hit event list \<Rightarrow> pong \<Rightarrow> pong" where
  "pong_events K P = run_events K (run_pong_hit K P) (pong_child_exit K)"

lemma pong_run:
  assumes "loaded b t" and "pong_sync K R t"
  shows "loaded b (pong_events K P evs t) \<and> pong_sync K R (pong_events K P evs t)"
proof -
  have "keeps u (run_pong_hit K P h u) \<and> pong_sync K R (run_pong_hit K P h u)" if "pong_sync K R u" for h u
    using that entry_handler_sync return_handler_sync
    by (cases h) (simp_all add: pong_reg_callback_def pong_report_def Let_def pong_sync_frame keeps_pr_after)
  then show ?thesis
    unfolding pong_events_def
    by (intro loaded_events [where Q = "\<lambda>_. pong_sync K R"])
      (use assms in \<open>auto simp: pong_sync_frame pong_child_exit_def\<close>)
qed

lemma pong_cleanup_claims:
  "claims (klog (pong_cleanup_module K s)) =
     claims (klog s) - (if entry_probe_registered s \<noteq> 0 then {Object_probe entry_probe} else {})
       - (if return_probe_registered s \<noteq> 0 then {Object_retprobe return_probe} else {})"
  by (simp add: pong_cleanup_module_def Let_def kapi_log frame_simps)

text \<open>(C32) With a kernel that defers the registrations of handlers, the two flags of \<open>pong\<close> tell at all
  times which probes are claimed, so unloading takes back everything, in whatever order the handlers
  and callbacks ran. A kernel that carries out registrations at once makes the entry handler take its
  success for a failure: unloading after a single call leaves the return probe registered.\<close>

theorem pong_unload:
  assumes "pong_init_module c K P s = (0, t)" and "live_dentries (klog s) = {}"
    and "return_probe_registered s = 0"
    and "Object_probe entry_probe \<notin> claims (klog s)" and "Object_retprobe return_probe \<notin> claims (klog s)"
  shows "(deferring K (klog t) \<longrightarrow>
        claims (klog (pong_cleanup_module K (pong_events K P evs t))) = claims (klog s))
    \<and> ((\<forall>l p v. k_api K l (Register_uretprobe return_probe p v) = 0) \<longrightarrow>
        claims (klog (pong_cleanup_module K (entry_handler K P t))) =
          insert (Object_retprobe return_probe) (claims (klog s)))"
proof -
  let ?R = "claims (klog s)"
  note t = pong_load [OF assms(1) [unfolded pong_init_module_def] assms(2)]
  have "claims (klog (pong_cleanup_module K (pong_events K P evs t))) = ?R" if "deferring K (klog t)"
  proof -
    have "pong_sync K ?R t"
      using that t assms(3-5) by (auto simp: pong_sync_def pong_claims_def)
    from conjunct2 [OF pong_run [OF t(1) this, of P evs]] show ?thesis
      by (auto simp: pong_cleanup_claims pong_sync_def pong_claims_def)
  qed
  moreover have "claims (klog (pong_cleanup_module K (entry_handler K P t))) = insert (Object_retprobe return_probe) ?R"
    if "\<forall>l p v. k_api K l (Register_uretprobe return_probe p v) = 0"
    using that t assms(3-5)
    by (auto simp: pong_cleanup_claims entry_handler_def register_return_def Let_def kapi_log frame_simps kapi_def
        case_prod_unfold)
  ultimately show ?thesis by blast
qed

text \<open>The variables as they are initialised when the module is inserted.\<close>

definition pong_zero :: pong where
  "pong_zero = udbg.extend udbg_zero
     \<lparr>ncalls = 0, nreturns = 0, entry_probe_registered = 0, return_probe_registered = 0,
      trampoline_addr = 0x080484bc,
      entry_pid = 0, entry_vaddr = 0x080484a8, return_pid = 0, return_vaddr = 0x080484a8\<rparr>"

lemma pong_zero_simps [simp]: "klog pong_zero = []" "return_probe_registered pong_zero = 0"
  by (simp_all add: pong_zero_def udbg_zero_def udbg.defs)

abbreviation sample_regconf :: regconf where
  "sample_regconf \<equiv> \<lparr>uprobes_reg_callback = True, init_uretprobes_needed = False\<rparr>"

abbreviation sample_pong_params :: pong_params where
  "sample_pong_params \<equiv> \<lparr>par_pid = 7, par_verbose = 1, par_vaddr = 0, par_tramp = 0\<rparr>"

lemma deferring_kernel_pong:
  "klog s = [] \<Longrightarrow> fst (pong_init name sample_regconf deferring_kernel sample_pong_params s) = 0"
  "klog s = [] \<Longrightarrow> length (klog (snd (pong_init name sample_regconf deferring_kernel sample_pong_params s))) = 6"
  by (simp_all add: pong_init_def pong_trampoline_def deferring_kernel_set_up case_prod_unfold Let_def frame_simps)

theorem pong_unload_witness:
  "claims (klog (pong_cleanup_module deferring_kernel (pong_events deferring_kernel sample_pong_params
      [Hit Entered, Hit (Completed True True 0), Hit Returned, Data_read 4096 0]
      (snd (pong_init_module sample_regconf deferring_kernel sample_pong_params pong_zero))))) = {}"
proof -
  let ?r = "pong_init_module sample_regconf deferring_kernel sample_pong_params pong_zero"
  have "?r = (0, snd ?r)" by (simp add: prod_eq_iff pong_init_module_def deferring_kernel_pong)
  moreover have "deferring deferring_kernel (klog (snd ?r))"
    by (rule deferring_kernel_defers) (simp add: pong_init_module_def deferring_kernel_pong)
  ultimately show ?thesis
    using pong_unload [of sample_regconf deferring_kernel sample_pong_params pong_zero "snd ?r"] by simp
qed

end
