(* ===== verification/Pong_Alternation.thy ===== *)
theory Pong_Alternation
  imports Pong
begin

text \<open>
  What \<open>uprobes.existing/pong.c\<close> promises, as an abstract machine: a call and its return take turns, each
  counted once. The module refines it when the kernel defers the registrations of handlers.
\<close>

section \<open>The abstract machine\<close>

datatype turn = Awaits_call | Awaits_return

record alternation =
  turn :: turn
  calls :: nat
  returns :: nat

text \<open>A hit is possible when its probe is the one that is armed; a completion callback always is.\<close>

fun alt_enabled :: "pong_hit \<Rightarrow> alternation \<Rightarrow> bool" where
  "alt_enabled Entered a = (turn a = Awaits_call)"
| "alt_enabled Returned a = (turn a = Awaits_return)"
| "alt_enabled (Completed ret reg result) a = True"

fun alt_step :: "pong_hit \<Rightarrow> alternation \<Rightarrow> alternation" where
  "alt_step Entered a = a\<lparr>turn := Awaits_return, calls := calls a + 1\<rparr>"
| "alt_step Returned a = a\<lparr>turn := Awaits_call, returns := returns a + 1\<rparr>"
| "alt_step (Completed ret reg result) a = a"

fun alt_run :: "pong_hit list \<Rightarrow> alternation \<Rightarrow> alternation option" where
  "alt_run [] a = Some a"
| "alt_run (h # hs) a = (if alt_enabled h a then alt_run hs (alt_step h a) else None)"

lemma alt_run_counts:
  "alt_run hs a = Some b \<Longrightarrow> calls a = returns a + (if turn a = Awaits_call then 0 else 1) \<Longrightarrow>
   calls b = returns b + (if turn b = Awaits_call then 0 else 1)"
proof (induction hs arbitrary: a)
  case (Cons h hs)
  then show ?case by (cases h) (auto split: if_splits)
qed simp

section \<open>The module refines it\<close>

text \<open>The abstraction: the flag of the entry probe tells whose turn it is.\<close>

definition pong_abs :: "pong \<Rightarrow> alternation" where
  "pong_abs s = \<lparr>turn = (if entry_probe_registered s \<noteq> 0 then Awaits_call else Awaits_return),
     calls = nat (ncalls s), returns = nat (nreturns s)\<rparr>"

text \<open>From the log \<open>l\<close> on, every registration is deferred.\<close>

definition defers_all :: "kernel \<Rightarrow> (kcall \<times> int) list \<Rightarrow> bool" where
  "defers_all K l \<longleftrightarrow> (\<forall>es u p v. k_api K (l @ es) (Register_uprobe u p v) = - EINPROGRESS
     \<and> k_api K (l @ es) (Register_uretprobe u p v) = - EINPROGRESS)"

lemma defers_all_log: "defers_all K l \<Longrightarrow> defers_all K (l @ es)"
  by (simp add: defers_all_def)

lemma defers_all_api:
  "defers_all K l \<Longrightarrow> k_api K l (Register_uprobe u p v) = - EINPROGRESS"
  "defers_all K l \<Longrightarrow> k_api K l (Register_uretprobe u p v) = - EINPROGRESS"
  by (simp_all add: defers_all_def) (metis append_Nil2)+

lemma defers_all_deferring: "defers_all K l \<Longrightarrow> deferring K l"
  by (simp add: defers_all_def deferring_def)

definition armed :: "turn \<Rightarrow> registration" where
  "armed t = (case t of Awaits_call \<Rightarrow> Object_probe entry_probe | Awaits_return \<Rightarrow> Object_retprobe return_probe)"

text \<open>Exactly one flag is set, the counters have not wrapped after \<open>n\<close> hits, and flags and claims agree.\<close>

definition pong_inv :: "kernel \<Rightarrow> registration set \<Rightarrow> nat \<Rightarrow> pong \<Rightarrow> bool" where
  "pong_inv K R n s \<longleftrightarrow> pong_sync K R s \<and> defers_all K (klog s)
     \<and> (entry_probe_registered s \<noteq> 0 \<longleftrightarrow> return_probe_registered s = 0)
     \<and> 0 \<le> ncalls s \<and> 0 \<le> nreturns s \<and> ncalls s + nreturns s \<le> int n"

lemma nreturns_frame [frame_simps]:
  "nreturns (pr K fmt args s) = nreturns s" "nreturns (kdo K c s) = nreturns s"
  by (simp_all add: test_printk_def kapi_def split: prod.splits)

lemma register_return_deferred:
  assumes "defers_all K (klog s)"
  shows "register_return K f s =
    (kdo K (Register_uretprobe return_probe (return_pid s) (return_vaddr s)) s)\<lparr>return_probe_registered := 1\<rparr>"
  using defers_all_api(2) [OF assms] by (simp add: register_return_def kapi_def)

lemma register_entry_deferred:
  assumes "defers_all K (klog s)"
  shows "register_entry_probe K f s =
    (kdo K (Register_uprobe entry_probe (entry_pid s) (entry_vaddr s)) s)\<lparr>entry_probe_registered := 1\<rparr>"
  using defers_all_api(1) [OF assms] by (simp add: register_entry_probe_def kapi_def)

lemma entry_handler_turns:
  assumes "defers_all K (klog s)"
  shows "entry_probe_registered (entry_handler K P s) = 0" "return_probe_registered (entry_handler K P s) = 1"
    "ncalls (entry_handler K P s) = c_int (ncalls s + 1)" "nreturns (entry_handler K P s) = nreturns s"
    "defers_all K (klog (entry_handler K P s))"
  using assms
  by (simp_all add: entry_handler_def Let_def register_return_deferred frame_simps kapi_log defers_all_log)

lemma return_handler_turns:
  assumes "defers_all K (klog s)"
  shows "entry_probe_registered (return_handler K P s) = 1" "return_probe_registered (return_handler K P s) = 0"
    "nreturns (return_handler K P s) = c_int (nreturns s + 1)" "ncalls (return_handler K P s) = ncalls s"
    "defers_all K (klog (return_handler K P s))"
  using assms
  by (simp_all add: return_handler_def Let_def register_entry_deferred frame_simps kapi_log defers_all_log)

lemma c_int_nonneg: "0 \<le> x \<Longrightarrow> x < 2147483648 \<Longrightarrow> c_int x = x"
  using c_int_of_small [of "nat x"] by simp

lemma pong_step:
  assumes "pong_inv K R n s" and "alt_enabled h (pong_abs s)" and "n + 1 < 2147483648"
  shows "pong_inv K R (n + 1) (run_pong_hit K P h s) \<and> pong_abs (run_pong_hit K P h s) = alt_step h (pong_abs s)"
proof (cases h)
  case Entered
  have s: "pong_sync K R s" "defers_all K (klog s)" using assms(1) by (simp_all add: pong_inv_def)
  have "c_int (ncalls s + 1) = ncalls s + 1"
    using assms(1,3) by (intro c_int_nonneg) (auto simp: pong_inv_def)
  then show ?thesis
    using assms entry_handler_turns [OF s(2), of P] entry_handler_sync [OF s(1), of P]
    by (simp add: Entered pong_inv_def pong_abs_def nat_add_distrib)
next
  case Returned
  have s: "pong_sync K R s" "defers_all K (klog s)" using assms(1) by (simp_all add: pong_inv_def)
  have "c_int (nreturns s + 1) = nreturns s + 1"
    using assms(1,3) by (intro c_int_nonneg) (auto simp: pong_inv_def)
  then show ?thesis
    using assms return_handler_turns [OF s(2), of P] return_handler_sync [OF s(1), of P]
    by (simp add: Returned pong_inv_def pong_abs_def nat_add_distrib)
next
  case (Completed ret reg result)
  then show ?thesis
    using assms(1) by (simp add: pong_inv_def pong_abs_def pong_reg_callback_def pong_report_def Let_def pong_sync_frame frame_simps)
qed

lemma pong_simulates:
  assumes "pong_inv K R n s" and "alt_run hs (pong_abs s) = Some a" and "n + length hs < 2147483648"
  shows "pong_inv K R (n + length hs) (fold (run_pong_hit K P) hs s)
    \<and> pong_abs (fold (run_pong_hit K P) hs s) = a"
  using assms
proof (induction hs arbitrary: n s)
  case (Cons h hs)
  then have e: "alt_enabled h (pong_abs s)" and r: "alt_run hs (alt_step h (pong_abs s)) = Some a"
    by (simp_all split: if_splits)
  have "n + 1 < 2147483648" using Cons.prems(3) by simp
  note st = pong_step [OF Cons.prems(1) e this, of P]
  from Cons.IH [of "n + 1" "run_pong_hit K P h s"] st r Cons.prems(3) show ?case by simp
qed simp

lemma pong_load_nreturns:
  assumes "pong_init name c K P s = (r, t)"
  shows "nreturns t = nreturns s"
proof -
  obtain r1 s1 where 1: "u_dbfs_init K name s = (r1, s1)" by fastforce
  have s1: "nreturns s1 = nreturns s"
    using u_dbfs_init_only(2) [OF 1] by (cases s; cases s1) simp
  have cl: "nreturns (u_dbfs_cleanup K u) = nreturns u" for u :: "'a pong_scheme"
    by (simp add: u_dbfs_cleanup_def clean_up_print_buffer_def kapi_def Let_def)
  have tr: "nreturns (snd (pong_trampoline c K P s1)) = nreturns s1"
    by (simp add: pong_trampoline_def Let_def case_prod_unfold cl frame_simps)
  have rf: "nreturns (snd (register_or_fail K u p v x)) = nreturns x" for u p v and x :: "'a pong_scheme"
    by (simp add: register_or_fail_def case_prod_unfold cl frame_simps)
  show ?thesis
    using assms s1 tr
    by (auto simp: pong_init_def 1 Let_def case_prod_unfold rf frame_simps split: option.splits if_splits)
qed

lemma pong_inv_claims:
  assumes "pong_inv K R n u" and "pong_abs u = a"
  shows "claims (klog u) = insert (armed (turn a)) R"
proof (cases "entry_probe_registered u = 0")
  case True
  then have "turn a = Awaits_return" using assms(2) by (auto simp: pong_abs_def)
  then show ?thesis using assms(1) True by (simp add: pong_inv_def pong_sync_def pong_claims_def armed_def)
next
  case False
  then have "turn a = Awaits_call" using assms(2) by (auto simp: pong_abs_def)
  then show ?thesis using assms(1) False by (simp add: pong_inv_def pong_sync_def pong_claims_def armed_def)
qed

text \<open>(C8) \<open>pong\<close> refines the alternation of calls and returns: after loading, every sequence of hits that the
  abstract machine allows, with completion callbacks anywhere in it, takes the module through the same
  states: the same turn, the same two counts, and the one probe claimed that the next hit needs.\<close>

theorem pong_refines_alternation:
  assumes "pong_init_module c K P s = (0, t)" and "live_dentries (klog s) = {}" and "defers_all K (klog t)"
    and "ncalls s = 0" and "nreturns s = 0" and "return_probe_registered s = 0"
    and "Object_probe entry_probe \<notin> claims (klog s)" and "Object_retprobe return_probe \<notin> claims (klog s)"
    and "length hs < 2147483648"
    and "alt_run hs \<lparr>turn = Awaits_call, calls = 0, returns = 0\<rparr> = Some a"
  shows "pong_abs (fold (run_pong_hit K P) hs t) = a
    \<and> claims (klog (fold (run_pong_hit K P) hs t)) = insert (armed (turn a)) (claims (klog s))
    \<and> calls a = returns a + (if turn a = Awaits_call then 0 else 1)"
proof -
  let ?u = "fold (run_pong_hit K P) hs t"
  note t = pong_load [OF assms(1) [unfolded pong_init_module_def] assms(2)]
  have nr: "nreturns t = 0"
    using pong_load_nreturns [OF assms(1) [unfolded pong_init_module_def]] assms(5) by simp
  have "pong_sync K (claims (klog s)) t"
    using t assms(3,6-8) by (auto simp: pong_sync_def pong_claims_def defers_all_deferring)
  then have i: "pong_inv K (claims (klog s)) 0 t"
    using t assms(3-6) nr by (simp add: pong_inv_def)
  have "pong_abs t = \<lparr>turn = Awaits_call, calls = 0, returns = 0\<rparr>"
    using t assms(4) nr by (simp add: pong_abs_def)
  then have u: "pong_inv K (claims (klog s)) (length hs) ?u" "pong_abs ?u = a"
    using pong_simulates [OF i, of hs a P] assms(9,10) by simp_all
  have "claims (klog ?u) = insert (armed (turn a)) (claims (klog s))"
    by (rule pong_inv_claims [OF u])
  moreover have "calls a = returns a + (if turn a = Awaits_call then 0 else 1)"
    using alt_run_counts [OF assms(10)] by simp
  ultimately show ?thesis using u(2) by blast
qed

theorem pong_refines_alternation_witness:
  "pong_abs (fold (run_pong_hit deferring_kernel sample_pong_params)
      [Entered, Completed True True 0, Completed False False 0, Returned, Entered]
      (snd (pong_init_module sample_regconf deferring_kernel sample_pong_params pong_zero))) =
    \<lparr>turn = Awaits_return, calls = 2, returns = 1\<rparr>"
proof -
  let ?r = "pong_init_module sample_regconf deferring_kernel sample_pong_params pong_zero"
  have r: "?r = (0, snd ?r)" by (simp add: prod_eq_iff pong_init_module_def deferring_kernel_pong)
  have d: "defers_all deferring_kernel (klog (snd ?r))"
    using deferring_kernel_pong(2) [of pong_zero "''pong''"]
    by (simp add: pong_init_module_def defers_all_def deferring_kernel_def)
  have z: "ncalls pong_zero = 0" "nreturns pong_zero = 0"
    by (simp_all add: pong_zero_def udbg_zero_def udbg.defs)
  show ?thesis
    using pong_refines_alternation [OF r _ d z, where
      hs = "[Entered, Completed True True 0, Completed False False 0, Returned, Entered]"
        and a = "\<lparr>turn = Awaits_return, calls = 2, returns = 1\<rparr>"]
    by simp
qed

end
