(* ===== verification/Pong_WA7.thy ===== *)
theory Pong_WA7
  imports Pong
begin

text \<open>
  \<open>uprobes.existing/pong_wa7.c\<close>: \<open>pong.c\<close> with a count of the registrations that are pending, for which
  \<open>cleanup_module\<close> waits. First the handlers as they are written, then the same handlers one access to
  the shared variables at a time, in a step relation that interleaves them with the completion
  callbacks and with \<open>cleanup_module\<close>. \<open>wait_event\<close> is the guard of a step, and \<open>wake_up\<close> has no
  other effect. One probed thread runs at a time, so one handler does.
\<close>

section \<open>The module as it is written\<close>

record wa7 = pong +
  pending_regs :: int
  cleaning_up :: int

definition atomic_inc_pending :: "wa7 \<Rightarrow> wa7" where
  "atomic_inc_pending s = s\<lparr>pending_regs := c_int (pending_regs s + 1)\<rparr>"

definition pending_reg_done :: "wa7 \<Rightarrow> wa7" where
  "pending_reg_done s = s\<lparr>pending_regs := c_int (pending_regs s - 1)\<rparr>"

definition wa7_reg_callback :: "kernel \<Rightarrow> pong_params \<Rightarrow> bool \<Rightarrow> bool \<Rightarrow> int \<Rightarrow> wa7 \<Rightarrow> wa7" where
  "wa7_reg_callback K P ret reg result s =
     pending_reg_done (if par_verbose P = 0 then s else pong_report K ret reg result s)"

definition wa7_entry_handler :: "regconf \<Rightarrow> kernel \<Rightarrow> pong_params \<Rightarrow> wa7 \<Rightarrow> wa7" where
  "wa7_entry_handler c K P s =
     (let s = s\<lparr>ncalls := c_int (ncalls s + 1)\<rparr> in
      if \<not> uprobes_reg_callback c then s\<lparr>entry_probe_registered := 0\<rparr>
      else if cleaning_up s \<noteq> 0 then s
      else
        let s = atomic_inc_pending s;
            s = verbosely K P (''ncalls = %d: Registering return handler'' @ nl) [ArgD (ncalls s)] s;
            s = register_return K pending_reg_done s
        in if cleaning_up s \<noteq> 0 then s
           else
             let s = atomic_inc_pending s;
                 s = verbosely K P (''Unregistering entry handler'' @ nl) [] s;
                 s = kdo K (Unregister_uprobe entry_probe) s
             in s\<lparr>entry_probe_registered := 0\<rparr>)"

definition wa7_return_handler :: "regconf \<Rightarrow> kernel \<Rightarrow> pong_params \<Rightarrow> wa7 \<Rightarrow> wa7" where
  "wa7_return_handler c K P s =
     (let s = s\<lparr>nreturns := c_int (nreturns s + 1)\<rparr> in
      if \<not> uprobes_reg_callback c \<or> cleaning_up s \<noteq> 0 then s
      else
        let s = atomic_inc_pending s;
            s = verbosely K P (''returns = %d: Unregistering return handler'' @ nl) [ArgD (nreturns s)] s;
            s = kdo K (Unregister_uretprobe return_probe) s;
            s = s\<lparr>return_probe_registered := 0\<rparr>
        in if cleaning_up s \<noteq> 0 then s
           else
             let s = atomic_inc_pending s;
                 s = verbosely K P (''Registering entry handler'' @ nl) [] s
             in register_entry_probe K pending_reg_done s)"

definition wa7_init_module :: "regconf \<Rightarrow> kernel \<Rightarrow> pong_params \<Rightarrow> wa7 \<Rightarrow> int \<times> wa7" where
  "wa7_init_module = pong_init ''pong_wa7''"

text \<open>\<open>cleanup_module\<close> up to the wait, the condition it waits for, and the rest, which is that of \<open>pong\<close>.\<close>

definition wa7_cleanup_begin :: "regconf \<Rightarrow> wa7 \<Rightarrow> wa7" where
  "wa7_cleanup_begin c s = (if uprobes_reg_callback c then s\<lparr>cleaning_up := 1\<rparr> else s)"

definition wa7_may_finish :: "regconf \<Rightarrow> wa7 \<Rightarrow> bool" where
  "wa7_may_finish c s \<longleftrightarrow> uprobes_reg_callback c \<longrightarrow> pending_regs s = 0"

definition wa7_cleanup_finish :: "kernel \<Rightarrow> wa7 \<Rightarrow> wa7" where
  "wa7_cleanup_finish K s = pong_cleanup_module K s"

section \<open>The handlers step by step\<close>

text \<open>Where a handler stands: between two accesses to what it shares with the callbacks and with
  \<open>cleanup_module\<close>. \<open>Idle\<close>: no handler runs.\<close>

datatype pc =
    Idle
  | E_start | E_check | E_inc | E_register | E_result int | E_check2 | E_inc2 | E_unregister | E_clear
  | R_start | R_check | R_inc | R_unregister | R_clear | R_check2 | R_inc2 | R_register | R_result int

fun handler_step :: "kernel \<Rightarrow> pong_params \<Rightarrow> pc \<times> wa7 \<Rightarrow> pc \<times> wa7" where
  "handler_step K P (Idle, s) = (Idle, s)"
| "handler_step K P (E_start, s) = (E_check, s\<lparr>ncalls := c_int (ncalls s + 1)\<rparr>)"
| "handler_step K P (E_check, s) = (if cleaning_up s \<noteq> 0 then Idle else E_inc, s)"
| "handler_step K P (E_inc, s) = (E_register, atomic_inc_pending s)"
| "handler_step K P (E_register, s) =
     (let s = verbosely K P (''ncalls = %d: Registering return handler'' @ nl) [ArgD (ncalls s)] s
      in (case kapi K (Register_uretprobe return_probe (return_pid s) (return_vaddr s)) s of (result, s) \<Rightarrow>
            (E_result result, s)))"
| "handler_step K P (E_result result, s) =
     (E_check2,
      if result \<noteq> - EINPROGRESS
      then pending_reg_done
             (pr K (''Entry handler'' @ [CHR 0x27] @ ''s register_uretprobe() failed; returned %d'' @ nl)
               [ArgD result] s)
      else s\<lparr>return_probe_registered := 1\<rparr>)"
| "handler_step K P (E_check2, s) = (if cleaning_up s \<noteq> 0 then Idle else E_inc2, s)"
| "handler_step K P (E_inc2, s) = (E_unregister, atomic_inc_pending s)"
| "handler_step K P (E_unregister, s) =
     (E_clear, kdo K (Unregister_uprobe entry_probe) (verbosely K P (''Unregistering entry handler'' @ nl) [] s))"
| "handler_step K P (E_clear, s) = (Idle, s\<lparr>entry_probe_registered := 0\<rparr>)"
| "handler_step K P (R_start, s) = (R_check, s\<lparr>nreturns := c_int (nreturns s + 1)\<rparr>)"
| "handler_step K P (R_check, s) = (if cleaning_up s \<noteq> 0 then Idle else R_inc, s)"
| "handler_step K P (R_inc, s) = (R_unregister, atomic_inc_pending s)"
| "handler_step K P (R_unregister, s) =
     (R_clear, kdo K (Unregister_uretprobe return_probe)
        (verbosely K P (''returns = %d: Unregistering return handler'' @ nl) [ArgD (nreturns s)] s))"
| "handler_step K P (R_clear, s) = (R_check2, s\<lparr>return_probe_registered := 0\<rparr>)"
| "handler_step K P (R_check2, s) = (if cleaning_up s \<noteq> 0 then Idle else R_inc2, s)"
| "handler_step K P (R_inc2, s) = (R_register, atomic_inc_pending s)"
| "handler_step K P (R_register, s) =
     (let s = verbosely K P (''Registering entry handler'' @ nl) [] s
      in (case kapi K (Register_uprobe entry_probe (entry_pid s) (entry_vaddr s)) s of (result, s) \<Rightarrow>
            (R_result result, s)))"
| "handler_step K P (R_result result, s) =
     (Idle,
      if result \<noteq> - EINPROGRESS
      then pending_reg_done
             (pr K (''Return handler'' @ [CHR 0x27] @ ''s register_uprobe() failed; returned %d'' @ nl)
               [ArgD result] s)
      else s\<lparr>entry_probe_registered := 1\<rparr>)"

section \<open>The steps add up to the handlers\<close>

lemma wa7_frame [frame_simps]:
  "pending_regs (pr K fmt args s) = pending_regs s" "cleaning_up (pr K fmt args s) = cleaning_up s"
  "pending_regs (kdo K c s) = pending_regs s" "cleaning_up (kdo K c s) = cleaning_up s"
  by (simp_all add: test_printk_def kapi_def split: prod.splits)

lemma pending_frame [frame_simps]:
  "cleaning_up (atomic_inc_pending s) = cleaning_up s" "cleaning_up (pending_reg_done s) = cleaning_up s"
  "klog (atomic_inc_pending s) = klog s" "klog (pending_reg_done s) = klog s"
  "pending_regs (atomic_inc_pending s) = c_int (pending_regs s + 1)"
  "pending_regs (pending_reg_done s) = c_int (pending_regs s - 1)"
  by (simp_all add: atomic_inc_pending_def pending_reg_done_def)

lemma handler_step_idle [simp]: "(handler_step K P ^^ n) (Idle, s) = (Idle, s)"
  by (induction n) simp_all


section \<open>Interleaving\<close>

datatype unload = Loaded | Waiting | Unloaded

text \<open>The module, the handler that runs, the number of accepted registrations and unregistrations whose
  callback is outstanding, and how far \<open>cleanup_module\<close> is.\<close>

record system =
  modl :: wa7
  at :: pc
  in_flight :: nat
  phase :: unload

text \<open>The steps that hand the kernel a request it will complete later.\<close>

definition issues :: "pc \<Rightarrow> pc \<Rightarrow> bool" where
  "issues p q \<longleftrightarrow> p = E_unregister \<or> p = R_unregister
     \<or> p = E_register \<and> q = E_result (- EINPROGRESS) \<or> p = R_register \<and> q = R_result (- EINPROGRESS)"

inductive sys_step :: "regconf \<Rightarrow> kernel \<Rightarrow> pong_params \<Rightarrow> system \<Rightarrow> system \<Rightarrow> bool" for c K P where
  entered: "at s = Idle \<Longrightarrow> Object_probe entry_probe \<in> claims (klog (modl s)) \<Longrightarrow>
     sys_step c K P s (s\<lparr>at := E_start\<rparr>)"
| returned: "at s = Idle \<Longrightarrow> Object_retprobe return_probe \<in> claims (klog (modl s)) \<Longrightarrow>
     sys_step c K P s (s\<lparr>at := R_start\<rparr>)"
| handler: "at s \<noteq> Idle \<Longrightarrow> handler_step K P (at s, modl s) = (p, m) \<Longrightarrow>
     sys_step c K P s (s\<lparr>at := p, modl := m, in_flight := in_flight s + (if issues (at s) p then 1 else 0)\<rparr>)"
| completed: "in_flight s = Suc n \<Longrightarrow>
     sys_step c K P s (s\<lparr>modl := wa7_reg_callback K P ret reg result (modl s), in_flight := n\<rparr>)"
| rmmod: "phase s = Loaded \<Longrightarrow>
     sys_step c K P s (s\<lparr>modl := wa7_cleanup_begin c (modl s), phase := Waiting\<rparr>)"
| unloads: "phase s = Waiting \<Longrightarrow> wa7_may_finish c (modl s) \<Longrightarrow>
     sys_step c K P s (s\<lparr>modl := wa7_cleanup_finish K (modl s), phase := Unloaded\<rparr>)"

inductive reachable :: "regconf \<Rightarrow> kernel \<Rightarrow> pong_params \<Rightarrow> wa7 \<Rightarrow> system \<Rightarrow> bool" for c K P m where
  start: "reachable c K P m \<lparr>modl = m, at = Idle, in_flight = 0, phase = Loaded\<rparr>"
| step: "reachable c K P m s \<Longrightarrow> sys_step c K P s t \<Longrightarrow> reachable c K P m t"

inductive_cases sys_stepE: "sys_step c K P s t"

text \<open>What a handler has counted and not yet handed to the kernel, or not yet taken off the count.\<close>

fun owed :: "pc \<Rightarrow> nat" where
  "owed E_register = 1"
| "owed (E_result r) = (if r = - EINPROGRESS then 0 else 1)"
| "owed E_unregister = 1"
| "owed R_unregister = 1"
| "owed R_register = 1"
| "owed (R_result r) = (if r = - EINPROGRESS then 0 else 1)"
| "owed _ = 0"

definition counted :: "system \<Rightarrow> bool" where
  "counted s \<longleftrightarrow> pending_regs (modl s) = c_int (int (in_flight s + owed (at s)))"

lemma report_pending: "pending_regs (pong_report K ret reg result s) = pending_regs s"
  by (simp add: pong_report_def Let_def frame_simps)

lemma callback_pending [simp]:
  "pending_regs (wa7_reg_callback K P ret reg result s) = c_int (pending_regs s - 1)"
  by (simp add: wa7_reg_callback_def frame_simps report_pending)

lemma cleanup_pending [simp]:
  "pending_regs (wa7_cleanup_begin c s) = pending_regs s"
  by (simp add: wa7_cleanup_begin_def)

lemma u_dbfs_cleanup_wa7: "pending_regs (u_dbfs_cleanup K s) = pending_regs s"
  by (simp add: u_dbfs_cleanup_def clean_up_print_buffer_def kapi_def Let_def)

lemma finish_pending [simp]: "pending_regs (wa7_cleanup_finish K s) = pending_regs s"
  by (simp add: wa7_cleanup_finish_def pong_cleanup_module_def Let_def u_dbfs_cleanup_wa7 frame_simps)

lemma handler_step_counts:
  assumes "handler_step K P (p, m) = (p', m')" and "pending_regs m = c_int (int (n + owed p))"
  shows "pending_regs m' = c_int (int (n + (if issues p p' then 1 else 0) + owed p'))"
  using assms
  by (cases p)
    (auto simp: issues_def Let_def case_prod_unfold frame_simps c_int_add c_int_add_left c_int_diff add.commute add.left_commute
      split: if_splits)

lemma step_counted: "sys_step c K P s t \<Longrightarrow> counted s \<Longrightarrow> counted t"
proof (induction rule: sys_step.induct)
  case (handler s p m)
  then show ?case
    using handler_step_counts [of K P "at s" "modl s" p m "in_flight s"] by (simp add: counted_def)
next
  case (completed s n ret reg result)
  then show ?case by (simp add: counted_def c_int_diff)
qed (simp_all add: counted_def)

lemma reachable_counted: "reachable c K P m s \<Longrightarrow> pending_regs m = 0 \<Longrightarrow> counted s"
proof (induction rule: reachable.induct)
  case start
  then show ?case by (simp add: counted_def wrap_s_def)
qed (blast intro: step_counted)

section \<open>The workaround and its hole\<close>

text \<open>The count is exact as long as it fits: what \<open>cleanup_module\<close> waits for is that no callback is
  outstanding and no handler stands between counting and asking.\<close>

lemma finish_means_quiet:
  assumes "counted s" and "uprobes_reg_callback c" and "wa7_may_finish c (modl s)"
    and "in_flight s < 2147483647"
  shows "in_flight s = 0 \<and> owed (at s) = 0"
proof -
  have "owed (at s) \<le> 1" by (cases "at s") auto
  then have "c_int (int (in_flight s + owed (at s))) = int (in_flight s + owed (at s))"
    using assms(4) by (intro c_int_of_small) simp
  then show ?thesis using assms(1-3) by (simp add: counted_def wa7_may_finish_def)
qed

text \<open>A handler that has not passed its first check.\<close>

definition outside :: "pc \<Rightarrow> bool" where
  "outside p \<longleftrightarrow> p \<in> {Idle, E_start, E_check, R_start, R_check}"

definition winding_down :: "nat \<Rightarrow> system \<Rightarrow> bool" where
  "winding_down n s \<longleftrightarrow> counted s \<and> cleaning_up (modl s) \<noteq> 0 \<and> outside (at s) \<and> in_flight s \<le> n
     \<and> phase s \<noteq> Loaded \<and> (phase s = Unloaded \<longrightarrow> in_flight s = 0)"

lemma u_dbfs_cleanup_cleaning: "cleaning_up (u_dbfs_cleanup K s) = cleaning_up s"
  by (simp add: u_dbfs_cleanup_def clean_up_print_buffer_def kapi_def Let_def)

lemma cleaning_up_frame [simp]:
  "cleaning_up (wa7_reg_callback K P ret reg result s) = cleaning_up s"
  "cleaning_up (wa7_cleanup_finish K s) = cleaning_up s"
  by (simp_all add: wa7_reg_callback_def pong_report_def wa7_cleanup_finish_def pong_cleanup_module_def
      u_dbfs_cleanup_cleaning Let_def frame_simps)

lemma handler_step_outside:
  assumes "handler_step K P (p, m) = (p', m')" and "outside p" and "p \<noteq> Idle" and "cleaning_up m \<noteq> 0"
  shows "outside p' \<and> cleaning_up m' = cleaning_up m \<and> \<not> issues p p'"
  using assms by (cases p) (auto simp: outside_def issues_def)

lemma winding_down_step:
  assumes "sys_step c K P s t" and "winding_down n s" and "uprobes_reg_callback c" and "n < 2147483647"
  shows "winding_down n t"
  using assms(1) step_counted [OF assms(1)] assms(2-4)
proof (induction rule: sys_step.induct)
  case (handler s p m)
  then show ?case
    using handler_step_outside [of K P "at s" "modl s" p m] by (simp add: winding_down_def)
next
  case (unloads s)
  then show ?case using finish_means_quiet [of s c] by (simp add: winding_down_def)
qed (auto simp: winding_down_def outside_def)

lemma winding_down_steps:
  assumes "(sys_step c K P)\<^sup>*\<^sup>* s t" and "winding_down n s" and "uprobes_reg_callback c" and "n < 2147483647"
  shows "winding_down n t"
  using assms by (induction rule: rtranclp_induct) (auto intro: winding_down_step)

text \<open>(C34) The workaround works when \<open>rmmod\<close> finds no handler past its first check: from then on, whatever
  runs, the module is unloaded only after every outstanding callback has run, and nothing is handed to
  the kernel afterwards. The number of outstanding callbacks is taken to be below \<open>2 ^ 31 - 1\<close>.\<close>

theorem wait_covers_callbacks:
  assumes "uprobes_reg_callback c" and "pending_regs m = 0" and "reachable c K P m s"
    and "phase s = Loaded" and "outside (at s)" and "in_flight s < 2147483647"
    and "(sys_step c K P)\<^sup>*\<^sup>* (s\<lparr>modl := wa7_cleanup_begin c (modl s), phase := Waiting\<rparr>) t"
    and "phase t = Unloaded"
  shows "in_flight t = 0 \<and> owed (at t) = 0"
proof -
  have "counted s" by (rule reachable_counted [OF assms(3,2)])
  then have "winding_down (in_flight s) (s\<lparr>modl := wa7_cleanup_begin c (modl s), phase := Waiting\<rparr>)"
    using assms(1,5) by (simp add: winding_down_def counted_def) (simp add: wa7_cleanup_begin_def)
  from winding_down_steps [OF assms(7) this assms(1,6)] assms(8) show ?thesis
    by (auto simp: winding_down_def outside_def)
qed

text \<open>(C35) The check and the count are two steps, and \<open>cleanup_module\<close> can run between them: for every
  kernel that defers the registration of the return probe, the module can be unloaded while a handler
  goes on to register that probe, whose callback is then outstanding in a module that is gone.\<close>

theorem unload_races_with_handler:
  assumes "uprobes_reg_callback c" and "cleaning_up m = 0" and "pending_regs m = 0"
    and "Object_probe entry_probe \<in> claims (klog m)"
    and "\<And>l p v. k_api K l (Register_uretprobe return_probe p v) = - EINPROGRESS"
  shows "\<exists>s. reachable c K P m s \<and> phase s = Unloaded \<and> 0 < in_flight s
    \<and> Object_retprobe return_probe \<in> claims (klog (modl s))"
proof -
  let ?s = "\<lambda>m p n ph. \<lparr>modl = m, at = p, in_flight = n, phase = ph\<rparr>"
  define m1 where "m1 = m\<lparr>ncalls := c_int (ncalls m + 1)\<rparr>"
  define m2 where "m2 = wa7_cleanup_begin c m1"
  define m3 where "m3 = wa7_cleanup_finish K m2"
  define m4 where "m4 = atomic_inc_pending m3"
  define m5 where "m5 = snd (handler_step K P (E_register, m4))"
  have "reachable c K P m (?s m Idle 0 Loaded)" by (rule reachable.start)
  from reachable.step [OF this sys_step.entered] have "reachable c K P m (?s m E_start 0 Loaded)"
    using assms(4) by simp
  from reachable.step [OF this sys_step.handler] have "reachable c K P m (?s m1 E_check 0 Loaded)"
    by (simp add: m1_def issues_def)
  from reachable.step [OF this sys_step.handler] have "reachable c K P m (?s m1 E_inc 0 Loaded)"
    using assms(2) by (simp add: m1_def issues_def)
  from reachable.step [OF this sys_step.rmmod] have "reachable c K P m (?s m2 E_inc 0 Waiting)"
    by (simp add: m2_def)
  from reachable.step [OF this sys_step.unloads] have "reachable c K P m (?s m3 E_inc 0 Unloaded)"
    using assms(3) by (simp add: m3_def m2_def m1_def wa7_may_finish_def)
  from reachable.step [OF this sys_step.handler] have "reachable c K P m (?s m4 E_register 0 Unloaded)"
    by (simp add: m4_def issues_def)
  from reachable.step [OF this sys_step.handler]
  have "reachable c K P m (?s m5 (E_result (- EINPROGRESS)) 1 Unloaded)"
    using assms(5) by (simp add: m5_def issues_def Let_def case_prod_unfold kapi_def)
  moreover have "Object_retprobe return_probe \<in> claims (klog m5)"
    using assms(5) by (simp add: m5_def Let_def case_prod_unfold kapi_def)
  ultimately show ?thesis by force
qed

text \<open>(C36) Without \<open>UPROBES_REG_CALLBACK\<close> the entry handler clears its flag and leaves the probe registered:
  it counts every call, but after one call \<open>cleanup_module\<close> no longer takes the probe back.\<close>

theorem wa7_without_callback_leaks:
  assumes "\<not> uprobes_reg_callback c" and "wa7_init_module c K P s = (0, t)" and "live_dentries (klog s) = {}"
    and "ncalls s = 0" and "return_probe_registered s = 0" and "Object_probe entry_probe \<notin> claims (klog s)"
    and "n < 2147483648"
  shows "ncalls ((wa7_entry_handler c K P ^^ n) t) = int n
    \<and> claims (klog (wa7_cleanup_finish K (wa7_cleanup_begin c ((wa7_entry_handler c K P ^^ n) t)))) =
        (if n = 0 then claims (klog s) else insert (Object_probe entry_probe) (claims (klog s)))"
proof -
  note t = pong_load [OF assms(2) [unfolded wa7_init_module_def] assms(3)]
  have "(wa7_entry_handler c K P ^^ n) t =
      (if n = 0 then t else t\<lparr>ncalls := int n, entry_probe_registered := 0\<rparr>)"
    using assms(7)
  proof (induction n)
    case (Suc n)
    have "c_int (1 + int n) = 1 + int n" using Suc.prems c_int_of_small [of "Suc n"] by simp
    then show ?case
      using Suc assms(1,4) t(5) by (cases n) (simp_all add: wa7_entry_handler_def Let_def add.commute)
  qed simp
  then show ?thesis
    using t assms(1,4-6) by (simp add: wa7_cleanup_begin_def wa7_cleanup_finish_def pong_cleanup_claims)
qed

section \<open>Closed examples\<close>

definition wa7_zero :: wa7 where
  "wa7_zero = pong.extend pong_zero \<lparr>pending_regs = 0, cleaning_up = 0\<rparr>"

lemma wa7_zero_simps [simp]:
  "klog wa7_zero = []" "ncalls wa7_zero = 0" "return_probe_registered wa7_zero = 0"
  "pending_regs wa7_zero = 0" "cleaning_up wa7_zero = 0"
  by (simp_all add: wa7_zero_def pong_zero_def udbg_zero_def udbg.defs pong.defs)

abbreviation no_callback :: regconf where
  "no_callback \<equiv> \<lparr>uprobes_reg_callback = False, init_uretprobes_needed = False\<rparr>"


abbreviation at_rest :: "wa7 \<Rightarrow> unload \<Rightarrow> system" where
  "at_rest m ph \<equiv> \<lparr>modl = m, at = Idle, in_flight = 0, phase = ph\<rparr>"

theorem wait_covers_callbacks_witness:
  "in_flight (at_rest (wa7_cleanup_finish deferring_kernel (wa7_cleanup_begin sample_regconf wa7_zero)) Unloaded) = 0
   \<and> owed (at (at_rest (wa7_cleanup_finish deferring_kernel (wa7_cleanup_begin sample_regconf wa7_zero)) Unloaded)) = 0"
proof (rule wait_covers_callbacks)
  let ?m = "wa7_cleanup_begin sample_regconf wa7_zero"
  show "reachable sample_regconf deferring_kernel sample_pong_params wa7_zero (at_rest wa7_zero Loaded)"
    by (rule reachable.start)
  have "sys_step sample_regconf deferring_kernel sample_pong_params (at_rest ?m Waiting)
      (at_rest (wa7_cleanup_finish deferring_kernel ?m) Unloaded)"
    using sys_step.unloads [of "at_rest ?m Waiting" sample_regconf deferring_kernel sample_pong_params]
    by (simp add: wa7_may_finish_def)
  then show "(sys_step sample_regconf deferring_kernel sample_pong_params)\<^sup>*\<^sup>*
      ((at_rest wa7_zero Loaded)\<lparr>modl := wa7_cleanup_begin sample_regconf (modl (at_rest wa7_zero Loaded)), phase := Waiting\<rparr>)
      (at_rest (wa7_cleanup_finish deferring_kernel ?m) Unloaded)"
    by (simp add: r_into_rtranclp)
qed (simp_all add: outside_def)

theorem unload_races_with_handler_witness:
  "\<exists>s. reachable sample_regconf (refusing_kernel (\<lambda>_. True) (- EINPROGRESS)) sample_pong_params
      (wa7_zero\<lparr>klog := [(Register_uprobe entry_probe 7 64, 0)]\<rparr>) s
    \<and> phase s = Unloaded \<and> 0 < in_flight s \<and> Object_retprobe return_probe \<in> claims (klog (modl s))"
  by (rule unload_races_with_handler) (simp_all add: claims_def)

theorem wa7_without_callback_leaks_witness:
  "claims (klog (wa7_cleanup_finish granting_kernel (wa7_cleanup_begin no_callback
     ((wa7_entry_handler no_callback granting_kernel sample_pong_params ^^ 20)
       (snd (wa7_init_module no_callback granting_kernel sample_pong_params wa7_zero)))))) =
   {Object_probe entry_probe}"
proof -
  let ?r = "wa7_init_module no_callback granting_kernel sample_pong_params wa7_zero"
  have r: "?r = (0, snd ?r)"
    by (simp add: prod_eq_iff wa7_init_module_def pong_init_def pong_trampoline_def granting_kernel_loads
        case_prod_unfold Let_def)
  show ?thesis using wa7_without_callback_leaks [of no_callback, OF _ r, of 20] by simp
qed

end
