(* ===== verification/Unload_Progress.thy ===== *)
theory Unload_Progress
  imports Pong_WA7
begin

text \<open>
  More on the interleaving model of \<open>uprobes.existing/pong_wa7.c\<close>: the variables keep the values of their
  types, the phases of the unload come in order, and the wait of \<open>cleanup_module\<close> ends. The order of the
  phases is the instance of \<open>linorder\<close> of their type.
\<close>

section \<open>The phases are ordered\<close>

fun phase_rank :: "unload \<Rightarrow> nat" where
  "phase_rank Loaded = 0"
| "phase_rank Waiting = 1"
| "phase_rank Unloaded = 2"

lemma phase_rank_inject [simp]: "phase_rank x = phase_rank y \<longleftrightarrow> x = y"
  by (cases x; cases y) simp_all

instantiation unload :: linorder
begin

definition less_eq_unload :: "unload \<Rightarrow> unload \<Rightarrow> bool" where
  "less_eq_unload x y \<longleftrightarrow> phase_rank x \<le> phase_rank y"

definition less_unload :: "unload \<Rightarrow> unload \<Rightarrow> bool" where
  "less_unload x y \<longleftrightarrow> phase_rank x < phase_rank y"

instance
  by standard (auto simp: less_eq_unload_def less_unload_def)

end

lemma phases_in_order: "sys_step c K P s t \<Longrightarrow> phase s \<le> phase t"
  by (cases rule: sys_step.cases) (auto simp: less_eq_unload_def)

section \<open>Values of the C types\<close>

definition in_int :: "int \<Rightarrow> bool" where
  "in_int x \<longleftrightarrow> - 2147483648 \<le> x \<and> x < 2147483648"

lemma in_int_c_int [simp]: "in_int (c_int x)"
  using wrap_s_range [of 32 x] by (simp add: in_int_def)

text \<open>The module's variables of type \<open>int\<close> and \<open>atomic_t\<close>; the flags are used as truth values.\<close>

definition wa7_vars :: "wa7 \<Rightarrow> int \<times> int \<times> int \<times> int \<times> int \<times> int" where
  "wa7_vars s = (ncalls s, nreturns s, pending_regs s, entry_probe_registered s, return_probe_registered s,
     cleaning_up s)"

definition wa7_typed :: "wa7 \<Rightarrow> bool" where
  "wa7_typed s \<longleftrightarrow> in_int (ncalls s) \<and> in_int (nreturns s) \<and> in_int (pending_regs s)
     \<and> entry_probe_registered s \<in> {0, 1} \<and> return_probe_registered s \<in> {0, 1} \<and> cleaning_up s \<in> {0, 1}"

lemma wa7_typed_vars:
  "wa7_typed s \<longleftrightarrow> (case wa7_vars s of (n, r, p, e, f, c) \<Rightarrow>
     in_int n \<and> in_int r \<and> in_int p \<and> e \<in> {0, 1} \<and> f \<in> {0, 1} \<and> c \<in> {0, 1})"
  by (simp add: wa7_typed_def wa7_vars_def)

lemma wa7_vars_frame [simp]:
  "wa7_vars (pr K fmt args s) = wa7_vars s" "wa7_vars (kdo K q s) = wa7_vars s"
  "wa7_vars (u_dbfs_cleanup K s) = wa7_vars s"
    apply (simp add: wa7_vars_def test_printk_def split: prod.splits)
   apply (simp add: wa7_vars_def kapi_def)
  apply (simp add: wa7_vars_def u_dbfs_cleanup_def clean_up_print_buffer_def kapi_def Let_def)
  done

lemma typed_frame [simp]:
  "wa7_typed (pr K fmt args s) = wa7_typed s" "wa7_typed (kdo K q s) = wa7_typed s"
  "wa7_typed (u_dbfs_cleanup K s) = wa7_typed s"
  by (simp_all add: wa7_typed_vars)

lemma typed_updates [simp]:
  "wa7_typed s \<Longrightarrow> wa7_typed (s\<lparr>ncalls := c_int x\<rparr>)" "wa7_typed s \<Longrightarrow> wa7_typed (s\<lparr>nreturns := c_int x\<rparr>)"
  "wa7_typed s \<Longrightarrow> wa7_typed (s\<lparr>pending_regs := c_int x\<rparr>)"
  "wa7_typed s \<Longrightarrow> b \<in> {0, 1} \<Longrightarrow> wa7_typed (s\<lparr>entry_probe_registered := b\<rparr>)"
  "wa7_typed s \<Longrightarrow> b \<in> {0, 1} \<Longrightarrow> wa7_typed (s\<lparr>return_probe_registered := b\<rparr>)"
  "wa7_typed s \<Longrightarrow> b \<in> {0, 1} \<Longrightarrow> wa7_typed (s\<lparr>cleaning_up := b\<rparr>)"
  by (simp_all add: wa7_typed_def)

lemma handler_step_typed:
  assumes "handler_step K P (p, m) = (p', m')" and "wa7_typed m"
  shows "wa7_typed m'"
  using assms
  by (cases p) (auto simp: atomic_inc_pending_def pending_reg_done_def Let_def case_prod_unfold split: if_splits)

lemma callbacks_typed:
  "wa7_typed s \<Longrightarrow> wa7_typed (wa7_reg_callback K P ret reg result s)"
  "wa7_typed s \<Longrightarrow> wa7_typed (wa7_cleanup_begin c s)" "wa7_typed s \<Longrightarrow> wa7_typed (wa7_cleanup_finish K s)"
  by (simp_all add: wa7_reg_callback_def pong_report_def pending_reg_done_def wa7_cleanup_begin_def
      wa7_cleanup_finish_def pong_cleanup_module_def Let_def)

lemma sys_step_typed: "sys_step c K P s t \<Longrightarrow> wa7_typed (modl s) \<Longrightarrow> wa7_typed (modl t)"
  by (cases rule: sys_step.cases) (auto intro: handler_step_typed callbacks_typed)

lemma wa7_vars_more: "udbg.more s = udbg.more t \<Longrightarrow> wa7_vars s = wa7_vars t"
  by (cases s; cases t) (simp add: wa7_vars_def)

lemma typed_fields [simp]:
  "wa7_typed (s\<lparr>trampoline_addr := x\<rparr>) = wa7_typed s" "wa7_typed (s\<lparr>entry_pid := x\<rparr>) = wa7_typed s"
  "wa7_typed (s\<lparr>entry_vaddr := x\<rparr>) = wa7_typed s" "wa7_typed (s\<lparr>return_pid := x\<rparr>) = wa7_typed s"
  "wa7_typed (s\<lparr>return_vaddr := x\<rparr>) = wa7_typed s"
  by (simp_all add: wa7_typed_def)

lemma wa7_init_typed:
  assumes "wa7_init_module c K P s = (r, m)" and "wa7_typed s"
  shows "wa7_typed m"
proof -
  obtain r1 s1 where 1: "u_dbfs_init K ''pong_wa7'' s = (r1, s1)" by fastforce
  have s1: "wa7_typed s1"
    using assms(2) wa7_vars_more [OF u_dbfs_init_only(2) [OF 1]] by (simp add: wa7_typed_vars)
  have tr: "wa7_typed (snd (pong_trampoline c K P s1))"
    using s1 by (simp add: pong_trampoline_def Let_def case_prod_unfold)
  have rf: "wa7_typed (snd (register_or_fail K u p v t)) = wa7_typed t" for u p v t
    by (simp add: register_or_fail_def case_prod_unfold)
  show ?thesis
    using assms(1) s1 tr
    by (auto simp: wa7_init_module_def pong_init_def 1 Let_def case_prod_unfold rf split: option.splits if_splits)
qed



section \<open>The wait ends\<close>

text \<open>The steps that need neither a new hit nor \<open>rmmod\<close>: the handler that runs and the completion
  callbacks of the kernel.\<close>

definition drain_step :: "regconf \<Rightarrow> kernel \<Rightarrow> pong_params \<Rightarrow> system \<Rightarrow> system \<Rightarrow> bool" where
  "drain_step c K P s t \<longleftrightarrow> sys_step c K P s t \<and> phase t = phase s \<and> (at s = Idle \<longrightarrow> at t = Idle)"

text \<open>How many such steps are left once \<open>cleaning_up\<close> is set, with the callbacks still to be asked for.\<close>

fun left :: "pc \<Rightarrow> nat" where
  "left Idle = 0"
| "left E_check = 1" | "left E_start = 2" | "left E_check2 = 1" | "left (E_result r) = 2"
| "left E_register = 4" | "left E_inc = 5" | "left E_clear = 1" | "left E_unregister = 3" | "left E_inc2 = 4"
| "left R_check = 1" | "left R_start = 2" | "left R_check2 = 1" | "left R_clear = 2"
| "left R_unregister = 4" | "left R_inc = 5" | "left (R_result r) = 1" | "left R_register = 3" | "left R_inc2 = 4"

definition steps_left :: "system \<Rightarrow> nat" where
  "steps_left s = left (at s) + in_flight s"

lemma handler_step_cleaning:
  "handler_step K P (p, m) = (p', m') \<Longrightarrow> cleaning_up m' = cleaning_up m"
  by (cases p) (auto simp: Let_def case_prod_unfold frame_simps split: if_splits)

lemma handler_step_left:
  assumes "handler_step K P (p, m) = (p', m')" and "p \<noteq> Idle" and "cleaning_up m \<noteq> 0"
  shows "left p' + (if issues p p' then 1 else 0) < left p"
  using assms by (cases p) (auto simp: issues_def Let_def case_prod_unfold)

lemma drain_decreases:
  assumes "drain_step c K P s t" and "cleaning_up (modl s) \<noteq> 0"
  shows "steps_left t < steps_left s \<and> cleaning_up (modl t) \<noteq> 0"
  using assms(1) [unfolded drain_step_def, THEN conjunct1] assms
proof (cases rule: sys_step.cases)
  case (handler p m)
  then show ?thesis
    using assms(2) handler_step_left [of K P "at s" "modl s" p m] handler_step_cleaning [of K P "at s" "modl s" p m]
    by (simp add: steps_left_def)
qed (auto simp: drain_step_def steps_left_def)

lemma drain_progress:
  assumes "at s \<noteq> Idle \<or> in_flight s \<noteq> 0"
  shows "\<exists>t. drain_step c K P s t"
proof (cases "at s = Idle")
  case True
  then obtain n where "in_flight s = Suc n" using assms by (cases "in_flight s") auto
  from sys_step.completed [OF this] True show ?thesis by (force simp: drain_step_def)
next
  case False
  obtain p m where "handler_step K P (at s, modl s) = (p, m)" by fastforce
  from sys_step.handler [OF False this] False show ?thesis by (force simp: drain_step_def)
qed

lemma drain_bounded:
  "(drain_step c K P ^^ n) s t \<Longrightarrow> cleaning_up (modl s) \<noteq> 0 \<Longrightarrow>
   n + steps_left t \<le> steps_left s \<and> cleaning_up (modl t) \<noteq> 0 \<and> phase t = phase s"
proof (induction n arbitrary: t)
  case (Suc n)
  then obtain u where u: "(drain_step c K P ^^ n) s u" "drain_step c K P u t" by auto
  with Suc have "n + steps_left u \<le> steps_left s" "cleaning_up (modl u) \<noteq> 0" "phase u = phase s" by blast+
  with drain_decreases [OF u(2)] u(2) show ?case by (simp add: drain_step_def)
qed simp

lemma waiting_cleans:
  "reachable c K P m s \<Longrightarrow> uprobes_reg_callback c \<Longrightarrow> phase s \<noteq> Loaded \<Longrightarrow> cleaning_up (modl s) \<noteq> 0"
proof (induction rule: reachable.induct)
  case (step s t)
  from step(2) step.IH step.prems show ?case
  proof (cases rule: sys_step.cases)
    case (handler p m)
    then show ?thesis
      using step.IH step.prems handler_step_cleaning [of K P "at s" "modl s" p m] by simp
  qed (auto simp: wa7_cleanup_begin_def)
qed simp

lemma drain_reachable:
  "(drain_step c K P ^^ n) s t \<Longrightarrow> reachable c K P m s \<Longrightarrow> reachable c K P m t"
proof (induction n arbitrary: t)
  case (Suc n)
  then obtain u where "(drain_step c K P ^^ n) s u" "drain_step c K P u t" by auto
  moreover from this have "reachable c K P m u" using Suc by blast
  ultimately show ?case using reachable.step [of c K P m u t] unfolding drain_step_def by blast
qed simp



end
