(* ===== verification/Probed_Programs.thy ===== *)
theory Probed_Programs
  imports Probe_Slot Probe6
begin

text \<open>
  The programs of \<open>uprobes.existing\<close> that the modules probe: \<open>probeme4.c\<close>, \<open>probeme4s.c\<close>,
  \<open>probeme6.c\<close>, \<open>probe7-thread.c\<close> and \<open>probe8-fork.c\<close>. The probes are seen from the program as what
  the kernel does when a function is entered or left; \<open>w\<close> is the state that this changes. The times
  the programs print are not represented; the sum they print is. An \<open>int\<close> of a loop that the sources
  compare with an \<open>unsigned\<close> is a \<open>32 word\<close>.
\<close>

section \<open>Calls of probed functions\<close>

record 'w probes =
  enter :: "string \<Rightarrow> 'w \<Rightarrow> 'w"
  leave :: "string \<Rightarrow> 'w \<Rightarrow> 'w"

definition no_probes :: "'w probes" where
  "no_probes = \<lparr>enter = (\<lambda>_ w. w), leave = (\<lambda>_ w. w)\<rparr>"

definition add :: "'w probes \<Rightarrow> int \<Rightarrow> int \<Rightarrow> 'w \<Rightarrow> int \<times> 'w" where
  "add h n1 n2 w = (c_int (n1 + n2), leave h ''add'' (enter h ''add'' w))"

definition subtract :: "'w probes \<Rightarrow> int \<Rightarrow> int \<Rightarrow> 'w \<Rightarrow> int \<times> 'w" where
  "subtract h n1 n2 w = (c_int (n1 - n2), leave h ''subtract'' (enter h ''subtract'' w))"

text \<open>\<open>for (i = 1; i <= n; i++) sum = add(sum, i);\<close>\<close>

definition sum_loop :: "'w probes \<Rightarrow> int \<Rightarrow> 'w \<Rightarrow> int \<times> 'w" where
  "sum_loop h n w = fold (\<lambda>i (acc, w). add h acc i w) [1..n] (0, w)"

section \<open>probeme4, probeme4s and probeme6\<close>

text \<open>\<open>sprintf(line, "Usage: %s niter\n", argv[0])\<close> into 100 bytes.\<close>

definition usage_line :: "string list \<Rightarrow> string" where
  "usage_line argv =
     ''Usage: '' @ (case argv of [] \<Rightarrow> ''(null)'' | name # _ \<Rightarrow> name) @ '' niter'' @ nl"

definition usage_fail :: "string list \<Rightarrow> outcome" where
  "usage_fail argv =
     (if length (usage_line argv) < 100 then report_test_fail (usage_line argv) else Undefined)"

text \<open>\<open>argc != 2 || (n = atoi(argv[1])) <= 0\<close>: the number, when the check passes.\<close>

fun parse_niter :: "string list \<Rightarrow> int option" where
  "parse_niter [name, a] = (if atoi a \<le> 0 then None else Some (atoi a))"
| "parse_niter argv = None"

text \<open>How the program ends and the sum it printed.\<close>

definition probeme4_main :: "'w probes \<Rightarrow> string list \<Rightarrow> 'w \<Rightarrow> (outcome \<times> int option) \<times> 'w" where
  "probeme4_main h argv w =
     (case parse_niter argv of
        None \<Rightarrow> ((usage_fail argv, None), w)
      | Some n \<Rightarrow> (case sum_loop h n w of (acc, w) \<Rightarrow> ((report_pass, Some acc), w)))"

definition probeme4s_main :: "'w probes \<Rightarrow> string list \<Rightarrow> 'w \<Rightarrow> (outcome \<times> int option) \<times> 'w" where
  "probeme4s_main h argv w =
     (case parse_niter argv of
        None \<Rightarrow> ((usage_fail argv, None), w)
      | Some n \<Rightarrow>
          (case fold (\<lambda>i (acc, w). case add h acc i w of (acc, w) \<Rightarrow> subtract h acc i w) [1..n] (0, w) of
             (acc, w) \<Rightarrow> ((report_pass, Some acc), w)))"

text \<open>The chain of functions that ends in \<open>exit(0)\<close>: each is entered, none is left.\<close>

definition arrivederci :: "'w probes \<Rightarrow> 'w \<Rightarrow> 'w" where
  "arrivederci h w = enter h ''arrivederci'' w"

definition auf_wiedersehen :: "'w probes \<Rightarrow> 'w \<Rightarrow> 'w" where
  "auf_wiedersehen h w = arrivederci h (enter h ''auf_wiedersehen'' w)"

definition au_revoir :: "'w probes \<Rightarrow> 'w \<Rightarrow> 'w" where
  "au_revoir h w = auf_wiedersehen h (enter h ''au_revoir'' w)"

definition adios :: "'w probes \<Rightarrow> 'w \<Rightarrow> 'w" where
  "adios h w = au_revoir h (enter h ''adios'' w)"

definition bye :: "'w probes \<Rightarrow> 'w \<Rightarrow> 'w" where
  "bye h w = adios h (enter h ''bye'' w)"

definition probeme6_main :: "'w probes \<Rightarrow> string list \<Rightarrow> 'w \<Rightarrow> (outcome \<times> int option) \<times> 'w" where
  "probeme6_main h argv w =
     (case parse_niter argv of
        None \<Rightarrow> ((usage_fail argv, None), w)
      | Some n \<Rightarrow>
          (case sum_loop h n w of (acc, w) \<Rightarrow> ((Exited 0 (''***PASSED***'' @ nl @ nl), Some acc), bye h w)))"

section \<open>probe7-thread\<close>

text \<open>\<open>niter\<close> is unsigned here: \<open>(niter = atoi(argv[1])) <= 0\<close> holds for 0 only, and \<open>i <= niter\<close> compares
  unsigned values. \<open>None\<close>: the loop does not end.\<close>

partial_function (option) thread_loop ::
  "'w probes \<Rightarrow> 32 word \<Rightarrow> 32 word \<Rightarrow> int \<Rightarrow> 'w \<Rightarrow> (int \<times> 'w) option" where
  "thread_loop h niter i acc w =
     (if i \<le> niter
      then (case add h acc (sint i) w of (acc, w) \<Rightarrow> thread_loop h niter (i + 1) acc w)
      else Some (acc, w))"

definition start_thread :: "'w probes \<Rightarrow> 32 word \<Rightarrow> 'w \<Rightarrow> (int \<times> 'w) option" where
  "start_thread h niter w = thread_loop h niter 1 0 w"

text \<open>The second thread function has the text of the first but for its messages.\<close>

definition start_thread2 :: "'w probes \<Rightarrow> 32 word \<Rightarrow> 'w \<Rightarrow> (int \<times> 'w) option" where
  "start_thread2 h niter w = thread_loop h niter 1 0 w"

fun parse_unsigned :: "string list \<Rightarrow> 32 word option" where
  "parse_unsigned [name, a] = (let n = word_of_int (atoi a) in if n \<le> 0 then None else Some n)"
| "parse_unsigned argv = None"

text \<open>\<open>ok1\<close> and \<open>ok2\<close> say whether \<open>pthread_create\<close> made the threads; \<open>main\<close> does not check this and joins a
  thread that is not there. The result is \<open>None\<close> when a join waits for ever. The hits of the two
  threads are put one after the other.\<close>

definition probe7_main ::
  "'w probes \<Rightarrow> bool \<Rightarrow> bool \<Rightarrow> string list \<Rightarrow> 'w \<Rightarrow> (outcome \<times> 'w) option" where
  "probe7_main h ok1 ok2 argv w =
     (case parse_unsigned argv of
        None \<Rightarrow> Some (usage_fail argv, w)
      | Some niter \<Rightarrow>
          if \<not> ok1 \<or> \<not> ok2 then Some (Undefined, w)
          else
            (case start_thread h niter w of
               None \<Rightarrow> None
             | Some (acc1, w) \<Rightarrow>
                 (case start_thread2 h niter w of
                    None \<Rightarrow> None
                  | Some (acc2, w) \<Rightarrow> Some (report_pass, w))))"

section \<open>probe8-fork\<close>

text \<open>What \<open>fork\<close> did: nothing; a child with these probes; or a child whose first call of \<open>add\<close> runs into a
  breakpoint that nobody handles, which kills it.\<close>

datatype 'w fork_result = Fork_failed | Child "'w probes" | Trapped

definition probe8_main :: "'w probes \<Rightarrow> 'w fork_result \<Rightarrow> string list \<Rightarrow> 'w \<Rightarrow> outcome \<times> 'w" where
  "probe8_main h fk argv w =
     (case parse_niter argv of
        None \<Rightarrow> (usage_fail argv, w)
      | Some n \<Rightarrow>
          (case fk of
             Fork_failed \<Rightarrow> (report_test_fail (''fork!'' @ nl), w)
           | Child h' \<Rightarrow> (report_pass, snd (sum_loop h n (snd (sum_loop h' n w))))
           | Trapped \<Rightarrow> (report_test_fail ''Child exited with error'', snd (sum_loop h n w))))"

section \<open>The loops\<close>

abbreviation hit_add :: "'w probes \<Rightarrow> 'w \<Rightarrow> 'w" where
  "hit_add h w \<equiv> leave h ''add'' (enter h ''add'' w)"

lemma sum_loop_result:
  "sum_loop h (int n) w = (c_int (int n * (int n + 1) div 2), (hit_add h ^^ n) w)"
proof (induction n)
  case 0
  then show ?case by (simp add: sum_loop_def wrap_s_def)
next
  case (Suc n)
  have "[1..int (Suc n)] = [1..int n] @ [int (Suc n)]" by (simp add: upto_rec2)
  moreover have "int n * (int n + 1) div 2 + int (Suc n) = int (Suc n) * (int (Suc n) + 1) div 2"
    by (simp add: algebra_simps)
  ultimately show ?case
    using Suc by (simp add: sum_loop_def add_def c_int_add)
qed

lemma sum_loop_pos: "0 \<le> n \<Longrightarrow> sum_loop h n w = (c_int (n * (n + 1) div 2), (hit_add h ^^ nat n) w)"
  using sum_loop_result [of h "nat n" w] by simp

lemma thread_loop_ends:
  assumes "niter \<noteq> - 1" and "unat i + k = unat niter + 1"
  shows "\<exists>acc'. thread_loop h niter i acc w = Some (acc', (hit_add h ^^ k) w)"
  using assms(2)
proof (induction k arbitrary: i acc w)
  case 0
  then have "\<not> i \<le> niter" by (simp add: word_le_nat_alt)
  then show ?case by (simp add: thread_loop.simps)
next
  case (Suc k)
  have "unat niter < 2 ^ 32 - 1"
  proof -
    have "niter < - 1" using assms(1) by (simp add: order.not_eq_order_implies_strict)
    then have "unat niter < unat (- 1 :: 32 word)" by (simp add: word_less_nat_alt)
    moreover have "unat (- 1 :: 32 word) = 2 ^ 32 - 1" by (simp add: unsigned_minus_1_eq_mask mask_eq_exp_minus_1)
    ultimately show ?thesis by simp
  qed
  then have "unat (i + 1) = unat i + 1"
    using Suc.prems by (simp add: unat_word_ariths)
  then have "unat (i + 1) + k = unat niter + 1" using Suc.prems by simp
  from Suc.IH [OF this] obtain acc' where
    "thread_loop h niter (i + 1) (c_int (acc + sint i)) (hit_add h w) = Some (acc', (hit_add h ^^ k) (hit_add h w))"
    by blast
  moreover have "i \<le> niter" using Suc.prems by (simp add: word_le_nat_alt)
  ultimately show ?case
    by (subst thread_loop.simps) (simp add: add_def funpow_Suc_right del: funpow.simps)
qed

lemma thread_loop_bounded:
  assumes "thread_loop h niter i acc w = Some y"
  shows "niter \<noteq> - 1"
proof (rule thread_loop.raw_induct [where P = "\<lambda>h niter i acc w y. niter \<noteq> - 1", OF _ assms])
  fix loop h niter i acc w y
  assume "\<And>h niter i acc w y. loop h niter i acc w = Some y \<Longrightarrow> niter \<noteq> - 1"
    and "(if i \<le> niter
      then (case add h acc (sint i) w of (acc, w) \<Rightarrow> loop h niter (i + 1) acc w)
      else Some (acc, w)) = Some y"
  then show "niter \<noteq> - 1" by (auto split: prod.splits if_splits)
qed

section \<open>The programs under probe5\<close>

definition probe5_on_add :: "kernel \<Rightarrow> params \<Rightarrow> 'a probe5_scheme probes" where
  "probe5_on_add K P = \<lparr>enter = (\<lambda>f. if f = ''add'' then probe5_add_inst K P else (\<lambda>s. s)), leave = (\<lambda>f s. s)\<rparr>"

lemma probe5_hits:
  "ncalls s = int m \<Longrightarrow> m + n < 2147483648 \<Longrightarrow>
   ncalls ((hit_add (probe5_on_add K P) ^^ n) s) = int (m + n)"
proof (induction n)
  case (Suc n)
  have "ncalls (probe5_add_inst K P t) = c_int (ncalls t + 1)" for t :: "'a probe5_scheme"
    by (simp add: probe5_add_inst_def Let_def frame_simps)
  then show ?case
    using Suc c_int_of_small [of "m + Suc n"] by (simp add: probe5_on_add_def add.commute)
qed simp

lemma no_hits: "hit_add no_probes = (\<lambda>w. w)" by (simp add: no_probes_def)

lemma funpow_id: "((\<lambda>w. w) ^^ n) = (\<lambda>w. w)" by (induction n) (simp_all add: comp_def)

lemma parse_niter_range:
  assumes "parse_niter argv = Some n"
  shows "0 < n \<and> n < 2147483648"
proof -
  obtain name x where argv: "argv = [name, x]"
    using assms by (cases argv rule: parse_niter.cases) simp_all
  have "atoi x < 2147483648"
    using wrap_s_range [of 32] by (simp add: atoi_def split: list.splits)
  then show ?thesis using assms argv by (simp split: if_splits)
qed

lemma parse_unsigned_pos:
  assumes "parse_niter argv = Some n"
  shows "parse_unsigned argv = Some (word_of_int n)" "unat (word_of_int n :: 32 word) = nat n"
    "(word_of_int n :: 32 word) \<noteq> - 1"
proof -
  have n: "0 < n" "n < 2147483648" using parse_niter_range [OF assms] by simp_all
  then have u: "uint (word_of_int n :: 32 word) = n" by (simp add: unsigned_of_int take_bit_int_eq_self)
  then show un: "unat (word_of_int n :: 32 word) = nat n"
    by (simp only: nat_uint_eq [symmetric] u)
  have "\<not> (word_of_int n :: 32 word) \<le> 0" using un n(1) by (simp add: word_le_nat_alt)
  then show "parse_unsigned argv = Some (word_of_int n)"
    using assms by (cases argv rule: parse_niter.cases) (auto simp: Let_def split: if_splits)
  have "uint (- 1 :: 32 word) = 2 ^ 32 - 1" by (simp add: unsigned_minus_1_eq_mask mask_eq_exp_minus_1)
  then have "n = 2 ^ 32 - 1" if "word_of_int n = (- 1 :: 32 word)" using u that by (simp only:)
  then show "(word_of_int n :: 32 word) \<noteq> - 1" using n(2) by (intro notI) simp
qed

lemma probe7_both_end:
  assumes "parse_unsigned argv = Some niter"
    and "start_thread h niter w = Some (a1, w1)" and "start_thread h niter w1 = Some (a2, w2)"
  shows "probe7_main h True True argv w = Some (report_pass, w2)"
  using assms by (simp add: probe7_main_def start_thread_def start_thread2_def)

lemma probe7_first_hangs:
  assumes "parse_unsigned argv = Some niter" and "start_thread h niter w = None"
  shows "probe7_main h True True argv w = None"
  using assms by (simp add: probe7_main_def)

lemma start_thread_hangs: "start_thread h (- 1) w = None"
  unfolding start_thread_def by (rule ccontr) (metis not_None_eq thread_loop_bounded)

lemma start_thread_ends:
  assumes "niter \<noteq> - 1"
  obtains acc where "start_thread h niter w = Some (acc, (hit_add h ^^ unat niter) w)"
  using thread_loop_ends [OF assms, of 1 "unat niter" h 0 w] by (auto simp: start_thread_def)



text \<open>(C38) \<open>probe7-thread\<close> stores its argument in an unsigned variable, so its check lets every negative
  argument pass. The program ends, and passes, for every argument it lets pass except those that
  convert to \<open>UINT_MAX\<close>, such as -1: then the threads, and with them \<open>main\<close>, run for ever.\<close>

theorem probe7_ends_iff:
  assumes "parse_unsigned argv = Some niter"
  shows "(probe7_main h True True argv w = None \<longleftrightarrow> niter = - 1)
    \<and> (niter \<noteq> - 1 \<longrightarrow> probe7_main h True True argv w =
         Some (report_pass, (hit_add h ^^ unat niter) ((hit_add h ^^ unat niter) w)))"
proof (cases "niter = - 1")
  case True
  have "probe7_main h True True argv w = None"
    by (rule probe7_first_hangs [OF assms]) (simp only: True start_thread_hangs)
  then show ?thesis using True by simp
next
  case False
  obtain a1 where a1: "start_thread h niter w = Some (a1, (hit_add h ^^ unat niter) w)"
    by (rule start_thread_ends [OF False])
  obtain a2 where a2: "start_thread h niter ((hit_add h ^^ unat niter) w) =
      Some (a2, (hit_add h ^^ unat niter) ((hit_add h ^^ unat niter) w))"
    by (rule start_thread_ends [OF False])
  have "probe7_main h True True argv w =
      Some (report_pass, (hit_add h ^^ unat niter) ((hit_add h ^^ unat niter) w))"
    by (rule probe7_both_end [OF assms a1 a2])
  with False show ?thesis by (simp only: option.distinct simp_thms)
qed

theorem probe7_ends_iff_witness:
  "probe7_main no_probes True True [''./probe7-thread'', ''-1''] () = None"
proof -
  have "atoi ''-1'' = - 1" by (simp add: atoi_def is_space_def is_digit_def wrap_s_def)
  moreover have "\<not> (- 1 :: 32 word) \<le> 0" and "(word_of_int (- 1) :: 32 word) = - 1" by simp_all
  ultimately have "parse_unsigned [''./probe7-thread'', ''-1''] = Some (- 1)"
    by (simp only: parse_unsigned.simps Let_def if_False)
  then show ?thesis by (rule probe7_ends_iff [THEN conjunct1, THEN iffD2, OF _ refl])
qed

end
