(* ===== verification/Fork_And_Defunc_Table.thy ===== *)
theory Fork_And_Defunc_Table
  imports Symbols
begin

text \<open>
  The symbol table \<open>fork_and_defunc.h\<close> (the file in \<open>uprobes.w\<close> is a copy) and \<open>uprobes.w/sym2loc.c\<close>,
  which prints the location of every probe function of such a table. The table has the format of an older
  generator, with an address and a type for each name; \<open>symbols.h\<close> reads the names only.
\<close>

section \<open>The table\<close>

record old_symbol =
  os_address :: int
  os_type :: char
  os_name :: string

abbreviation sym_entry :: "int \<Rightarrow> char \<Rightarrow> string \<Rightarrow> old_symbol" where
  "sym_entry a t n \<equiv> \<lparr>os_address = a, os_type = t, os_name = n\<rparr>"

text \<open>An undefined symbol has the address -1. The three parts of the array, in order.\<close>

definition fork_and_defunc_syms_1 :: "old_symbol list" where
  "fork_and_defunc_syms_1 = [
     sym_entry (- 1) CHR ''U'' ''atoi@@GLIBC_2.0'',
     sym_entry (0x0804a9ec) CHR ''A'' ''__bss_start'',
     sym_entry (0x08048624) CHR ''t'' ''call_gmon_start'',
     sym_entry (- 1) CHR ''U'' ''calloc@@GLIBC_2.0'',
     sym_entry (0x0804a9f0) CHR ''b'' ''completed.5754'',
     sym_entry (0x0804a8b8) CHR ''d'' ''__CTOR_END__'',
     sym_entry (0x0804a8b4) CHR ''d'' ''__CTOR_LIST__'',
     sym_entry (0x0804a9e4) CHR ''D'' ''__data_start'',
     sym_entry (0x0804a9e4) CHR ''W'' ''data_start'',
     sym_entry (0x080496a0) CHR ''t'' ''__do_global_ctors_aux'',
     sym_entry (0x08048650) CHR ''t'' ''__do_global_dtors_aux'',
     sym_entry (0x080496f0) CHR ''R'' ''__dso_handle'',
     sym_entry (0x0804a8c0) CHR ''d'' ''__DTOR_END__'',
     sym_entry (0x0804a8bc) CHR ''d'' ''__DTOR_LIST__'',
     sym_entry (0x0804a8c8) CHR ''d'' ''_DYNAMIC'',
     sym_entry (0x0804a9ec) CHR ''A'' ''_edata'',
     sym_entry (0x0804a9f8) CHR ''A'' ''_end'',
     sym_entry (- 1) CHR ''U'' ''exit@@GLIBC_2.0'',
     sym_entry (0x0804a9f4) CHR ''B'' ''findme'',
     sym_entry (0x080496cc) CHR ''T'' ''_fini'',
     sym_entry (0x0804a8b4) CHR ''a'' ''__fini_array_end'',
     sym_entry (0x0804a8b4) CHR ''a'' ''__fini_array_start'',
     sym_entry (- 1) CHR ''U'' ''fork@@GLIBC_2.0'',
     sym_entry (0x08049387) CHR ''T'' ''fork_thread'',
     sym_entry (0x080496e8) CHR ''R'' ''_fp_hw'',
     sym_entry (- 1) CHR ''U'' ''fprintf@@GLIBC_2.0'',
     sym_entry (0x08048680) CHR ''t'' ''frame_dummy'']"

definition fork_and_defunc_syms_2 :: "old_symbol list" where
  "fork_and_defunc_syms_2 = [
     sym_entry (0x080498b0) CHR ''r'' ''__FRAME_END__'',
     sym_entry (- 1) CHR ''U'' ''getpid@@GLIBC_2.0'',
     sym_entry (0x08048700) CHR ''T'' ''gettid'',
     sym_entry (0x0804a99c) CHR ''d'' ''_GLOBAL_OFFSET_TABLE_'',
     sym_entry (- 1) CHR ''w'' ''__gmon_start__'',
     sym_entry (0x080484e4) CHR ''T'' ''_init'',
     sym_entry (0x0804a8b4) CHR ''a'' ''__init_array_end'',
     sym_entry (0x0804a8b4) CHR ''a'' ''__init_array_start'',
     sym_entry (0x080496ec) CHR ''R'' ''_IO_stdin_used'',
     sym_entry (0x0804a8c4) CHR ''d'' ''__JCR_END__'',
     sym_entry (0x0804a8c4) CHR ''d'' ''__JCR_LIST__'',
     sym_entry (- 1) CHR ''w'' ''_Jv_RegisterClasses'',
     sym_entry (- 1) CHR ''U'' ''kill@@GLIBC_2.0'',
     sym_entry (0x080486a4) CHR ''T'' ''__libc_csu_fini'',
     sym_entry (0x080486ac) CHR ''T'' ''__libc_csu_init'',
     sym_entry (- 1) CHR ''U'' ''__libc_start_main@@GLIBC_2.0'',
     sym_entry (0x08049517) CHR ''T'' ''main'',
     sym_entry (0x0804a9e8) CHR ''d'' ''p.5752'',
     sym_entry (- 1) CHR ''U'' ''perror@@GLIBC_2.0'',
     sym_entry (0x0804a8b4) CHR ''a'' ''__preinit_array_end'',
     sym_entry (0x0804a8b4) CHR ''a'' ''__preinit_array_start'',
     sym_entry (- 1) CHR ''U'' ''printf@@GLIBC_2.0'',
     sym_entry (0x08048775) CHR ''T'' ''_probe_0'',
     sym_entry (0x0804885b) CHR ''t'' ''probe_0'',
     sym_entry (0x080488aa) CHR ''T'' ''_probe_1'',
     sym_entry (0x08048990) CHR ''t'' ''probe_1'',
     sym_entry (0x080489df) CHR ''T'' ''_probe_2'']"

definition fork_and_defunc_syms_3 :: "old_symbol list" where
  "fork_and_defunc_syms_3 = [
     sym_entry (0x08048ac5) CHR ''t'' ''probe_2'',
     sym_entry (0x08048b14) CHR ''T'' ''_probe_3'',
     sym_entry (0x08048bfa) CHR ''t'' ''probe_3'',
     sym_entry (0x08048c49) CHR ''T'' ''_probe_4'',
     sym_entry (0x08048d2f) CHR ''t'' ''probe_4'',
     sym_entry (0x08048d7e) CHR ''T'' ''_probe_5'',
     sym_entry (0x08048e64) CHR ''t'' ''probe_5'',
     sym_entry (0x08048eb3) CHR ''T'' ''_probe_6'',
     sym_entry (0x08048f99) CHR ''t'' ''probe_6'',
     sym_entry (0x08048fe8) CHR ''T'' ''_probe_7'',
     sym_entry (0x080490ce) CHR ''t'' ''probe_7'',
     sym_entry (0x0804911d) CHR ''T'' ''_probe_8'',
     sym_entry (0x08049203) CHR ''t'' ''probe_8'',
     sym_entry (0x08049252) CHR ''T'' ''_probe_9'',
     sym_entry (0x08049338) CHR ''t'' ''probe_9'',
     sym_entry (- 1) CHR ''U'' ''pthread_create@@GLIBC_2.1'',
     sym_entry (- 1) CHR ''U'' ''pthread_join@@GLIBC_2.0'',
     sym_entry (- 1) CHR ''U'' ''puts@@GLIBC_2.0'',
     sym_entry (0x08048732) CHR ''T'' ''report_fail'',
     sym_entry (0x08048714) CHR ''T'' ''report_pass'',
     sym_entry (0x08048750) CHR ''T'' ''report_test_fail'',
     sym_entry (0x08048600) CHR ''T'' ''_start'',
     sym_entry (0x0804a9ec) CHR ''B'' ''stderr@@GLIBC_2.0'',
     sym_entry (- 1) CHR ''U'' ''syscall@@GLIBC_2.0'',
     sym_entry (0x080494f5) CHR ''T'' ''wait_for_kthread'']"

definition fork_and_defunc_syms :: "old_symbol list" where
  "fork_and_defunc_syms = fork_and_defunc_syms_1 @ fork_and_defunc_syms_2 @ fork_and_defunc_syms_3"

text \<open>An entry as far as \<open>symbols.h\<close> reads it.\<close>

definition as_symbol :: "old_symbol \<Rightarrow> symbol" where
  "as_symbol y = \<lparr>sym_path = [], sym_offset = os_address y, sym_name = os_name y\<rparr>"

section \<open>sym2loc\<close>

text \<open>\<open>find_vaddr\<close> comes with the generated table and is the parameter \<open>fv\<close>. The result is what \<open>main\<close>
  prints: the arguments of each \<open>printf\<close>.\<close>

definition sym2loc_main :: "(string \<Rightarrow> int) \<Rightarrow> symbol list \<Rightarrow> (string \<times> farg list) list" where
  "sym2loc_main fv syms =
     snd (for_each_glob syms ''_probe''
       (\<lambda>found out. (None :: int option, out @ [(''%s  %lx'' @ nl, [ArgS found, ArgX (fv found)])])) [])"

lemma each_collect: "each (\<lambda>n out. (None, out @ [f n])) ns out = (None, out @ map f ns)"
  by (induction ns arbitrary: out) simp_all

lemma sym2loc_prints:
  "sym2loc_main fv syms = map (\<lambda>n. (''%s  %lx'' @ nl, [ArgS n, ArgX (fv n)])) (globbed syms ''_probe'')"
  unfolding sym2loc_main_def for_each_glob_globbed each_collect by (simp only: snd_conv append_Nil)

section \<open>What the loops over this table do\<close>

definition probe_names :: "string list" where
  "probe_names = [''_probe_0'', ''_probe_1'', ''_probe_2'', ''_probe_3'', ''_probe_4'', ''_probe_5'',
     ''_probe_6'', ''_probe_7'', ''_probe_8'', ''_probe_9'']"

lemmas table_defs = fork_and_defunc_syms_def fork_and_defunc_syms_1_def fork_and_defunc_syms_2_def
  fork_and_defunc_syms_3_def

lemma globbed_table: "globbed (map as_symbol fork_and_defunc_syms) ''_probe'' = probe_names"
  by code_simp

lemma table_distinct: "distinct (map os_name fork_and_defunc_syms)"
  by code_simp

lemma table_probes_located:
  "list_all (\<lambda>n. 0 < find_offset (map as_symbol fork_and_defunc_syms) n) probe_names"
  by code_simp

text \<open>With the symbol table of \<open>fork_and_defunc\<close>, whose names are distinct, the loop of the modules runs
  over the functions \<open>_probe_0\<close> to \<open>_probe_9\<close> in this order and over nothing else, each is found at an
  address, and \<open>sym2loc\<close> prints exactly these ten lines.\<close>

theorem fork_and_defunc_table_probes:
  "for_each_glob (map as_symbol fork_and_defunc_syms) ''_probe'' body s = each body probe_names s
   \<and> distinct (map os_name fork_and_defunc_syms)
   \<and> list_all (\<lambda>n. 0 < find_offset (map as_symbol fork_and_defunc_syms) n) probe_names
   \<and> sym2loc_main fv (map as_symbol fork_and_defunc_syms) =
       map (\<lambda>n. (''%s  %lx'' @ nl, [ArgS n, ArgX (fv n)])) probe_names"
  using table_distinct table_probes_located
  by (simp only: for_each_glob_globbed sym2loc_prints globbed_table simp_thms)

end
