(* ===== verification/Concurrent_Hits.thy ===== *)
theory Concurrent_Hits
  imports Probe_Handler
begin

text \<open>
  \<open>probe_handler\<close> of \<open>include/u_mod_common.h\<close> on several processors. Threads that hit breakpoints at the
  same time run the handler at the same time, with no lock around it; each is cut here into its accesses to
  the memory of the process and to \<open>num_probes\<close>, and the accesses of all processors interleave. A slot
  belongs to one thread, which is in the handler once, but \<open>num_probes\<close> belongs to all of them, and
  \<open>num_probes++\<close> is a load and a store. A message is printed with the access before it.
\<close>

section \<open>The handler, one access at a time\<close>

datatype hit_pc =
    Put_ktid
  | Get_utid
  | Get_kcount
  | Put_ucount nat
  | Put_kcount nat
  | Load_total
  | Store_total nat
  | Left

definition put_slot ::
  "data_model \<Rightarrow> kernel \<Rightarrow> uaccess \<Rightarrow> uinfo_field \<Rightarrow> nat \<Rightarrow> nat \<Rightarrow> 'a pmod_scheme \<times> mem \<Rightarrow> 'a pmod_scheme \<times> mem" where
  "put_slot dm K ua f slot v w =
     (case w of (s, m) \<Rightarrow>
        (case ua_put ua (ulong_size dm) (ea dm f slot) v m of (e, m) \<Rightarrow>
           (if e \<noteq> 0 then pr K ('' put_user returned an error!'' @ nl) [] s else s, m)))"

fun hit_access ::
  "data_model \<Rightarrow> kernel \<Rightarrow> uaccess \<Rightarrow> int \<Rightarrow> nat \<Rightarrow> hit_pc \<times> 'a pmod_scheme \<times> mem \<Rightarrow> hit_pc \<times> 'a pmod_scheme \<times> mem" where
  "hit_access dm K ua pid slot (Put_ktid, w) =
     (Get_utid, put_slot dm K ua Ktid slot (wrap_u (ulong_size dm) pid) w)"
| "hit_access dm K ua pid slot (Get_utid, w) = (Get_kcount, check_utid dm K ua pid slot w)"
| "hit_access dm K ua pid slot (Get_kcount, s, m) =
     (case ua_get ua (ulong_size dm) (ea dm Kcount slot) m of (e, kcount) \<Rightarrow>
        (if kcount = ulong_max dm then Put_ucount kcount else Put_kcount kcount,
         if e \<noteq> 0 then pr K ('' get_user returned an error!'' @ nl) [] s else s, m))"
| "hit_access dm K ua pid slot (Put_ucount kcount, w) = (Put_kcount kcount, put_slot dm K ua Ucount slot kcount w)"
| "hit_access dm K ua pid slot (Put_kcount kcount, w) =
     (Load_total, put_slot dm K ua Kcount slot ((kcount + 1) mod 256 ^ ulong_size dm) w)"
| "hit_access dm K ua pid slot (Load_total, s, m) = (Store_total (num_probes s), s, m)"
| "hit_access dm K ua pid slot (Store_total n, s, m) =
     (Left, s\<lparr>num_probes := (n + 1) mod 256 ^ ulong_size dm\<rparr>, m)"
| "hit_access dm K ua pid slot (Left, w) = (Left, w)"

lemma save_ktid_access: "save_ktid dm K ua pid slot w = put_slot dm K ua Ktid slot (wrap_u (ulong_size dm) pid) w"
  by (simp add: save_ktid_def put_slot_def)

lemma bump_kcount_access:
  "(hit_access dm K ua pid slot ^^ 3) (Get_kcount, w) = (Load_total, bump_kcount dm K ua slot w)
   \<or> (hit_access dm K ua pid slot ^^ 2) (Get_kcount, w) = (Load_total, bump_kcount dm K ua slot w)"
  by (cases w) (auto simp: bump_kcount_def put_slot_def Let_def numeral_eq_Suc funpow_swap1 split: prod.splits)


section \<open>Processors\<close>

text \<open>A processor is free or runs the handler for a hit: the thread and its slot, and how far it is. The
  history variables \<open>started\<close>, for each slot, and \<open>finished\<close> count the hits; no move reads them.\<close>

datatype cpu = Free | Busy int nat hit_pc

record 'm machine =
  cpus :: "cpu list"
  kmodule :: 'm
  user_mem :: mem
  started :: "nat \<Rightarrow> nat"
  finished :: nat

text \<open>A move: a thread hits the breakpoint with its slot, on some processor; a processor makes the next
  access; or a thread that is not in the handler runs the body of its \<open>_probe_N\<close>.\<close>

datatype move = Hit nat int nat | Access nat | Body nat

fun serves_slot :: "nat \<Rightarrow> cpu \<Rightarrow> bool" where
  "serves_slot p Free = False"
| "serves_slot p (Busy pid q pc) = (q = p)"

definition slot_busy :: "nat \<Rightarrow> 'm machine \<Rightarrow> bool" where
  "slot_busy p c \<longleftrightarrow> list_ex (serves_slot p) (cpus c)"

fun move_by :: "data_model \<Rightarrow> kernel \<Rightarrow> uaccess \<Rightarrow> move \<Rightarrow> 'a pmod_scheme machine \<Rightarrow> 'a pmod_scheme machine option" where
  "move_by dm K ua (Hit i pid p) c =
     (if i < length (cpus c) \<and> cpus c ! i = Free \<and> \<not> slot_busy p c
      then Some (c\<lparr>cpus := (cpus c)[i := Busy pid p Put_ktid], started := (started c)(p := Suc (started c p))\<rparr>)
      else None)"
| "move_by dm K ua (Access i) c =
     (if i < length (cpus c)
      then (case cpus c ! i of
              Free \<Rightarrow> None
            | Busy pid p pc \<Rightarrow>
                (case hit_access dm K ua pid p (pc, kmodule c, user_mem c) of
                   (pc, s, m) \<Rightarrow>
                     Some (if pc = Left
                           then c\<lparr>cpus := (cpus c)[i := Free], kmodule := s, user_mem := m,
                                  finished := Suc (finished c)\<rparr>
                           else c\<lparr>cpus := (cpus c)[i := Busy pid p pc], kmodule := s, user_mem := m\<rparr>)))
      else None)"
| "move_by dm K ua (Body p) c =
     (if slot_busy p c then None else Some (c\<lparr>user_mem := snd (probe_fun dm p (user_mem c))\<rparr>))"

fun moves :: "data_model \<Rightarrow> kernel \<Rightarrow> uaccess \<Rightarrow> move list \<Rightarrow> 'a pmod_scheme machine \<Rightarrow> 'a pmod_scheme machine option" where
  "moves dm K ua [] c = Some c"
| "moves dm K ua (x # xs) c = (case move_by dm K ua x c of None \<Rightarrow> None | Some c \<Rightarrow> moves dm K ua xs c)"

definition all_free :: "'m machine \<Rightarrow> bool" where
  "all_free c \<longleftrightarrow> list_all (\<lambda>x. x = Free) (cpus c)"

section \<open>One access\<close>

definition mapped_slot :: "data_model \<Rightarrow> uaccess \<Rightarrow> nat \<Rightarrow> bool" where
  "mapped_slot dm ua p \<longleftrightarrow> user_range ua p (sizeof_uinfo dm) \<and> p + sizeof_uinfo dm \<le> 256 ^ ulong_size dm"

lemma put_slot_mapped:
  assumes "mapped_slot dm ua p"
  shows "put_slot dm K ua Ktid p v (s, m) = (s, store (ulong_size dm) (p + 4) v m)"
    "put_slot dm K ua Ucount p v (s, m) = (s, wr dm Ucount v p m)"
    "put_slot dm K ua Kcount p v (s, m) = (s, wr dm Kcount v p m)"
proof -
  have r: "user_range ua p (sizeof_uinfo dm)" "p + sizeof_uinfo dm \<le> 256 ^ ulong_size dm"
    using assms by (simp_all add: mapped_slot_def)
  have "offset_of dm f + ulong_size dm \<le> sizeof_uinfo dm" if "f = Ktid \<or> f = Ucount \<or> f = Kcount" for f
    using that by (cases dm) auto
  then have put: "put_slot dm K ua f p v (s, m) = (s, store (ulong_size dm) (p + offset_of dm f) v m)"
    if "f = Ktid \<or> f = Ucount \<or> f = Kcount" for f
    using that user_range_put [OF r(1), of "p + offset_of dm f" "ulong_size dm" v m]
    by (simp add: put_slot_def ea_mapped [OF r(2)])
  show "put_slot dm K ua Ktid p v (s, m) = (s, store (ulong_size dm) (p + 4) v m)"
    "put_slot dm K ua Ucount p v (s, m) = (s, wr dm Ucount v p m)"
    "put_slot dm K ua Kcount p v (s, m) = (s, wr dm Kcount v p m)"
    using put [of Ktid] put [of Ucount] put [of Kcount] by (simp_all add: wr_def)
qed

lemma get_kcount_mapped:
  assumes "mapped_slot dm ua p"
  shows "ua_get ua (ulong_size dm) (ea dm Kcount p) m = (0, rd dm Kcount p m)"
proof -
  have r: "user_range ua p (sizeof_uinfo dm)" "p + sizeof_uinfo dm \<le> 256 ^ ulong_size dm"
    using assms by (simp_all add: mapped_slot_def)
  have "offset_of dm Kcount + field_size dm Kcount \<le> sizeof_uinfo dm" by (rule field_in_slot)
  then show ?thesis
    using user_range_get [OF r(1), of "p + offset_of dm Kcount" "ulong_size dm" m]
    by (simp add: ea_mapped [OF r(2)] rd_def)
qed

lemma check_utid_split: "check_utid dm K ua pid p (s, m) = (fst (check_utid dm K ua pid p (s, m)), m)"
  using check_utid_frame(1) [of dm K ua pid p s m] by (simp add: prod_eq_iff)

lemmas access_simps = put_slot_mapped get_kcount_mapped check_utid_frame

text \<open>An access changes no byte outside its slot, \<open>kcount\<close> in \<open>Put_kcount\<close> only, and \<open>num_probes\<close> in
  \<open>Store_total\<close> only.\<close>

lemma access_outside:
  assumes "mapped_slot dm ua p" and "hit_access dm K ua pid p (pc, s, m) = (pc', s', m')"
    and "x < p \<or> p + sizeof_uinfo dm \<le> x"
  shows "m' x = m x"
proof -
  have "4 + ulong_size dm \<le> sizeof_uinfo dm" by (cases dm) simp_all
  then have "store (ulong_size dm) (p + 4) v m x = m x" for v
    using assms(3) by (intro store_other) auto
  then show ?thesis
    using assms check_utid_split [of dm K ua pid p s m]
    by (cases pc) (auto simp: access_simps wr_outside split: if_splits)
qed

lemma access_kcount:
  assumes "mapped_slot dm ua p" and "hit_access dm K ua pid p (pc, s, m) = (pc', s', m')"
  shows "rd dm Kcount p m' =
    (case pc of Put_kcount k \<Rightarrow> (k + 1) mod 256 ^ ulong_size dm | _ \<Rightarrow> rd dm Kcount p m)"
proof -
  have "rd dm Kcount p (store (ulong_size dm) (p + 4) v m) = rd dm Kcount p m" for v
    by (simp add: rd_def load_store_disjoint)
  then show ?thesis
    using assms check_utid_split [of dm K ua pid p s m]
    by (cases pc) (auto simp: access_simps split: if_splits)
qed

lemma put_slot_total: "put_slot dm K ua f p v (s, m) = (s', m') \<Longrightarrow> num_probes s' = num_probes s"
  by (auto simp: put_slot_def frame_simps split: prod.splits)

lemma check_utid_total: "check_utid dm K ua pid p (s, m) = (s', m') \<Longrightarrow> num_probes s' = num_probes s"
  using check_utid_frame(2) [of dm K ua pid p s m] by simp

lemma access_total:
  assumes "hit_access dm K ua pid p (pc, s, m) = (pc', s', m')"
  shows "num_probes s' = (case pc of Store_total n \<Rightarrow> (n + 1) mod 256 ^ ulong_size dm | _ \<Rightarrow> num_probes s)"
  using assms
  by (cases pc) (auto simp: frame_simps dest: put_slot_total check_utid_total split: prod.splits)

text \<open>Where the access goes next.\<close>

lemma access_pc:
  assumes "mapped_slot dm ua p" and "hit_access dm K ua pid p (pc, s, m) = (pc', s', m')"
  shows "pc' = (case pc of
      Put_ktid \<Rightarrow> Get_utid
    | Get_utid \<Rightarrow> Get_kcount
    | Get_kcount \<Rightarrow> (if rd dm Kcount p m = ulong_max dm then Put_ucount else Put_kcount) (rd dm Kcount p m)
    | Put_ucount k \<Rightarrow> Put_kcount k
    | Put_kcount k \<Rightarrow> Load_total
    | Load_total \<Rightarrow> Store_total (num_probes s)
    | _ \<Rightarrow> Left)"
  using assms by (cases pc) (auto simp: get_kcount_mapped split: if_splits)

section \<open>What the interleavings keep\<close>

text \<open>A hit in progress, with \<open>b\<close> the total at the start, \<open>f\<close> the number of finished hits, \<open>n\<close> the number of
  hits on the slot and \<open>v\<close> its \<open>kcount\<close>.\<close>

fun pc_ok :: "data_model \<Rightarrow> nat \<Rightarrow> nat \<Rightarrow> nat \<Rightarrow> nat \<Rightarrow> hit_pc \<Rightarrow> bool" where
  "pc_ok dm b f n v (Put_ucount k) = (v = count_val dm (n - 1) \<and> k = v)"
| "pc_ok dm b f n v (Put_kcount k) = (v = count_val dm (n - 1) \<and> k = v)"
| "pc_ok dm b f n v Load_total = (v = count_val dm n)"
| "pc_ok dm b f n v (Store_total t) = (v = count_val dm n \<and> b \<le> t \<and> t \<le> b + f)"
| "pc_ok dm b f n v Left = False"
| "pc_ok dm b f n v pc = (v = count_val dm (n - 1))"

fun cpu_ok :: "data_model \<Rightarrow> nat set \<Rightarrow> nat \<Rightarrow> nat \<Rightarrow> (nat \<Rightarrow> nat) \<Rightarrow> mem \<Rightarrow> cpu \<Rightarrow> bool" where
  "cpu_ok dm S b f h m Free = True"
| "cpu_ok dm S b f h m (Busy pid p pc) \<longleftrightarrow> p \<in> S \<and> 0 < h p \<and> pc_ok dm b f (h p) (rd dm Kcount p m) pc"

definition total_ok :: "nat \<Rightarrow> nat \<Rightarrow> nat \<Rightarrow> bool" where
  "total_ok b f t \<longleftrightarrow> b \<le> t \<and> t \<le> b + f \<and> (0 < f \<longrightarrow> b < t)"

definition one_cpu_per_slot :: "cpu list \<Rightarrow> bool" where
  "one_cpu_per_slot cs \<longleftrightarrow>
     (\<forall>i < length cs. \<forall>j < length cs. \<forall>p. serves_slot p (cs ! i) \<longrightarrow> serves_slot p (cs ! j) \<longrightarrow> i = j)"

definition hits_ok :: "data_model \<Rightarrow> nat set \<Rightarrow> nat \<Rightarrow> 'a pmod_scheme machine \<Rightarrow> bool" where
  "hits_ok dm S b c \<longleftrightarrow>
     (\<forall>x \<in> set (cpus c). cpu_ok dm S b (finished c) (started c) (user_mem c) x)
     \<and> one_cpu_per_slot (cpus c)
     \<and> (\<forall>p \<in> S. \<not> slot_busy p c \<longrightarrow> rd dm Kcount p (user_mem c) = count_val dm (started c p))
     \<and> total_ok b (finished c) (num_probes (kmodule c))"

lemma access_pc_ok:
  assumes "mapped_slot dm ua p" and "hit_access dm K ua pid p (pc, s, m) = (pc', s', m')"
    and "pc_ok dm b f n (rd dm Kcount p m) pc" and "0 < n" and "total_ok b f (num_probes s)"
  shows "pc' = Left \<and> (\<exists>t. pc = Store_total t \<and> b \<le> t \<and> t \<le> b + f) \<and> rd dm Kcount p m' = count_val dm n
    \<or> pc' \<noteq> Left \<and> (\<nexists>t. pc = Store_total t) \<and> pc_ok dm b f n (rd dm Kcount p m') pc'"
proof -
  have "count_val dm (n - 1) + 1 = Suc (count_val dm (n - 1))" by simp
  then have "Suc (count_val dm (n - 1)) mod 256 ^ ulong_size dm = count_val dm n"
    using count_val_step [of dm "n - 1"] assms(4) by simp
  then show ?thesis
    using assms(3,5) access_pc [OF assms(1,2)] access_kcount [OF assms(1,2)]
    by (cases pc) (auto simp: total_ok_def)
qed

lemma kcount_cong: "(\<And>x. p \<le> x \<Longrightarrow> x < p + sizeof_uinfo dm \<Longrightarrow> m' x = m x) \<Longrightarrow> rd dm Kcount p m' = rd dm Kcount p m"
  by (rule rd_cong) simp

lemma pc_ok_mono: "pc_ok dm b f n v pc \<Longrightarrow> f \<le> f' \<Longrightarrow> pc_ok dm b f' n v pc"
  by (cases pc) auto

lemma slot_busy_nth: "slot_busy p c \<longleftrightarrow> (\<exists>i < length (cpus c). serves_slot p (cpus c ! i))"
  by (simp add: slot_busy_def list_ex_length)

text \<open>The state after a move of the processor \<open>i\<close> that touched the slot \<open>p\<close> only.\<close>

lemma hits_ok_update:
  assumes ok: "hits_ok dm S b c" and i: "i < length (cpus c)"
    and apart: "slots_apart dm S" and p: "p \<in> S"
    and mem: "\<And>x. x < p \<or> p + sizeof_uinfo dm \<le> x \<Longrightarrow> m x = user_mem c x"
    and cpu: "cpu_ok dm S b f h m y"
    and free: "y = Free \<Longrightarrow> rd dm Kcount p m = count_val dm (h p)"
    and serves: "\<And>q. serves_slot q y \<Longrightarrow> q = p" and mine: "\<And>q. serves_slot q (cpus c ! i) \<Longrightarrow> q = p"
    and alone: "\<And>j. j < length (cpus c) \<Longrightarrow> j \<noteq> i \<Longrightarrow> \<not> serves_slot p (cpus c ! j)"
    and h: "\<And>q. q \<noteq> p \<Longrightarrow> h q = started c q" and f: "finished c \<le> f" and t: "total_ok b f (num_probes s)"
  shows "hits_ok dm S b (c\<lparr>cpus := (cpus c)[i := y], kmodule := s, user_mem := m, started := h, finished := f\<rparr>)"
proof -
  let ?cs = "(cpus c)[i := y]"
  have other: "rd dm Kcount q m = rd dm Kcount q (user_mem c)" if "q \<in> S" "q \<noteq> p" for q
  proof -
    have "p + sizeof_uinfo dm \<le> q \<or> q + sizeof_uinfo dm \<le> p" using apart that p by (simp add: slots_apart_def)
    then show ?thesis by (intro kcount_cong mem) auto
  qed
  have "cpu_ok dm S b f h m x" if x: "x \<in> set ?cs" for x
  proof -
    obtain j where j: "j < length (cpus c)" "?cs ! j = x" using x by (auto simp: in_set_conv_nth)
    show ?thesis
    proof (cases "j = i")
      case True
      then show ?thesis using j cpu by simp
    next
      case False
      then have xj: "cpus c ! j = x" using j by simp
      then have o: "cpu_ok dm S b (finished c) (started c) (user_mem c) x"
        using ok j(1) by (auto simp: hits_ok_def)
      show ?thesis
      proof (cases x)
        case (Busy pid q pc)
        then have "q \<noteq> p" using alone [OF j(1) False] xj by auto
        then show ?thesis using o Busy other [of q] h [of q] pc_ok_mono [OF _ f] by simp
      qed simp
    qed
  qed
  moreover have "one_cpu_per_slot ?cs"
  proof -
    have "j = k" if "j < length (cpus c)" "k < length (cpus c)" "serves_slot q (?cs ! j)" "serves_slot q (?cs ! k)"
      for j k q
      using ok that alone [of j] alone [of k] serves [of q] i
      by (cases "j = i"; cases "k = i") (auto simp: hits_ok_def one_cpu_per_slot_def)
    then show ?thesis unfolding one_cpu_per_slot_def by simp
  qed
  moreover have "rd dm Kcount q m = count_val dm (h q)"
    if q: "q \<in> S" and n: "\<forall>j < length (cpus c). \<not> serves_slot q (?cs ! j)" for q
  proof (cases "q = p")
    case True
    then have "\<not> serves_slot p y" using n i by auto
    moreover have "y = Free \<or> serves_slot p y" using serves by (cases y) auto
    ultimately show ?thesis using free True by blast
  next
    case False
    then have "\<forall>j < length (cpus c). \<not> serves_slot q (cpus c ! j)"
      using n mine by (metis nth_list_update_neq)
    then have "rd dm Kcount q (user_mem c) = count_val dm (started c q)"
      using ok q by (simp add: hits_ok_def slot_busy_nth)
    then show ?thesis using other [OF q False] h [OF False] by simp
  qed
  ultimately show ?thesis using t by (simp add: hits_ok_def slot_busy_nth)
qed

text \<open>A move of the processes under test: it hits or runs with a slot of \<open>S\<close>.\<close>

fun move_in :: "nat set \<Rightarrow> move \<Rightarrow> bool" where
  "move_in S (Hit i pid p) = (p \<in> S)"
| "move_in S (Access i) = True"
| "move_in S (Body p) = (p \<in> S)"

lemma hits_ok_alone:
  assumes "hits_ok dm S b c" and "i < length (cpus c)" "serves_slot p (cpus c ! i)" and "j < length (cpus c)" "j \<noteq> i"
  shows "\<not> serves_slot p (cpus c ! j)"
  using assms unfolding hits_ok_def one_cpu_per_slot_def by blast

lemma hits_ok_hit:
  assumes "hits_ok dm S b c" and "slots_apart dm S" and "p \<in> S" and "move_by dm K ua (Hit i pid p) c = Some c'"
  shows "hits_ok dm S b c'"
proof -
  have i: "i < length (cpus c)" "cpus c ! i = Free" and n: "\<not> slot_busy p c"
    and c': "c' = c\<lparr>cpus := (cpus c)[i := Busy pid p Put_ktid], started := (started c)(p := Suc (started c p))\<rparr>"
    using assms(4) by (auto split: if_splits)
  have k: "rd dm Kcount p (user_mem c) = count_val dm (started c p)" and t: "total_ok b (finished c) (num_probes (kmodule c))"
    using assms(1,3) n by (auto simp: hits_ok_def)
  have "hits_ok dm S b (c\<lparr>cpus := (cpus c)[i := Busy pid p Put_ktid], kmodule := kmodule c, user_mem := user_mem c,
      started := (started c)(p := Suc (started c p)), finished := finished c\<rparr>)"
    using n k t assms(3) i by (intro hits_ok_update [OF assms(1) i(1) assms(2,3)]) (auto simp: slot_busy_nth)
  then show ?thesis by (simp add: c')
qed

lemma hits_ok_body:
  assumes "hits_ok dm S b c" and "slots_apart dm S" and "p \<in> S" and "move_by dm K ua (Body p) c = Some c'"
  shows "hits_ok dm S b c'"
proof -
  let ?m = "snd (probe_fun dm p (user_mem c))"
  have n: "\<not> slot_busy p c" and c': "c' = c\<lparr>user_mem := ?m\<rparr>" using assms(4) by (auto split: if_splits)
  have out: "?m x = user_mem c x" if "x < p \<or> p + sizeof_uinfo dm \<le> x" for x
    using probe_fun_outside [of dm p "user_mem c" "fst (probe_fun dm p (user_mem c))" ?m x] that by simp
  have own: "rd dm Kcount p ?m = rd dm Kcount p (user_mem c)" by (simp add: probe_fun_def Let_def)
  have same: "rd dm Kcount q ?m = rd dm Kcount q (user_mem c)" if "q \<in> S" for q
  proof (cases "q = p")
    case False
    then have "p + sizeof_uinfo dm \<le> q \<or> q + sizeof_uinfo dm \<le> p"
      using assms(2,3) that by (simp add: slots_apart_def)
    then show ?thesis by (intro kcount_cong out) auto
  qed (simp add: own)
  have "cpu_ok dm S b (finished c) (started c) ?m x" if "cpu_ok dm S b (finished c) (started c) (user_mem c) x" for x
    using that same by (cases x) auto
  then show ?thesis
    using assms(1) same by (simp add: hits_ok_def c' slot_busy_def)
qed

lemma hits_ok_access:
  assumes ok: "hits_ok dm S b c" and "slots_apart dm S" and map: "\<forall>p \<in> S. mapped_slot dm ua p"
    and mv: "move_by dm K ua (Access i) c = Some c'" and fit: "b + finished c + 1 < 256 ^ ulong_size dm"
  shows "hits_ok dm S b c'"
proof -
  obtain pid p pc where i: "i < length (cpus c)" "cpus c ! i = Busy pid p pc"
    using mv by (auto split: if_splits cpu.splits)
  obtain pc' s m where h: "hit_access dm K ua pid p (pc, kmodule c, user_mem c) = (pc', s, m)"
    by (metis prod_cases3)
  have "cpu_ok dm S b (finished c) (started c) (user_mem c) (Busy pid p pc)"
    using ok i by (metis hits_ok_def nth_mem)
  then have p: "p \<in> S" "0 < started c p" "pc_ok dm b (finished c) (started c p) (rd dm Kcount p (user_mem c)) pc"
    by simp_all
  have t: "total_ok b (finished c) (num_probes (kmodule c))" using ok by (simp add: hits_ok_def)
  have mp: "mapped_slot dm ua p" using map p(1) by blast
  note mem = access_outside [OF mp h]
  have alone: "\<not> serves_slot p (cpus c ! j)" if "j < length (cpus c)" "j \<noteq> i" for j
    using hits_ok_alone [OF ok i(1) _ that] i(2) by simp
  from access_pc_ok [OF mp h p(3,2) t]
  show ?thesis
  proof (elim disjE conjE exE)
    fix u assume last: "pc' = Left" "pc = Store_total u" "b \<le> u" "u \<le> b + finished c"
      and k: "rd dm Kcount p m = count_val dm (started c p)"
    have "num_probes s = u + 1" using access_total [OF h] last fit by simp
    then have "total_ok b (Suc (finished c)) (num_probes s)" using last by (simp add: total_ok_def)
    then have "hits_ok dm S b (c\<lparr>cpus := (cpus c)[i := Free], kmodule := s, user_mem := m, started := started c,
        finished := Suc (finished c)\<rparr>)"
      using mem k alone i by (intro hits_ok_update [OF ok i(1) assms(2) p(1)]) auto
    then show ?thesis using mv i h last(1) by simp
  next
    assume go: "pc' \<noteq> Left" "\<nexists>t. pc = Store_total t"
      "pc_ok dm b (finished c) (started c p) (rd dm Kcount p m) pc'"
    have "num_probes s = num_probes (kmodule c)" using access_total [OF h] go(2) by (cases pc) auto
    then have "hits_ok dm S b (c\<lparr>cpus := (cpus c)[i := Busy pid p pc'], kmodule := s, user_mem := m,
        started := started c, finished := finished c\<rparr>)"
      using mem alone i p go(3) t by (intro hits_ok_update [OF ok i(1) assms(2) p(1)]) auto
    then show ?thesis using mv i h go(1) by simp
  qed
qed

lemma move_finished: "move_by dm K ua x c = Some c' \<Longrightarrow> finished c' \<le> Suc (finished c)"
  by (cases x) (auto split: if_splits cpu.splits prod.splits)

lemma hits_ok_moves:
  assumes "slots_apart dm S" and "\<forall>p \<in> S. mapped_slot dm ua p"
  shows "moves dm K ua xs c = Some c' \<Longrightarrow> \<forall>x \<in> set xs. move_in S x \<Longrightarrow> hits_ok dm S b c \<Longrightarrow>
    b + finished c + length xs < 256 ^ ulong_size dm \<Longrightarrow> hits_ok dm S b c'"
proof (induction xs arbitrary: c)
  case (Cons x xs)
  then obtain d where d: "move_by dm K ua x c = Some d" "moves dm K ua xs d = Some c'"
    by (auto split: option.splits)
  have "b + finished c + 1 \<le> b + finished c + length (x # xs)" by simp
  then have "b + finished c + 1 < 256 ^ ulong_size dm" using Cons.prems(4) by (rule le_less_trans)
  then have "hits_ok dm S b d"
    using Cons.prems(2) d(1) hits_ok_hit [OF Cons.prems(3) assms(1)] hits_ok_body [OF Cons.prems(3) assms(1)]
      hits_ok_access [OF Cons.prems(3) assms]
    by (cases x) (auto simp del: move_by.simps)
  moreover have "b + finished d + length xs < 256 ^ ulong_size dm"
    using move_finished [OF d(1)] Cons.prems(4) by simp
  ultimately show ?case using Cons.IH [OF d(2)] Cons.prems(2) by simp
qed simp

text \<open>A machine on which nothing was hit yet.\<close>

definition idle_machine :: "nat \<Rightarrow> 's \<Rightarrow> mem \<Rightarrow> 's machine" where
  "idle_machine n s m = \<lparr>cpus = replicate n Free, kmodule = s, user_mem = m, started = (\<lambda>_. 0), finished = 0\<rparr>"

lemma idle_machine_ok:
  "\<forall>p \<in> S. fresh_slot dm p m \<Longrightarrow> hits_ok dm S (num_probes s) (idle_machine n s m)"
  by (auto simp: hits_ok_def idle_machine_def one_cpu_per_slot_def slot_busy_def total_ok_def fresh_slot_def)

text \<open>(C5) Hits on any number of processors, interleaved in any way at the grain of single accesses, on the
  32-bit and the 64-bit build: every slot's \<open>kcount\<close> is exact whenever its thread is not in the handler, but
  \<open>num_probes\<close> is only an upper bound short of the truth: after \<open>f\<close> finished hits it has grown by at least
  one (when \<open>f\<close> is not 0) and by at most \<open>f\<close>.\<close>

theorem concurrent_hits_bounds:
  assumes "slots_apart dm S" and "\<forall>p \<in> S. mapped_slot dm ua p" and "\<forall>p \<in> S. fresh_slot dm p m"
    and "num_probes s + length xs < 256 ^ ulong_size dm"
    and "\<forall>x \<in> set xs. move_in S x" and "moves dm K ua xs (idle_machine n s m) = Some c"
  shows "(\<forall>p \<in> S. \<not> slot_busy p c \<longrightarrow> rd dm Kcount p (user_mem c) = count_val dm (started c p))
    \<and> num_probes s \<le> num_probes (kmodule c) \<and> num_probes (kmodule c) \<le> num_probes s + finished c
    \<and> (0 < finished c \<longrightarrow> num_probes s < num_probes (kmodule c))"
proof -
  have "hits_ok dm S (num_probes s) c"
    using assms(4) by (intro hits_ok_moves [OF assms(1,2,6,5) idle_machine_ok [OF assms(3)]])
      (simp add: idle_machine_def)
  then show ?thesis by (simp add: hits_ok_def total_ok_def)
qed

text \<open>One hit of a fresh slot takes seven accesses.\<close>

lemma one_hit:
  assumes "mapped_slot dm ua p" and "fresh_slot dm p m"
  shows "\<exists>c. moves dm K ua (Hit 0 pid p # replicate 7 (Access 0)) (idle_machine 1 s m) = Some c
    \<and> finished c = 1 \<and> started c p = 1 \<and> all_free c"
proof -
  let ?m = "store (ulong_size dm) (p + 4) (wrap_u (ulong_size dm) pid) m"
  obtain s1 where u: "check_utid dm K ua pid p (s, ?m) = (s1, ?m)"
    using check_utid_split by metis
  have "rd dm Kcount p ?m = ulong_max dm"
    using assms(2) by (simp add: fresh_slot_def) (simp add: rd_def load_store_disjoint)
  moreover have "replicate 7 (Access 0) =
      [Access 0, Access 0, Access 0, Access 0, Access 0, Access 0, Access 0]" by (simp add: numeral_eq_Suc)
  ultimately show ?thesis
    by (simp add: idle_machine_def slot_busy_def all_free_def u
        put_slot_mapped [OF assms(1)] get_kcount_mapped [OF assms(1)])
qed

theorem concurrent_hits_bounds_witness:
  "\<exists>c. moves ILP32 granting_kernel flat_uaccess (Hit 0 501 1000 # replicate 7 (Access 0))
      (idle_machine 1 pmod_zero (build_probe_table ILP32 1000 1 (\<lambda>_. 7))) = Some c
    \<and> num_probes (kmodule c) = 1 \<and> rd ILP32 Kcount 1000 (user_mem c) = 0"
proof -
  let ?xs = "Hit 0 501 1000 # replicate 7 (Access 0)"
  let ?m = "build_probe_table ILP32 1000 1 (\<lambda>_. 7)"
  have map: "mapped_slot ILP32 flat_uaccess 1000" by (simp add: mapped_slot_def flat_uaccess_range)
  have fresh: "fresh_slot ILP32 1000 ?m"
    using build_probe_table_fresh [of 0 1 ILP32 1000] by (simp add: slot_addr_def)
  obtain c where c: "moves ILP32 granting_kernel flat_uaccess ?xs (idle_machine 1 pmod_zero ?m) = Some c"
    "finished c = 1" "started c 1000 = 1" "all_free c"
    using one_hit [OF map fresh, of granting_kernel 501 pmod_zero] by blast
  have "\<not> slot_busy 1000 c" using c(4) by (auto simp: all_free_def slot_busy_def list_all_iff list_ex_iff)
  then have "rd ILP32 Kcount 1000 (user_mem c) = 0 \<and> num_probes (kmodule c) = 1"
    using concurrent_hits_bounds [OF _ _ _ _ _ c(1), of "{1000}"] map fresh c(2,3)
    by (auto simp: slots_apart_def pmod_zero_def count_val_Suc)
  then show ?thesis using c(1) by blast
qed

section \<open>Hits that are lost\<close>

definition reaches ::
  "data_model \<Rightarrow> kernel \<Rightarrow> uaccess \<Rightarrow> nat set \<Rightarrow> 'a pmod_scheme machine \<Rightarrow> 'a pmod_scheme machine \<Rightarrow> bool" where
  "reaches dm K ua S c d \<longleftrightarrow> (\<exists>xs. (\<forall>x \<in> set xs. move_in S x) \<and> moves dm K ua xs c = Some d)"

lemma moves_append:
  "moves dm K ua (xs @ ys) c = (case moves dm K ua xs c of None \<Rightarrow> None | Some d \<Rightarrow> moves dm K ua ys d)"
  by (induction xs arbitrary: c) (simp_all split: option.splits)

lemma reaches_refl: "reaches dm K ua S c c"
  unfolding reaches_def by (rule exI [of _ "[]"]) simp

lemma reaches_trans:
  assumes "reaches dm K ua S c d" and "reaches dm K ua S d e"
  shows "reaches dm K ua S c e"
proof -
  obtain xs ys where "\<forall>x \<in> set xs. move_in S x" "moves dm K ua xs c = Some d"
    "\<forall>x \<in> set ys. move_in S x" "moves dm K ua ys d = Some e" using assms unfolding reaches_def by blast
  then show ?thesis unfolding reaches_def by (intro exI [of _ "xs @ ys"]) (auto simp: moves_append)
qed

lemma reaches_step: "move_in S x \<Longrightarrow> move_by dm K ua x c = Some d \<Longrightarrow> reaches dm K ua S c d"
  unfolding reaches_def by (rule exI [of _ "[x]"]) simp

fun accesses_to_go :: "hit_pc \<Rightarrow> nat" where
  "accesses_to_go Put_ktid = 6"
| "accesses_to_go Get_utid = 5"
| "accesses_to_go Get_kcount = 4"
| "accesses_to_go (Put_ucount k) = 3"
| "accesses_to_go (Put_kcount k) = 2"
| "accesses_to_go Load_total = 1"
| "accesses_to_go pc = 0"

lemma access_next:
  assumes "hit_access dm K ua pid p (pc, s, m) = (pc', s', m')"
  shows "case pc of
      Put_ktid \<Rightarrow> pc' = Get_utid
    | Get_utid \<Rightarrow> pc' = Get_kcount
    | Get_kcount \<Rightarrow> \<exists>k. pc' = Put_ucount k \<or> pc' = Put_kcount k
    | Put_ucount k \<Rightarrow> pc' = Put_kcount k
    | Put_kcount k \<Rightarrow> pc' = Load_total
    | Load_total \<Rightarrow> pc' = Store_total (num_probes s)
    | _ \<Rightarrow> pc' = Left"
  using assms by (cases pc) (auto split: prod.splits)

lemma access_advances:
  assumes "hit_access dm K ua pid p (pc, s, m) = (pc', s', m')" and "0 < accesses_to_go pc"
  shows "accesses_to_go pc' < accesses_to_go pc" "pc' \<noteq> Left"
    "accesses_to_go pc' = 0 \<Longrightarrow> pc' = Store_total (num_probes s')" "num_probes s' = num_probes s"
  using assms(2) access_total [OF assms(1)] access_next [OF assms(1)] by (cases pc; auto)+

text \<open>A processor in the handler gets to the point between the load and the store of \<open>num_probes\<close>.\<close>

lemma reaches_store:
  assumes "i < length (cpus c)" and "cpus c ! i = Busy pid p pc" and "0 < accesses_to_go pc"
  shows "\<exists>d. reaches dm K ua S c d \<and> cpus d = (cpus c)[i := Busy pid p (Store_total (num_probes (kmodule c)))]
    \<and> num_probes (kmodule d) = num_probes (kmodule c) \<and> finished d = finished c \<and> started d = started c"
  using assms
proof (induction "accesses_to_go pc" arbitrary: c pc rule: less_induct)
  case less
  obtain pc' s m where h: "hit_access dm K ua pid p (pc, kmodule c, user_mem c) = (pc', s, m)"
    by (metis prod_cases3)
  note adv = access_advances [OF h less.prems(3)]
  define d where "d = c\<lparr>cpus := (cpus c)[i := Busy pid p pc'], kmodule := s, user_mem := m\<rparr>"
  have "move_by dm K ua (Access i) c = Some d" using less.prems h adv(2) by (simp add: d_def)
  then have cd: "reaches dm K ua S c d" by (rule reaches_step [rotated]) simp
  show ?case
  proof (cases "accesses_to_go pc' = 0")
    case True
    then show ?thesis using cd adv by (intro exI [of _ d]) (simp add: d_def)
  next
    case False
    then obtain e where "reaches dm K ua S d e"
      "cpus e = (cpus d)[i := Busy pid p (Store_total (num_probes (kmodule d)))]"
      "num_probes (kmodule e) = num_probes (kmodule d)" "finished e = finished d" "started e = started d"
      using less.hyps [OF adv(1), of d] less.prems(1) by (auto simp: d_def)
    then show ?thesis using reaches_trans [OF cd] adv(4) by (auto simp: d_def)
  qed
qed

lemma reaches_hit:
  assumes "i < length (cpus c)" and "cpus c ! i = Free" and "\<not> slot_busy p c" and "p \<in> S"
  shows "\<exists>d. reaches dm K ua S c d \<and> cpus d = (cpus c)[i := Busy pid p (Store_total (num_probes (kmodule c)))]
    \<and> num_probes (kmodule d) = num_probes (kmodule c) \<and> finished d = finished c
    \<and> started d = (started c)(p := Suc (started c p))"
proof -
  define e where
    "e = c\<lparr>cpus := (cpus c)[i := Busy pid p Put_ktid], started := (started c)(p := Suc (started c p))\<rparr>"
  have "move_by dm K ua (Hit i pid p) c = Some e" using assms by (simp add: e_def)
  then have "reaches dm K ua S c e" using assms(4) by (intro reaches_step [of S "Hit i pid p"]) simp_all
  moreover obtain d where "reaches dm K ua S e d"
    "cpus d = (cpus e)[i := Busy pid p (Store_total (num_probes (kmodule e)))]"
    "num_probes (kmodule d) = num_probes (kmodule e)" "finished d = finished e" "started d = started e"
    using reaches_store [of i e pid p Put_ktid dm K ua S] assms(1) by (auto simp: e_def)
  ultimately show ?thesis using reaches_trans [of dm K ua S c e d] by (auto simp: e_def)
qed

definition loaded_cpus :: "int list \<Rightarrow> nat list \<Rightarrow> nat \<Rightarrow> nat \<Rightarrow> nat \<Rightarrow> cpu list" where
  "loaded_cpus pids ps t i j = map (\<lambda>k. Busy (pids ! k) (ps ! k) (Store_total t)) [i..<j]"

text \<open>All load the same total, one after the other.\<close>

lemma reaches_all_loaded:
  assumes "distinct ps" and "k \<le> length ps"
  shows "\<exists>d. reaches dm K ua (set ps) (idle_machine (length ps) s m) d
    \<and> cpus d = loaded_cpus pids ps (num_probes s) 0 k @ replicate (length ps - k) Free
    \<and> num_probes (kmodule d) = num_probes s \<and> finished d = 0
    \<and> (\<forall>p. started d p = (if p \<in> set (take k ps) then 1 else 0))"
  using assms(2)
proof (induction k)
  case 0
  show ?case
    by (rule exI [of _ "idle_machine (length ps) s m"])
      (simp add: idle_machine_def loaded_cpus_def reaches_refl)
next
  case (Suc k)
  then obtain d where d: "reaches dm K ua (set ps) (idle_machine (length ps) s m) d"
    "cpus d = loaded_cpus pids ps (num_probes s) 0 k @ replicate (length ps - k) Free"
    "num_probes (kmodule d) = num_probes s" "finished d = 0"
    "\<And>p. started d p = (if p \<in> set (take k ps) then 1 else 0)" by auto
  have len: "length (loaded_cpus pids ps (num_probes s) 0 k) = k" by (simp add: loaded_cpus_def)
  have new: "ps ! k \<notin> set (take k ps)"
    using assms(1) Suc.prems by (simp add: in_set_conv_nth nth_eq_iff_index_eq)
  then have "\<not> slot_busy (ps ! k) d"
    using Suc.prems by (auto simp: slot_busy_def d(2) list_ex_iff loaded_cpus_def in_set_conv_nth)
  then obtain e where e: "reaches dm K ua (set ps) d e"
    "cpus e = (cpus d)[k := Busy (pids ! k) (ps ! k) (Store_total (num_probes s))]"
    "num_probes (kmodule e) = num_probes s" "finished e = 0"
    "started e = (started d)(ps ! k := Suc (started d (ps ! k)))"
    using reaches_hit [of k d "ps ! k" "set ps" dm K ua "pids ! k"] Suc.prems d len by (auto simp: nth_append)
  have "length ps - k = Suc (length ps - Suc k)" using Suc.prems by simp
  then have "cpus e = loaded_cpus pids ps (num_probes s) 0 (Suc k) @ replicate (length ps - Suc k) Free"
    by (simp add: e(2) d(2) list_update_append len) (simp add: loaded_cpus_def)
  moreover have "started e p = (if p \<in> set (take (Suc k) ps) then 1 else 0)" for p
    using Suc.prems new by (simp add: e(5) d(5) take_Suc_conv_app_nth)
  ultimately show ?case using reaches_trans [OF d(1) e(1)] e(3,4) by blast
qed

text \<open>Then all store, one after the other.\<close>

lemma reaches_all_stored:
  assumes "cpus c = loaded_cpus pids ps t 0 n" and "k \<le> n"
  shows "\<exists>d. reaches dm K ua S c d \<and> cpus d = replicate k Free @ loaded_cpus pids ps t k n
    \<and> finished d = finished c + k \<and> started d = started c
    \<and> (0 < k \<longrightarrow> num_probes (kmodule d) = (t + 1) mod 256 ^ ulong_size dm)"
  using assms(2)
proof (induction k)
  case 0
  show ?case using assms(1) by (intro exI [of _ c]) (simp add: reaches_refl)
next
  case (Suc k)
  then obtain d where d: "reaches dm K ua S c d" "cpus d = replicate k Free @ loaded_cpus pids ps t k n"
    "finished d = finished c + k" "started d = started c" by auto
  have l: "loaded_cpus pids ps t k n = Busy (pids ! k) (ps ! k) (Store_total t) # loaded_cpus pids ps t (Suc k) n"
    using Suc.prems by (simp add: loaded_cpus_def upt_conv_Cons)
  then have k: "k < length (cpus d)" "cpus d ! k = Busy (pids ! k) (ps ! k) (Store_total t)"
    by (simp_all add: d(2) nth_append)
  define e where "e = d\<lparr>cpus := (cpus d)[k := Free], kmodule := (kmodule d)\<lparr>num_probes := (t + 1) mod 256 ^ ulong_size dm\<rparr>,
    finished := Suc (finished d)\<rparr>"
  have "move_by dm K ua (Access k) d = Some e" using k by (simp add: e_def)
  then have "reaches dm K ua S d e" by (rule reaches_step [rotated]) simp
  moreover have "cpus e = replicate (Suc k) Free @ loaded_cpus pids ps t (Suc k) n"
    by (simp add: e_def d(2) l list_update_append replicate_app_Cons_same)
  ultimately show ?case
    using reaches_trans [OF d(1)] d(3,4) by (intro exI [of _ e]) (simp add: e_def)
qed

text \<open>(C6) Any number of hits at the same time can be counted as one: with a processor for each thread there is
  an interleaving after which every thread has left the handler, each slot was hit once, and \<open>num_probes\<close> has
  grown by one. Nothing is assumed of the accesses to the slots.\<close>

theorem concurrent_hits_lost:
  assumes "distinct ps" and "ps \<noteq> []"
  shows "\<exists>xs c. (\<forall>x \<in> set xs. move_in (set ps) x)
    \<and> moves dm K ua xs (idle_machine (length ps) s m) = Some c
    \<and> all_free c \<and> finished c = length ps \<and> (\<forall>p \<in> set ps. started c p = 1)
    \<and> num_probes (kmodule c) = (num_probes s + 1) mod 256 ^ ulong_size dm"
proof -
  obtain d where d: "reaches dm K ua (set ps) (idle_machine (length ps) s m) d"
    "cpus d = loaded_cpus [] ps (num_probes s) 0 (length ps)" "finished d = 0"
    "\<forall>p. started d p = (if p \<in> set ps then 1 else 0)"
    using reaches_all_loaded [OF assms(1) order_refl, of dm K ua s m "[]"] by auto
  obtain c where c: "reaches dm K ua (set ps) d c" "cpus c = replicate (length ps) Free"
    "finished c = length ps" "started c = started d"
    "num_probes (kmodule c) = (num_probes s + 1) mod 256 ^ ulong_size dm"
    using reaches_all_stored [OF d(2) order_refl, of dm K ua "set ps"] d(3) assms(2)
    by (auto simp: loaded_cpus_def)
  have "reaches dm K ua (set ps) (idle_machine (length ps) s m) c" by (rule reaches_trans [OF d(1) c(1)])
  moreover have "all_free c" by (simp add: all_free_def c(2) list_all_iff)
  ultimately show ?thesis using c d(4) unfolding reaches_def by auto
qed

theorem concurrent_hits_lost_witness:
  "\<exists>xs c. moves LP64 granting_kernel flat_uaccess xs (idle_machine 3 pmod_zero (\<lambda>_. 7)) = Some c
    \<and> finished c = 3 \<and> num_probes (kmodule c) = 1"
proof -
  have z: "num_probes pmod_zero = 0" by (simp add: pmod_zero_def)
  have l: "length [1000, 1032, 1064 :: nat] = 3" by simp
  show ?thesis
    using concurrent_hits_lost [of "[1000, 1032, 1064]" LP64 granting_kernel flat_uaccess pmod_zero "\<lambda>_. 7"]
    unfolding l z by auto
qed

end
