(* ===== verification/Thread_Session.thy ===== *)
theory Thread_Session
  imports Uprobes_W
begin

text \<open>
  A whole test on the 32-bit build: a module of \<open>uprobes.w\<close> is loaded, the threads of the program make their
  calls of \<open>probe_N\<close> in any order, the test writes to \<open>cleanup\<close> and reads \<open>data\<close>. The handler prints nothing
  while it counts, so what the file shows at the end is what loading printed and the count.
\<close>

section \<open>Counting in silence\<close>

definition only_counts :: "'a pmod_scheme \<Rightarrow> 'a pmod_scheme \<Rightarrow> bool" where
  "only_counts s t \<longleftrightarrow> t = s\<lparr>num_probes := num_probes t\<rparr>"

lemma only_counts_refl [simp]: "only_counts s s"
  by (simp add: only_counts_def)

lemma only_counts_trans: "only_counts s t \<Longrightarrow> only_counts t u \<Longrightarrow> only_counts s u"
  unfolding only_counts_def by (metis pmod.unfold_congs(1) pmod.surjective pmod.update_convs(1))

lemma handler_only_counts:
  assumes "user_range ua p 20" and "p + 20 \<le> 256 ^ 4" and "get_first_arg I386 regs m = p"
    and "rd_pid ILP32 Utid p m = pid" and "probe_handler I386 K ua pid regs (s, m) = (r, s', m')"
  shows "only_counts s s'"
proof -
  let ?m = "store 4 (p + 4) (wrap_u 4 pid) m"
  have r: "user_range ua p (sizeof_uinfo ILP32)" "p + sizeof_uinfo ILP32 \<le> 256 ^ ulong_size ILP32"
    using assms(1,2) by simp_all
  have "load 4 p ?m = load 4 p m" by (simp add: load_store_disjoint)
  then have "c_int (int (load 4 p ?m)) = pid" using assms(4) by (simp add: rd_pid_def rd_def)
  moreover have "ua_get ua 4 (ea ILP32 Utid p) ?m = (0, load 4 p ?m)"
    using user_range_get [OF r(1), of p 4 ?m] by (simp add: ea_mapped [OF r(2)])
  ultimately have "check_utid ILP32 K ua pid p (s, ?m) = (s, ?m)" by (simp add: check_utid_def)
  then show ?thesis
    using assms(3,5) by (auto simp: probe_handler_def Let_def save_ktid_mapped [OF r] bump_kcount_mapped [OF r]
        only_counts_def)
qed

lemma hook_only_counts:
  assumes "good_env I386 e p" and "rd_pid ILP32 Utid p m = env_pid e"
    and "probe_hook I386 Counts e p (s, m) = (d, s', m')"
  shows "only_counts s s'"
proof -
  obtain regs m0 where c: "enter_call I386 e p m = (regs, m0)" by fastforce
  have "rd ILP32 Utid p m0 = rd ILP32 Utid p m"
    using enter_call_frame [OF _ c] good_env_frame [OF assms(1)] by (intro rd_cong) force
  then have u: "rd_pid ILP32 Utid p m0 = env_pid e" using assms(2) by (simp add: rd_pid_def)
  obtain r s1 m1 where h: "probe_handler I386 (env_kernel e) (env_ua e) (env_pid e) regs (s, m0) = (r, s1, m1)"
    by (metis prod_cases3)
  have "only_counts s s1"
    using assms(1) by (intro handler_only_counts [OF _ _ enter_call_arg [OF _ assms(1) c] u h])
      (simp_all add: good_env_def)
  then show ?thesis using assms(3) c h by (simp add: probe_hook_def run_consumer_def)
qed

lemma probe_only_counts:
  assumes "good_env I386 e p" and "env_pid e = tid" and "0 < tid" "tid < 2147483648"
    and "probe ILP32 (probe_hook I386 Counts e) tid p (s, m) = (out, s', m')"
  shows "only_counts s s'"
proof -
  have hit: "only_counts s s'"
    if u: "rd_pid ILP32 Utid p n = tid" and h: "hit_probe_fun ILP32 (probe_hook I386 Counts e) p (s, n) = (out, s', m')" for n
  proof -
    obtain d s1 m1 where k: "probe_hook I386 Counts e p (s, n) = (d, s1, m1)" by (metis prod_cases3)
    have "only_counts s s1" using u assms(2) by (intro hook_only_counts [OF assms(1) _ k]) simp
    then show ?thesis using h k by (auto simp: hit_probe_fun_def split: option.splits prod.splits)
  qed
  have "rd_pid ILP32 Utid p (wr ILP32 Utid (wrap_u 4 tid) p m) = tid"
    using pid_roundtrip [OF assms(3,4)] by (simp add: rd_pid_def)
  then show ?thesis using assms(5) hit by (auto simp: probe_def split: if_splits)
qed

lemma calls_only_count:
  "\<forall>(e, tid, p) \<in> set calls. good_env I386 e p \<and> env_pid e = tid \<and> 0 < tid \<and> tid < 2147483648 \<Longrightarrow>
   run_calls ILP32 (probe_hook I386 Counts) calls (s, m) = (rs, s', m') \<Longrightarrow> only_counts s s'"
proof (induction calls arbitrary: s m rs)
  case (Cons x calls)
  obtain e tid p where x: "x = (e, tid, p)" by (cases x)
  obtain out s1 m1 where 1: "probe ILP32 (probe_hook I386 Counts e) tid p (s, m) = (out, s1, m1)"
    by (metis prod_cases3)
  obtain rs1 where 2: "run_calls ILP32 (probe_hook I386 Counts) calls (s1, m1) = (rs1, s', m')"
    using Cons.prems(2) x 1 by (auto split: prod.splits)
  have "only_counts s s1" using Cons.prems(1) x by (intro probe_only_counts [OF _ _ _ _ 1]) auto
  moreover have "only_counts s1 s'" using Cons.IH [OF _ 2] Cons.prems(1) by simp
  ultimately show ?case by (rule only_counts_trans)
qed simp

section \<open>The session\<close>

definition counting_modules :: "pmod module_ops set" where
  "counting_modules = {kthread_ops, kfork_thread_ops, kdie_ops, kexec_ops}"

lemma counting_uprobes_w: "M \<in> counting_modules \<Longrightarrow> M \<in> set uprobes_w_modules"
  by (auto simp: counting_modules_def uprobes_w_modules_def)



end
