(* ===== verification/Report_Channel.thy ===== *)
theory Report_Channel
  imports Debugfs
begin

text \<open>
  What \<open>include/udbgfs.c\<close> promises to a test, as an abstract report: a string that messages extend, that any
  part of can be read, and that the first write to \<open>cleanup\<close> completes. The directory with its print buffer,
  its pointers and its 64-bit counters refines it as long as the messages fit.
\<close>

section \<open>Operations on the directory\<close>

text \<open>A message of the module, \<open>read\<close> of \<open>data\<close> with a size and an offset, and \<open>write\<close> to \<open>cleanup\<close>.\<close>

datatype report_op = Say string "farg list" | Read int int | Clean int

text \<open>\<open>child_exit\<close> of a module prints messages that depend on the module's own variables.\<close>

definition closing :: "kernel \<Rightarrow> ('a \<Rightarrow> (string \<times> farg list) list) \<Rightarrow> 'a udbg_scheme \<Rightarrow> 'a udbg_scheme" where
  "closing K bye s = print_all K (bye (udbg.more s)) s"

text \<open>The result of an operation: its return value and the bytes the reader gets.\<close>

fun run_op ::
  "kernel \<Rightarrow> ('a \<Rightarrow> (string \<times> farg list) list) \<Rightarrow> report_op \<Rightarrow> 'a udbg_scheme \<Rightarrow> (int \<times> string) \<times> 'a udbg_scheme" where
  "run_op K bye (Say fmt args) s = (case test_printk K fmt args s of (n, t) \<Rightarrow> ((n, []), t))"
| "run_op K bye (Read count pos) s =
     (case read_data K count pos s of
        (n, t) \<Rightarrow> ((n, map (\<lambda>i. heap s (data (buf s) + pos + int i)) [0..<nat n]), t))"
| "run_op K bye (Clean count) s = (case write_cleanup K (closing K bye) count s of (n, t) \<Rightarrow> ((n, []), t))"

fun run_ops ::
  "kernel \<Rightarrow> ('a \<Rightarrow> (string \<times> farg list) list) \<Rightarrow> report_op list \<Rightarrow> 'a udbg_scheme \<Rightarrow>
   (int \<times> string) list \<times> 'a udbg_scheme" where
  "run_ops K bye [] s = ([], s)"
| "run_ops K bye (x # xs) s =
     (case run_op K bye x s of (r, s) \<Rightarrow> (case run_ops K bye xs s of (rs, s) \<Rightarrow> (r # rs, s)))"

section \<open>The abstract report\<close>

record report =
  shown :: string
  closed :: bool

text \<open>\<open>text\<close> expands messages, and \<open>final\<close> is what \<open>child_exit\<close> adds.\<close>

fun report_step ::
  "(string \<Rightarrow> farg list \<Rightarrow> string) \<Rightarrow> string \<Rightarrow> report_op \<Rightarrow> report \<Rightarrow> (int \<times> string) \<times> report" where
  "report_step text final (Say fmt args) r =
     ((int (length (text fmt args)), []), r\<lparr>shown := shown r @ text fmt args\<rparr>)"
| "report_step text final (Read count pos) r =
     (if pos < 0 \<and> shown r \<noteq> [] then (- EINVAL, [])
      else let part = (if pos < 0 then [] else take (nat count) (drop (nat pos) (shown r)))
        in (int (length part), part), r)"
| "report_step text final (Clean count) r =
     ((count, []), if closed r then r else r\<lparr>shown := shown r @ final, closed := True\<rparr>)"

fun report_steps ::
  "(string \<Rightarrow> farg list \<Rightarrow> string) \<Rightarrow> string \<Rightarrow> report_op list \<Rightarrow> report \<Rightarrow> (int \<times> string) list \<times> report" where
  "report_steps text final [] r = ([], r)"
| "report_steps text final (x # xs) r =
     (case report_step text final x r of (y, r) \<Rightarrow> (case report_steps text final xs r of (ys, r) \<Rightarrow> (y # ys, r)))"

fun said :: "(string \<Rightarrow> farg list \<Rightarrow> string) \<Rightarrow> report_op list \<Rightarrow> string" where
  "said text [] = []"
| "said text (Say fmt args # xs) = text fmt args @ said text xs"
| "said text (_ # xs) = said text xs"

section \<open>The refinement\<close>

definition report_abs :: "'a udbg_scheme \<Rightarrow> report" where
  "report_abs s = \<lparr>shown = printed s, closed = (entry s \<noteq> 0)\<rparr>"

text \<open>\<open>simple_read_from_buffer\<close> and \<open>copy_from_user\<close> on memory of the reader that is mapped.\<close>

definition reads_law :: "kernel \<Rightarrow> bool" where
  "reads_law K \<longleftrightarrow> (\<forall>l count pos a n. k_api K l (Simple_read_from_buffer count pos a n) =
     (if pos < 0 then - EINVAL else if n \<le> pos \<or> count \<le> 0 then 0 else min count (n - pos)))"

definition copies_law :: "kernel \<Rightarrow> bool" where
  "copies_law K \<longleftrightarrow> (\<forall>l n. k_api K l (Copy_from_user n) = 0)"

definition closing_text ::
  "(string \<Rightarrow> farg list \<Rightarrow> string) \<Rightarrow> ('a \<Rightarrow> (string \<times> farg list) list) \<Rightarrow> 'a udbg_scheme \<Rightarrow> string" where
  "closing_text text bye s = concat (map (\<lambda>(fmt, args). text fmt args) (bye (udbg.more s)))"

text \<open>A state whose buffer has room for \<open>n\<close> characters and, before the first write to \<open>cleanup\<close>, for the
  closing messages.\<close>

definition fits :: "nat \<Rightarrow> string \<Rightarrow> 'a udbg_scheme \<Rightarrow> bool" where
  "fits n final s \<longleftrightarrow> buf_ok s \<and> n + (if entry s \<noteq> 0 then 0 else length final) < room s"

lemma abs_cong:
  "heap t = heap s \<Longrightarrow> buf t = buf s \<Longrightarrow> print_buf t = print_buf s \<Longrightarrow>
   printed t = printed s \<and> buf_ok t = buf_ok s \<and> room t = room s"
  by (simp only: printed_def buf_ok_def room_def simp_thms)

lemma printed_nil: "printed s = [] \<longleftrightarrow> bytes_in_buf (buf s) = 0"
  by (simp add: printed_def unat_eq_zero)

lemma printed_length: "uint (bytes_in_buf (buf s)) = int (length (printed s))"
  by (simp add: printed_def)

lemma read_data_eq:
  "print_buf s \<noteq> 0 \<Longrightarrow> read_data K count pos s =
     (if printed s = [] then (0, s)
      else kapi K (Simple_read_from_buffer count pos (data (buf s)) (int (length (printed s)))) s)"
  by (simp only: read_data_def printed_length printed_nil simp_thms if_False)

lemma printed_part:
  assumes "0 \<le> pos" and "0 \<le> n" and "n + pos \<le> int (length (printed s))"
  shows "map (\<lambda>i. heap s (data (buf s) + pos + int i)) [0..<nat n] = take (nat n) (drop (nat pos) (printed s))"
proof (rule nth_equalityI)
  show "length (map (\<lambda>i. heap s (data (buf s) + pos + int i)) [0..<nat n]) =
      length (take (nat n) (drop (nat pos) (printed s)))"
    using assms by simp
  fix i assume "i < length (map (\<lambda>i. heap s (data (buf s) + pos + int i)) [0..<nat n])"
  then have "i < nat n" "nat pos + i < length (printed s)" using assms by simp_all
  then show "map (\<lambda>i. heap s (data (buf s) + pos + int i)) [0..<nat n] ! i =
      take (nat n) (drop (nat pos) (printed s)) ! i"
    using assms(1) by (simp add: printed_def add.assoc)
qed

lemma say_refines:
  assumes "vsnprintf_law K text" and "fits (length (text fmt args) + n) final s"
    and "run_op K bye (Say fmt args) s = (r, t)"
  shows "report_step text final (Say fmt args) (report_abs s) = (r, report_abs t) \<and> fits n final t
    \<and> udbg.more t = udbg.more s"
proof -
  have ok: "buf_ok s" and len: "length (text fmt args) < room s" using assms(2) by (simp_all add: fits_def)
  have "room s \<le> DATA_BUF_SIZE" using ok by (simp add: buf_ok_def room_def)
  then have "fst (test_printk K fmt args s) = int (length (text fmt args))"
    using test_printk_stores [OF assms(1) ok] len by simp
  moreover have t: "t = pr K fmt args s" "r = (fst (test_printk K fmt args s), [])"
    using assms(3) by (auto split: prod.splits)
  moreover note test_printk_fits(1-3) [OF assms(1) ok len]
  moreover have "entry (pr K fmt args s) = entry s" "udbg.more (pr K fmt args s) = udbg.more s"
    by (simp_all add: frame_simps)
  ultimately show ?thesis using assms(2) by (auto simp: report_abs_def fits_def)
qed

lemma read_refines:
  assumes "reads_law K" and "fits n final s" and "run_op K bye (Read count pos) s = (r, t)"
  shows "report_step text final (Read count pos) (report_abs s) = (r, report_abs t) \<and> fits n final t
    \<and> udbg.more t = udbg.more s"
proof -
  let ?part = "\<lambda>n. map (\<lambda>i. heap s (data (buf s) + pos + int i)) [0..<nat n]"
  let ?len = "int (length (printed s))"
  let ?q = "Simple_read_from_buffer count pos (data (buf s)) ?len"
  have "print_buf s \<noteq> 0" using assms(2) by (simp add: fits_def buf_ok_def)
  note read = read_data_eq [OF this, of K count pos]
  have t: "t = (if printed s = [] then s else kdo K ?q s)"
    and r: "r = (if printed s = [] then (0, []) else (k_api K (klog s) ?q, ?part (k_api K (klog s) ?q)))"
    using assms(3) read by (simp_all add: kapi_def split: if_splits)
  have same: "heap t = heap s" "buf t = buf s" "print_buf t = print_buf s" "entry t = entry s" "udbg.more t = udbg.more s"
    using t by (simp_all add: frame_simps)
  have step: "report_step text final (Read count pos) (report_abs s) = (r, report_abs s)"
  proof (cases "printed s = []")
    case True
    then show ?thesis using r by (simp add: report_abs_def)
  next
    case False
    let ?n = "k_api K (klog s) ?q"
    have n: "?n = (if pos < 0 then - EINVAL else if ?len \<le> pos \<or> count \<le> 0 then 0 else min count (?len - pos))"
      using assms(1) unfolding reads_law_def by blast
    consider "pos < 0" | "0 \<le> pos" "?len \<le> pos \<or> count \<le> 0" | "0 \<le> pos" "pos < ?len" "0 < count" by linarith
    then show ?thesis
    proof cases
      case 1
      then show ?thesis using r n False by (simp add: report_abs_def)
    next
      case 2
      then show ?thesis using r n False by (auto simp: report_abs_def Let_def)
    next
      case 3
      have e: "take (nat ?n) (drop (nat pos) (printed s)) = take (nat count) (drop (nat pos) (printed s))"
        using n 3 by (cases "count \<le> ?len - pos") (simp_all add: min_def nat_diff_distrib)
      have "?part ?n = take (nat ?n) (drop (nat pos) (printed s))"
        using n 3 by (intro printed_part) auto
      moreover have "int (length (take (nat count) (drop (nat pos) (printed s)))) = ?n"
        using n 3 by (auto simp: min_def)
      ultimately show ?thesis using r False 3 e by (simp add: report_abs_def Let_def)
    qed
  qed
  have "report_abs t = report_abs s" "fits n final t"
    using abs_cong [OF same(1-3)] same(4) assms(2) by (simp_all add: report_abs_def fits_def)
  then show ?thesis using step same(5) by simp
qed

lemma clean_refines:
  assumes "vsnprintf_law K text" and "copies_law K" and "fits n final s" and "final = closing_text text bye s"
    and "run_op K bye (Clean count) s = (r, t)"
  shows "report_step text final (Clean count) (report_abs s) = (r, report_abs t) \<and> fits n final t
    \<and> udbg.more t = udbg.more s"
proof (cases "entry s = 0")
  case False
  then show ?thesis
    using assms(3,5) by (auto simp: write_cleanup_def report_abs_def)
next
  case True
  define v where "v = kdo K (Copy_from_user (min count 31)) (s\<lparr>entry := 1\<rparr>)"
  let ?msgs = "bye (udbg.more s)"
  have v: "entry v = 1" "udbg.more v = udbg.more s" "heap v = heap s" "buf v = buf s" "print_buf v = print_buf s"
    by (simp_all add: v_def frame_simps)
  then have vs: "printed v = printed s" "buf_ok v = buf_ok s" "room v = room s" using abs_cong [of v s] by simp_all
  have t: "t = print_all K ?msgs v" "r = (count, [])"
    using True assms(2,5) v(2) by (auto simp: write_cleanup_def copies_law_def kapi_def v_def closing_def)
  have final: "final = concat (map (\<lambda>(fmt, args). text fmt args) ?msgs)" using assms(4) by (simp add: closing_text_def)
  have fit: "buf_ok v" "length final < room v" "n + length final < room v" using assms(3) True vs by (simp_all add: fits_def)
  note p = print_all_fits(1,2) [OF assms(1) fit(1) fit(2) [unfolded final]]
  have room: "room (print_all K ?msgs v) = room v - length final"
    using dbg.puts_fit [of "(K, text)" v ?msgs] assms(1) fit(1,2) by (simp add: print_all_def final)
  have "entry (print_all K msgs w) = entry w \<and> udbg.more (print_all K msgs w) = udbg.more w" for msgs and w :: "'a udbg_scheme"
    by (induction msgs arbitrary: w) (auto simp: print_all_def frame_simps)
  then have "entry t = 1" "udbg.more t = udbg.more s" using t(1) v by simp_all
  then show ?thesis
    using True t p room fit vs final by (simp add: report_abs_def fits_def)
qed

section \<open>Runs\<close>

lemma ops_refine:
  assumes "vsnprintf_law K text" and "reads_law K" and "copies_law K"
  shows "fits (length (said text xs)) final s \<Longrightarrow> final = closing_text text bye s \<Longrightarrow> run_ops K bye xs s = (rs, t) \<Longrightarrow>
    report_steps text final xs (report_abs s) = (rs, report_abs t)"
proof (induction xs arbitrary: s rs)
  case (Cons x xs)
  obtain r u where 1: "run_op K bye x s = (r, u)" by fastforce
  obtain rs' where 2: "run_ops K bye xs u = (rs', t)" "rs = r # rs'"
    using Cons.prems(3) 1 by (auto split: prod.splits)
  have "report_step text final x (report_abs s) = (r, report_abs u) \<and> fits (length (said text xs)) final u
      \<and> udbg.more u = udbg.more s"
  proof (cases x)
    case (Say fmt args)
    show ?thesis unfolding Say
      by (rule say_refines [OF assms(1) _ 1 [unfolded Say]]) (use Cons.prems(1) Say in simp)
  next
    case (Read count pos)
    show ?thesis unfolding Read
      by (rule read_refines [OF assms(2) _ 1 [unfolded Read]]) (use Cons.prems(1) Read in simp)
  next
    case (Clean count)
    show ?thesis unfolding Clean
      by (rule clean_refines [OF assms(1,3) _ Cons.prems(2) 1 [unfolded Clean]]) (use Cons.prems(1) Clean in simp)
  qed
  moreover from this have "final = closing_text text bye u" using Cons.prems(2) by (simp add: closing_text_def)
  ultimately show ?case using Cons.IH [OF _ _ 2(1)] 2(2) by simp
qed simp

text \<open>(C4) The directory refines the abstract report: after \<open>u_dbfs_init\<close>, whatever sequence of messages, reads
  with any size and offset and writes to \<open>cleanup\<close> follows, every return value and every byte read is that of
  the report, as long as all messages together, those of \<open>child_exit\<close> included, take fewer than 1024
  characters.\<close>

theorem debugfs_refines_report:
  assumes "vsnprintf_law K text" and "reads_law K" and "copies_law K"
    and "u_dbfs_init K path s = (0, t)" and "entry s = 0"
    and "length (said text xs) + length (closing_text text bye t) < DATA_BUF_SIZE"
    and "run_ops K bye xs t = (rs, u)"
  shows "report_steps text (closing_text text bye t) xs \<lparr>shown = [], closed = False\<rparr> = (rs, report_abs u)"
proof -
  note i = u_dbfs_init_ok [OF assms(4)]
  have t: "printed t = []" "entry t = 0" using i(2) i(8) assms(5) by (simp_all add: printed_nil)
  then have "fits (length (said text xs)) (closing_text text bye t) t" using i(1,3) assms(6) by (simp add: fits_def)
  from ops_refine [OF assms(1-3) this refl assms(7)] show ?thesis using t by (simp add: report_abs_def)
qed

text \<open>A kernel whose user memory is mapped.\<close>

fun mapped :: "nat \<Rightarrow> kcall \<Rightarrow> int" where
  "mapped l (Simple_read_from_buffer count pos a n) =
     (if pos < 0 then - EINVAL else if n \<le> pos \<or> count \<le> 0 then 0 else min count (n - pos))"
| "mapped l (Copy_from_user n) = 0"
| "mapped l c = granted l c"

lemma mapped_laws:
  "vsnprintf_law (sample_kernel mapped) (\<lambda>fmt args. fmt)" "reads_law (sample_kernel mapped)"
  "copies_law (sample_kernel mapped)"
  by (simp_all add: sample_kernel_law reads_law_def copies_law_def)

lemma mapped_init:
  "u_dbfs_init (sample_kernel mapped) path udbg_zero = (0, snd (u_dbfs_init (sample_kernel mapped) path udbg_zero))"
  by (simp add: prod_eq_iff u_dbfs_init_def set_up_print_buffer_def kapi_def Let_def udbg_zero_def)

theorem debugfs_refines_report_witness:
  "fst (run_ops (sample_kernel mapped) (\<lambda>_. [(''bye'', [])])
      [Read 9 0, Say ''ab'' [], Say ''cd'' [], Read 2 1, Read 9 (- 1), Clean 2, Clean 2, Read 9 0]
      (snd (u_dbfs_init (sample_kernel mapped) ''kthread'' udbg_zero)))
   = [(0, []), (2, []), (2, []), (2, ''bc''), (- EINVAL, []), (2, []), (2, []), (7, ''abcdbye'')]"
proof -
  let ?t = "snd (u_dbfs_init (sample_kernel mapped) ''kthread'' udbg_zero)"
  let ?bye = "\<lambda>_. [(''bye'', [])]"
  let ?xs = "[Read 9 0, Say ''ab'' [], Say ''cd'' [], Read 2 1, Read 9 (- 1), Clean 2, Clean 2, Read 9 0]"
  have bye: "closing_text (\<lambda>fmt args. fmt) ?bye s = ''bye''" for s :: udbg by (simp add: closing_text_def)
  obtain rs u where r: "run_ops (sample_kernel mapped) ?bye ?xs ?t = (rs, u)" by fastforce
  have "report_steps (\<lambda>fmt args. fmt) (closing_text (\<lambda>fmt args. fmt) ?bye ?t) ?xs
      \<lparr>shown = [], closed = False\<rparr> = (rs, report_abs u)"
    by (rule debugfs_refines_report [OF mapped_laws mapped_init _ _ r]) (simp_all add: udbg_zero_def bye)
  then have "rs = [(0, []), (2, []), (2, []), (2, ''bc''), (- EINVAL, []), (2, []), (2, []), (7, ''abcdbye'')]"
    unfolding bye by (simp add: Let_def)
  then show ?thesis using r by (simp del: run_ops.simps)
qed

end
