(* ===== verification/Spec2Isabelle.thy ===== *)
theory Spec2Isabelle
  imports C_Prelude User_Memory Kernel_Interface Debugfs Symbols Uprobes_Inode Probe_Slot Probe_Handler
    Probe_Module Uprobes_W Kunreg Kunreg_Callback User_Threads Unreg_Test Legacy_Module Probe5 Probe6 Blink Pong
    Pong_Alternation Pong_WA7 Unload_Progress Probed_Programs Fork_And_Defunc_Table
    Concurrent_Hits Thread_Session Report_Channel
begin

text \<open>
  A verification development for the uprobes test suite.

  \<^bold>\<open>The program.\<close> The repository tests user-space breakpoints of Linux. A test consists of a user program,
  which calls functions that a kernel module has put breakpoints on, and of that module, whose handlers run at
  each hit. The tests come in two families. Those of \<open>uprobes.w\<close> use breakpoints that belong to an inode and
  an offset: a module (\<open>kthread.c\<close>, \<open>kdie.c\<close>, ...) looks up all functions \<open>_probe_N\<close> in a generated
  symbol table (\<open>symbols.h\<close>), resolves the functions of the kernel that are not exported
  (\<open>include/uprobes-inode.c\<close>) and attaches \<open>probe_handler\<close> (\<open>include/u_mod_common.h\<close>) to each. The
  program (\<open>uthread.c\<close>, \<open>tdie.c\<close>, ...) passes the address of a counter slot to every \<open>_probe_N\<close>
  (\<open>include/u_test_common.h\<close>); the handler counts in that slot and in \<open>num_probes\<close>, and the program compares
  the count with its own. Those of \<open>uprobes.existing\<close> use the older interface with a process id and an address,
  and their modules count or move probes on small programs (\<open>probeme4.c\<close>, ...). Both families report through
  debugfs (\<open>include/udbgfs.c\<close>): \<open>test_printk\<close> fills the file \<open>data\<close>, and a write to the file \<open>cleanup\<close>
  runs the module's \<open>child_exit\<close>.

  \<^bold>\<open>Conventions.\<close> The state of a C file is a record that extends the records of the files it includes:
  \<open>udbg\<close> (\<open>udbgfs.c\<close>), \<open>kmod\<close> (\<open>uprobes-inode.c\<close>), \<open>pmod\<close> (\<open>u_mod_common.h\<close>), \<open>kunreg\<close>, and
  \<open>probe5\<close>, \<open>p6\<close>, \<open>blink\<close>, \<open>pong\<close>, \<open>wa7\<close> for the modules. Every function is one
  definition of the same name where the name is free, and takes and returns the state. An early return is
  \<open>Some rc\<close> in an \<open>int option\<close>, and the iteration \<open>each\<close> of \<open>C_Prelude\<close> stops at the first one. The
  kernel is the parameter \<open>K\<close> (\<open>Kernel_Interface\<close>): it answers each call from the log of the earlier
  calls, and the log says which probes, files and allocations are live, so a theorem without a hypothesis on
  \<open>K\<close> holds for every kernel. \<open>put_user\<close> and \<open>get_user\<close> are the parameter \<open>ua\<close>, and generated symbol
  tables and \<open>find_vaddr\<close> are the parameters \<open>syms\<close> and \<open>fv\<close>. A program runs with a hook, which is what the
  kernel does when one of its breakpoints is hit; \<open>probe_hook\<close> is the hook made of the handler of a module,
  and this is where the two halves of a test meet.
\<close>

text \<open>
  \<^bold>\<open>The theories.\<close>

  \<^item> \<open>C_Prelude\<close>, \<open>User_Memory\<close>, \<open>Kernel_Interface\<close>: C integers and strings, the lemma collections, memory
    by bytes with the layout of structures for 32-bit and 64-bit builds, and the kernel.
  \<^item> \<open>Debugfs\<close> (\<open>udbgfs.c\<close>): all functions. Messages that fit are appended and nothing else is written; a message
    that does not fit breaks the bounds of the buffer; creating and removing the entries are inverse;
    every failure of \<open>u_dbfs_init\<close>.
  \<^item> \<open>Symbols\<close> (\<open>symbols.h\<close>), \<open>Fork_And_Defunc_Table\<close> (\<open>fork_and_defunc.h\<close>, \<open>sym2loc.c\<close>): lookups, the glob
    loop as iteration over the matching names, and both on the one table that the repository has.
  \<^item> \<open>Uprobes_Inode\<close> (\<open>uprobes-inode.c\<close>): \<open>_init_uprobe\<close> decides exactly, and afterwards no call goes through
    a null pointer.
  \<^item> \<open>Probe_Slot\<close> (\<open>u_test_common.h\<close>), \<open>Probe_Handler\<close> (\<open>u_mod_common.h\<close>): the slot, the probe functions and
    the handler for every architecture of \<open>get_first_arg\<close>. On the 32-bit build every interleaving of
    threads counts correctly; on the 64-bit build the third call on a slot fails.
  \<^item> \<open>Concurrent_Hits\<close> (\<open>u_mod_common.h\<close>): the handler one access at a time on several processors, which run
    without interruption is \<open>probe_handler\<close>. The slots stay exact; \<open>num_probes\<close> is bounded by the hits, and can
    lose all but one of those that come at the same time.
  \<^item> \<open>Thread_Session\<close>: a whole test on the 32-bit build, from loading the module through the calls of several
    threads in any order to the report and the unload. It composes the module, the handler, the probe functions and the
    directory.
  \<^item> \<open>Report_Channel\<close> (\<open>udbgfs.c\<close>): an abstract report (a string that is extended, read in parts and closed
    once), refined by the directory for every sequence of messages, reads and writes to \<open>cleanup\<close> that fits.
  \<^item> \<open>Probe_Module\<close> (the seven modules over \<open>probe_handler\<close>), \<open>Kunreg\<close>, \<open>Kunreg_Callback\<close> (\<open>kunreg.c\<close> in its
    two configurations), \<open>Uprobes_W\<close> (the modules as the kernel sees them): what loading registers, what
    a failed load and an unload leave behind, and what a whole session writes to \<open>data\<close>.
  \<^item> \<open>User_Threads\<close> (\<open>uthread.c\<close>, \<open>suicide.c\<close>, \<open>tdie.c\<close>, \<open>texec.c\<close>, \<open>unreg.c\<close>, \<open>fork_thread.c\<close>,
    \<open>fork_and_defunc.c\<close>): the thread functions, \<open>main\<close>, and the verdicts with the module loaded; \<open>Unreg_Test\<close> has
    the verdict of \<open>unreg\<close>.
  \<^item> \<open>Legacy_Module\<close>, \<open>Probe5\<close>, \<open>Probe6\<close>, \<open>Blink\<close>, \<open>Pong\<close>, \<open>Pong_WA7\<close>: the modules of \<open>uprobes.existing\<close>;
    each takes back what it registered, or the theorem says which probe it leaves and when.
  \<^item> \<open>Pong_Alternation\<close>: the abstract machine that \<open>pong.c\<close> refines. \<open>Unload_Progress\<close>: types and progress of the
    interleaved \<open>pong_wa7.c\<close>.
  \<^item> \<open>Probed_Programs\<close> (\<open>probeme4.c\<close>, \<open>probeme4s.c\<close>, \<open>probeme6.c\<close>, \<open>probe7-thread.c\<close>, \<open>probe8-fork.c\<close>): how many
    calls each makes, counted by \<open>probe5\<close>, and when \<open>probe7-thread\<close> ends.

  \<^bold>\<open>Interfaces.\<close> Each is a locale interpreted on the model's operations: \<open>byte_store\<close> (loads and stores; the byte
  memory), \<open>message_sink\<close> (printing that fits; \<open>test_printk\<close>), \<open>slot_protocol\<close> and its special case
  \<open>counting_hook\<close> (what a call of \<open>probe_N\<close> does to its slot; no breakpoint, the 32-bit and the 64-bit handler),
  \<open>debugfs_module\<close> (load and unload cycles; the modules of \<open>uprobes.w\<close>), \<open>probe_set\<close> (a table of probes registered
  and taken back by a loop; \<open>probe6\<close>, \<open>rprobe6\<close>) and \<open>clean_module\<close> (a module that leaves no probe; \<open>probe5\<close>,
  \<open>probe5lim\<close>, \<open>probe6\<close>, \<open>rprobe6\<close>).
\<close>

text \<open>
  \<^bold>\<open>Bounds.\<close> No definition has fuel. The glob loop and \<open>glob_names\<close> end since the index grows to the length of
  the table. The loop of \<open>probe7-thread\<close> may not end and is a \<open>partial_function\<close> whose value is then
  \<open>None\<close>. Counts are stated below \<open>2147483648\<close> hits, where an \<open>int\<close> wraps; \<open>kunreg\<close> is safe up to 99 symbols
  (\<open>MAX_PROBES\<close> is 100 and its loop reads one entry more); messages are exact while they fit in the 1024 bytes
  of the print buffer; a \<open>main\<close> that is asked for more than \<open>MAX_THREADS\<close> threads has the outcome
  \<open>Undefined\<close>, as its array has no further entry. In the interleaved \<open>pong_wa7\<close> a handler has nine points, and \<open>steps_left\<close> bounds what
  is left to do when no new hit comes.

  \<^bold>\<open>Not modelled.\<close>

  \<^item> \<open>printk\<close>, whose output is not read by the tests; the spin lock of \<open>test_printk\<close>, which makes it
    one step; code under \<open>#ifdef DEBUG\<close>, \<open>#if 0\<close> or \<open>if (debug)\<close> with \<open>debug\<close> 0; the times that the probed
    programs print; \<open>sleep\<close> and \<open>SIGSTOP\<close>, which change no state.
  \<^item> Accesses below a load or a store of a variable: \<open>Concurrent_Hits\<close> interleaves \<open>probe_handler\<close> on several
    processors at that grain, with sequentially consistent memory. In the other theories a hit is one step, in any
    order with other steps; \<open>Pong_WA7\<close> cuts its handlers into accesses too, and there one handler runs at a time.
    The handlers of the other modules of \<open>uprobes.existing\<close> are one step.
  \<^item> \<open>pthread_join(thread, (void **)&results)\<close> stores eight bytes at a four-byte variable in a 64-bit build; the
    model keeps the result and not the four bytes behind it.
  \<^item> The generator of the symbol tables, the run scripts, the expected outputs and the makefiles.
\<close>

end
